(* ===== verification/Prelude.thy ===== *)
theory Prelude
  imports Main "HOL-Library.Word" "HOL-Library.Sublist"
begin

text \<open>
  Shared vocabulary of the development: the machine integer types of the C++ code,
  the collections of simplification rules the component theories extend, and the
  generic facts on lists and words that several components use.
\<close>

section \<open>Machine integers\<close>

type_synonym u8 = "8 word"
type_synonym u16 = "16 word"
type_synonym u32 = "32 word"
type_synonym u64 = "64 word"

text \<open>
  A counter of type \<open>uint64_t\<close> that is post-incremented: as long as it is not the
  largest value, the increment is the increment of natural numbers.
\<close>

lemma unat_Suc_u64:
  fixes x :: u64
  assumes "unat x < 2 ^ 64 - 1"
  shows "unat (x + 1) = Suc (unat x)"
proof -
  have "unat (x + 1) = (unat x + 1) mod 2 ^ 64"
    by (simp add: unat_word_ariths)
  also have "\<dots> = unat x + 1"
    using assms by (intro mod_less) simp
  finally show ?thesis by simp
qed

lemma unat_less_u64 [simp]: "unat (x :: u64) < 18446744073709551616"
  using unsigned_less [of x, where 'a = nat] by simp

section \<open>Rule collections\<close>

named_theorems cxx_std \<open>characteristic equations of the C++ standard library functions\<close>
named_theorems db_simps \<open>field-wise effect of the storage operations\<close>
named_theorems db_inv \<open>preservation of the storage invariant\<close>

section \<open>Lists\<close>

text \<open>
  \<open>take_max\<close> is the limit idiom of the code: a limit of 0 means no limit at all.
\<close>

definition take_max :: "nat \<Rightarrow> 'a list \<Rightarrow> 'a list" where
  "take_max n xs = (if n = 0 then xs else take n xs)"

lemma take_max_0 [simp]: "take_max 0 xs = xs"
  by (simp add: take_max_def)

lemma length_take_max: "0 < n \<Longrightarrow> length (take_max n xs) \<le> n"
  by (simp add: take_max_def)

lemma set_take_max_subset: "set (take_max n xs) \<subseteq> set xs"
  by (auto simp: take_max_def dest: in_set_takeD)

lemma take_max_all: "length xs \<le> n \<Longrightarrow> take_max n xs = xs"
  by (simp add: take_max_def)

lemma filter_eq_single:
  assumes "distinct (map f xs)" "x \<in> set xs"
  shows "filter (\<lambda>y. f y = f x) xs = [x]"
  using assms
proof (induction xs)
  case Nil
  then show ?case by simp
next
  case (Cons a xs)
  show ?case
  proof (cases "f a = f x")
    case True
    from Cons.prems(1) have "f a \<notin> f ` set xs" by simp
    with True have ne: "\<forall>y\<in>set xs. f y \<noteq> f x" by (metis imageI)
    with Cons.prems(2) have "a = x" by auto
    moreover from ne have "filter (\<lambda>y. f y = f x) xs = []" by (simp add: filter_empty_conv)
    ultimately show ?thesis using True by simp
  next
    case False
    with Cons.prems have "x \<in> set xs" by auto
    with Cons.IH Cons.prems False show ?thesis by simp
  qed
qed

lemma find_Some_distinct:
  assumes "distinct (map f xs)" "x \<in> set xs" "f x = k"
  shows "List.find (\<lambda>y. f y = k) xs = Some x"
  using assms by (induction xs) (auto simp: rev_image_eqI)

lemma find_append:
  "List.find P (xs @ ys) = (case List.find P xs of None \<Rightarrow> List.find P ys | Some x \<Rightarrow> Some x)"
  by (induction xs) auto

end
