(* ===== verification/Cxx_Std.thy ===== *)
theory Cxx_Std
  imports Prelude
begin

text \<open>
  The part of the C and C++ standard library the code calls on strings, in the C locale:
  \<open>std::string\<close> is a list of bytes (\<open>char list\<close>), \<open>std::string::npos\<close> is \<open>None\<close>, and an
  exception is the left part of a sum.
\<close>

datatype cxx_exn = Invalid_argument | Out_of_range | Runtime_error string

section \<open>Characters\<close>

definition NUL :: char where
  "NUL = char_of (0 :: nat)"

text \<open>The line end of HTTP.\<close>

definition crlf :: string where
  "crlf = [CHR 0x0D, CHR 0x0A]"

abbreviation code :: "char \<Rightarrow> nat" where
  "code c \<equiv> of_char c"

definition isdigit :: "char \<Rightarrow> bool" where
  "isdigit c \<longleftrightarrow> 48 \<le> code c \<and> code c \<le> 57"

definition isspace :: "char \<Rightarrow> bool" where
  "isspace c \<longleftrightarrow> code c = 32 \<or> 9 \<le> code c \<and> code c \<le> 13"

definition isupper :: "char \<Rightarrow> bool" where
  "isupper c \<longleftrightarrow> 65 \<le> code c \<and> code c \<le> 90"

definition islower :: "char \<Rightarrow> bool" where
  "islower c \<longleftrightarrow> 97 \<le> code c \<and> code c \<le> 122"

definition tolower :: "char \<Rightarrow> char" where
  "tolower c = (if isupper c then char_of (code c + 32) else c)"

definition digit_char :: "nat \<Rightarrow> char" where
  "digit_char d = char_of (48 + d)"

definition digit_val :: "char \<Rightarrow> nat" where
  "digit_val c = code c - 48"

lemma code_char_of: "n < 256 \<Longrightarrow> code (char_of n) = n"
  by (simp add: of_char_of)

lemma code_inj: "code c = code d \<longleftrightarrow> c = d"
  by simp

lemma code_digit_char: "d < 10 \<Longrightarrow> code (digit_char d) = 48 + d"
  by (simp add: digit_char_def code_char_of del: of_char_of)

lemma isdigit_digit_char [simp]: "d < 10 \<Longrightarrow> isdigit (digit_char d)"
  by (simp add: isdigit_def code_digit_char)

lemma digit_val_digit_char [simp]: "d < 10 \<Longrightarrow> digit_val (digit_char d) = d"
  by (simp add: digit_val_def code_digit_char)

lemma digit_not_space: "isdigit c \<Longrightarrow> \<not> isspace c"
  by (auto simp: isdigit_def isspace_def)

text \<open>\<open>s.c_str()\<close> read as a C string, up to its first zero byte.\<close>

definition c_str :: "string \<Rightarrow> string" where
  "c_str s = takeWhile (\<lambda>c. c \<noteq> NUL) s"

lemma c_str_id: "NUL \<notin> set s \<Longrightarrow> c_str s = s"
  by (simp add: c_str_def takeWhile_eq_all_conv) blast

lemma c_str_no_NUL: "NUL \<notin> set (c_str s)"
  by (auto simp: c_str_def dest: set_takeWhileD)

lemma c_str_idem [simp]: "c_str (c_str s) = c_str s"
  by (simp add: c_str_id c_str_no_NUL)

section \<open>Comparison\<close>

text \<open>
  \<open>strncmp(a, b, n) == 0\<close> on two zero-terminated buffers: the bytes are compared until
  \<open>n\<close> of them have been seen, a difference, or a common terminator.
\<close>

fun strncmp_eq :: "string \<Rightarrow> string \<Rightarrow> nat \<Rightarrow> bool" where
  "strncmp_eq a b 0 = True"
| "strncmp_eq a b (Suc n) =
     (let x = (case a of [] \<Rightarrow> NUL | c # _ \<Rightarrow> c);
          y = (case b of [] \<Rightarrow> NUL | c # _ \<Rightarrow> c)
      in if x \<noteq> y then False else if x = NUL then True else strncmp_eq (tl a) (tl b) n)"

lemma strncmp_eq_prefix:
  "NUL \<notin> set b \<Longrightarrow> strncmp_eq a b (length b) \<longleftrightarrow> prefix b a"
proof (induction b arbitrary: a)
  case Nil
  then show ?case by simp
next
  case (Cons y b)
  then show ?case by (cases a) (auto simp: Let_def)
qed

text \<open>\<open>strcasecmp(a, b) == 0\<close>.\<close>

definition strcasecmp_eq :: "string \<Rightarrow> string \<Rightarrow> bool" where
  "strcasecmp_eq a b \<longleftrightarrow> map tolower (c_str a) = map tolower (c_str b)"

section \<open>Searching\<close>

text \<open>\<open>std::string::find(needle, pos)\<close>: the first position not before \<open>pos\<close>.\<close>

fun find_off :: "string \<Rightarrow> string \<Rightarrow> nat \<Rightarrow> nat option" where
  "find_off needle [] i = (if needle = [] then Some i else None)"
| "find_off needle (c # cs) i =
     (if prefix needle (c # cs) then Some i else find_off needle cs (Suc i))"

definition str_find :: "string \<Rightarrow> string \<Rightarrow> nat \<Rightarrow> nat option" where
  "str_find s needle pos = (if pos \<le> length s then find_off needle (drop pos s) pos else None)"

lemma find_off_Some:
  "find_off needle s i = Some p \<Longrightarrow>
     i \<le> p \<and> p - i \<le> length s \<and> prefix needle (drop (p - i) s) \<and>
     (\<forall>j < p - i. \<not> prefix needle (drop j s))"
proof (induction needle s i rule: find_off.induct)
  case (1 needle i)
  then show ?case by (auto split: if_splits)
next
  case (2 needle c cs i)
  show ?case
  proof (cases "prefix needle (c # cs)")
    case True
    with "2.prems" show ?thesis by auto
  next
    case False
    with "2.prems" have "find_off needle cs (Suc i) = Some p" by simp
    with "2.IH" False have ih: "Suc i \<le> p" "p - Suc i \<le> length cs"
      "prefix needle (drop (p - Suc i) cs)" "\<forall>j < p - Suc i. \<not> prefix needle (drop j cs)"
      by auto
    have "p - i = Suc (p - Suc i)" using ih(1) by simp
    with ih False show ?thesis by (auto simp: less_Suc_eq_0_disj)
  qed
qed

lemma all_le_Suc: "(\<forall>j \<le> length (c # cs). P j) \<longleftrightarrow> P 0 \<and> (\<forall>j \<le> length cs. P (Suc j))"
proof -
  have "(\<forall>j \<le> Suc n. P j) \<longleftrightarrow> P 0 \<and> (\<forall>j \<le> n. P (Suc j))" for n
    by (metis Suc_le_mono le0 not0_implies_Suc)
  then show ?thesis by simp
qed

lemma find_off_None:
  "find_off needle s i = None \<longleftrightarrow> (\<forall>j \<le> length s. \<not> prefix needle (drop j s))"
proof (induction needle s i rule: find_off.induct)
  case (1 needle i)
  then show ?case by auto
next
  case (2 needle c cs i)
  have "(\<forall>j \<le> length (c # cs). \<not> prefix needle (drop j (c # cs))) \<longleftrightarrow>
      \<not> prefix needle (c # cs) \<and> (\<forall>j \<le> length cs. \<not> prefix needle (drop j cs))"
    by (subst all_le_Suc) simp
  with 2 show ?case by auto
qed

lemma str_find_Some:
  assumes "str_find s needle pos = Some p"
  shows "pos \<le> p" "p + length needle \<le> length s" "take (length needle) (drop p s) = needle"
    "\<forall>j. pos \<le> j \<and> j < p \<longrightarrow> \<not> prefix needle (drop j s)"
proof -
  from assms have le: "pos \<le> length s" and f: "find_off needle (drop pos s) pos = Some p"
    by (auto simp: str_find_def split: if_splits)
  note F = find_off_Some [OF f]
  show "pos \<le> p" using F by simp
  have "p - pos + pos = p" using F by simp
  with F have pre: "prefix needle (drop p s)" by (metis drop_drop)
  then show "take (length needle) (drop p s) = needle"
    by (auto simp: prefix_def)
  have "length needle \<le> length (drop p s)" using pre by (rule prefix_length_le)
  moreover have "p - pos \<le> length s - pos" using F by simp
  then have "p \<le> length s" using le by linarith
  ultimately show "p + length needle \<le> length s" by simp
  show "\<forall>j. pos \<le> j \<and> j < p \<longrightarrow> \<not> prefix needle (drop j s)"
  proof (intro allI impI)
    fix j assume j: "pos \<le> j \<and> j < p"
    then have "j - pos < p - pos" by linarith
    then have "\<not> prefix needle (drop (j - pos) (drop pos s))" using F by blast
    moreover have "j - pos + pos = j" using j by simp
    ultimately show "\<not> prefix needle (drop j s)" by (metis drop_drop)
  qed
qed

lemma str_find_skip:
  assumes "\<not> prefix needle s" "s \<noteq> []"
  shows "find_off needle s i = find_off needle (tl s) (Suc i)"
  using assms by (cases s) auto

section \<open>Numbers\<close>

text \<open>\<open>std::to_string\<close> of an unsigned and of a signed integer.\<close>

fun show_nat :: "nat \<Rightarrow> string" where
  "show_nat n = (if n < 10 then [digit_char n] else show_nat (n div 10) @ [digit_char (n mod 10)])"

declare show_nat.simps [simp del]

definition show_int :: "int \<Rightarrow> string" where
  "show_int i = (if i < 0 then CHR ''-'' # show_nat (nat (- i)) else show_nat (nat i))"

lemma show_nat_digits: "\<forall>c \<in> set (show_nat n). isdigit c"
proof (induction n rule: show_nat.induct)
  case (1 n)
  then show ?case by (subst show_nat.simps) auto
qed

lemma show_nat_nonempty [simp]: "show_nat n \<noteq> []"
  by (subst show_nat.simps) simp

lemma show_nat_lead_zero: "0 < n \<Longrightarrow> hd (show_nat n) \<noteq> CHR ''0''"
proof (induction n rule: show_nat.induct)
  case (1 n)
  show ?case
  proof (cases "n < 10")
    case True
    have "digit_char n \<noteq> CHR ''0''"
    proof
      assume "digit_char n = CHR ''0''"
      then have "code (digit_char n) = 48" by simp
      with code_digit_char [OF True] 1 show False by simp
    qed
    with True show ?thesis by (subst show_nat.simps) simp
  next
    case False
    with 1 have "hd (show_nat (n div 10)) \<noteq> CHR ''0''" by auto
    with False show ?thesis by (subst show_nat.simps) simp
  qed
qed

text \<open>The value of a digit string, read from the left.\<close>

definition digits_val :: "nat \<Rightarrow> string \<Rightarrow> nat" where
  "digits_val acc s = fold (\<lambda>c v. v * 10 + digit_val c) s acc"

lemma digits_val_simps [simp]:
  "digits_val acc [] = acc"
  "digits_val acc (c # s) = digits_val (acc * 10 + digit_val c) s"
  "digits_val acc (s @ t) = digits_val (digits_val acc s) t"
  by (simp_all add: digits_val_def)

lemma digits_val_show_nat: "digits_val 0 (show_nat n) = n"
proof (induction n rule: show_nat.induct)
  case (1 n)
  then show ?case by (subst show_nat.simps) auto
qed

lemma digits_val_mono: "acc \<le> digits_val acc s"
  by (induction s arbitrary: acc) (auto, metis add_leE le_add1 le_trans mult_le_mono2 nat_mult_1_right one_le_numeral)

text \<open>
  \<open>std::stoi(s, nullptr, 10)\<close> through \<open>strtol\<close>: blanks, a sign, digits; an empty digit
  string is \<open>std::invalid_argument\<close>, a value outside \<open>int\<close> is \<open>std::out_of_range\<close>.
\<close>

definition sign_split :: "string \<Rightarrow> bool \<times> string" where
  "sign_split s =
     (case s of [] \<Rightarrow> (False, [])
      | c # cs \<Rightarrow> if c = CHR ''-'' then (True, cs) else if c = CHR ''+'' then (False, cs) else (False, s))"

definition stoi :: "string \<Rightarrow> cxx_exn + int" where
  "stoi s =
     (case sign_split (dropWhile isspace s) of (neg, t) \<Rightarrow>
        let ds = takeWhile isdigit t;
            v = (if neg then - int (digits_val 0 ds) else int (digits_val 0 ds))
        in if ds = [] then Inl Invalid_argument
           else if v < - (2 ^ 31) \<or> v \<ge> 2 ^ 31 then Inl Out_of_range
           else Inr v)"

text \<open>
  \<open>std::stoul(s, &parsed, base)\<close> through \<open>strtoul\<close>, for bases 10 and 16: a minus sign
  negates modulo \<open>2 ^ 64\<close>, a value above \<open>ULONG_MAX\<close> is \<open>std::out_of_range\<close>. Base 16
  accepts a \<open>0x\<close> prefix that a hexadecimal digit follows. The second result is the
  number of characters consumed.
\<close>

definition isxdigit :: "char \<Rightarrow> bool" where
  "isxdigit c \<longleftrightarrow> isdigit c \<or> 65 \<le> code c \<and> code c \<le> 70 \<or> 97 \<le> code c \<and> code c \<le> 102"

definition xdigit_val :: "char \<Rightarrow> nat" where
  "xdigit_val c = (if isdigit c then code c - 48 else if code c \<le> 70 then code c - 55 else code c - 87)"

definition xdigits_val :: "nat \<Rightarrow> string \<Rightarrow> nat" where
  "xdigits_val acc s = fold (\<lambda>c v. v * 16 + xdigit_val c) s acc"

definition hex_prefix :: "string \<Rightarrow> nat" where
  "hex_prefix t =
     (case t of z # x # h # _ \<Rightarrow>
        if z = CHR ''0'' \<and> (x = CHR ''x'' \<or> x = CHR ''X'') \<and> isxdigit h then 2 else 0
      | _ \<Rightarrow> 0)"

definition stoul_result :: "bool \<Rightarrow> string \<Rightarrow> nat \<Rightarrow> nat \<Rightarrow> cxx_exn + u64 \<times> nat" where
  "stoul_result neg ds v consumed =
     (if ds = [] then Inl Invalid_argument
      else if v \<ge> 2 ^ 64 then Inl Out_of_range
      else Inr (if neg then - of_nat v else of_nat v, consumed))"

definition stoul10 :: "string \<Rightarrow> cxx_exn + u64 \<times> nat" where
  "stoul10 s =
     (let r = dropWhile isspace s in
      case sign_split r of (neg, t) \<Rightarrow>
        let ds = takeWhile isdigit t
        in stoul_result neg ds (digits_val 0 ds) (length s - length t + length ds))"

definition stoul16 :: "string \<Rightarrow> cxx_exn + u64 \<times> nat" where
  "stoul16 s =
     (let r = dropWhile isspace s in
      case sign_split r of (neg, t) \<Rightarrow>
        let k = hex_prefix t;
            ds = takeWhile isxdigit (drop k t)
        in stoul_result neg ds (xdigits_val 0 ds) (length s - length t + k + length ds))"

lemma takeWhile_isdigit_show_nat:
  "takeWhile isdigit (show_nat n @ t) = show_nat n @ takeWhile isdigit t"
  using show_nat_digits [of n] by (simp add: takeWhile_append)

lemma show_nat_no_sign: "sign_split (show_nat n @ t) = (False, show_nat n @ t)"
proof -
  obtain c cs where s: "show_nat n = c # cs" by (cases "show_nat n") auto
  with show_nat_digits [of n] have "isdigit c" by simp
  then have "c \<noteq> CHR ''-'' \<and> c \<noteq> CHR ''+''" by (auto simp: isdigit_def)
  with s show ?thesis by (simp add: sign_split_def)
qed

lemma show_nat_no_space: "dropWhile isspace (show_nat n @ t) = show_nat n @ t"
proof -
  obtain c cs where s: "show_nat n = c # cs" by (cases "show_nat n") auto
  with show_nat_digits [of n] have "isdigit c" by simp
  with s show ?thesis by (simp add: digit_not_space)
qed

lemma takeWhile_isdigit_all [simp]: "takeWhile isdigit (show_nat n) = show_nat n"
  using show_nat_digits [of n] by (simp add: takeWhile_eq_all_conv)

text \<open>Printing and reading a number.\<close>

lemma stoul10_show_nat:
  assumes "n < 2 ^ 64"
  shows "stoul10 (show_nat n) = Inr (of_nat n, length (show_nat n))"
  using assms show_nat_no_space [of n "[]"] show_nat_no_sign [of n "[]"]
  by (simp add: stoul10_def stoul_result_def Let_def digits_val_show_nat)

lemma stoi_show_nat:
  assumes "n < 2 ^ 31"
  shows "stoi (show_nat n) = Inr (int n)"
  using assms show_nat_no_space [of n "[]"] show_nat_no_sign [of n "[]"]
  by (simp add: stoi_def Let_def digits_val_show_nat)

end
