(* ===== verification/Str_Utils.thy ===== *)
theory Str_Utils
  imports Cxx_Std
begin

text \<open>
  The string functions of \<open>common/utils.cpp\<close>: \<open>split\<close>, \<open>join\<close>, \<open>starts_with\<close>,
  \<open>ends_with\<close>, \<open>lowercased\<close>, the trims, \<open>dequoted\<close>, the path helpers, \<open>int2ipv4\<close> and
  \<open>host_from_link\<close>, and what they promise: splitting loses nothing, joining undoes it.
\<close>

section \<open>split and join\<close>

text \<open>
  The loop of \<open>split(line, delimiter, max_parts)\<close>. It is a \<open>partial_function\<close> because it
  does not end for an empty delimiter: \<open>line.find("", prev_pos)\<close> is \<open>prev_pos\<close> itself.
\<close>

partial_function (option) split_loop ::
  "string \<Rightarrow> string \<Rightarrow> int \<Rightarrow> int \<Rightarrow> string list \<Rightarrow> nat \<Rightarrow> (string list \<times> nat) option" where
  "split_loop line delimiter max_parts parts strs prev_pos =
     (case str_find line delimiter prev_pos of
        None \<Rightarrow> Some (strs, prev_pos)
      | Some pos \<Rightarrow>
          if parts + 1 = max_parts - 1
          then Some (strs @ [take (pos - prev_pos) (drop prev_pos line)], pos + length delimiter)
          else split_loop line delimiter max_parts (parts + 1)
                 (strs @ [take (pos - prev_pos) (drop prev_pos line)]) (pos + length delimiter))"

declare split_loop.simps [code]

definition split_max :: "string \<Rightarrow> string \<Rightarrow> int \<Rightarrow> string list option" where
  "split_max line delimiter max_parts =
     (case split_loop line delimiter max_parts 0 [] 0 of
        None \<Rightarrow> None
      | Some (strs, prev_pos) \<Rightarrow>
          if prev_pos \<le> length line then Some (strs @ [drop prev_pos line]) else Some strs)"

definition split :: "string \<Rightarrow> string \<Rightarrow> string list option" where
  "split line delimiter = split_max line delimiter (-1)"

fun join_loop :: "bool \<Rightarrow> string list \<Rightarrow> string \<Rightarrow> string" where
  "join_loop first [] connector = []"
| "join_loop first (v # vec) connector =
     (if \<not> first then connector else []) @ v @ join_loop False vec connector"

definition join :: "string list \<Rightarrow> string \<Rightarrow> string" where
  "join vec connector = join_loop True vec connector"

text \<open>The same splitting without positions, on the rest of the line.\<close>

function parts_of :: "string \<Rightarrow> string \<Rightarrow> string list" where
  "parts_of d s =
     (case find_off d s 0 of
        None \<Rightarrow> [s]
      | Some p \<Rightarrow> if d = [] then [s] else take p s # parts_of d (drop (p + length d) s))"
  by pat_completeness auto
termination
proof (relation "measure (\<lambda>(d, s). length s)")
  fix d s p assume "find_off d s 0 = Some p" "d \<noteq> ([] :: string)"
  then have "prefix d (drop p s)" using find_off_Some by fastforce
  with \<open>d \<noteq> []\<close> have "drop p s \<noteq> []" by auto
  with \<open>d \<noteq> []\<close> have "p < length s" "0 < length d" by (auto simp: not_less)
  then have "length s - (p + length d) < length s" by linarith
  then show "((d, drop (p + length d) s), d, s) \<in> measure (\<lambda>(d, s). length s)"
    by simp
qed simp

declare parts_of.simps [simp del]

lemma find_off_shift: "find_off d s i = map_option (\<lambda>p. p + i) (find_off d s 0)"
proof (induction s arbitrary: i)
  case Nil
  then show ?case by simp
next
  case (Cons c s)
  show ?case
    by (simp add: Cons.IH [of "Suc i"] Cons.IH [of "Suc 0"] option.map_comp comp_def)
qed

lemma str_find_rest:
  "prev \<le> length line \<Longrightarrow>
     str_find line d prev = map_option (\<lambda>p. p + prev) (find_off d (drop prev line) 0)"
  by (simp add: str_find_def find_off_shift [of d "drop prev line" prev])

lemma find_off_bound:
  assumes "find_off d s 0 = Some p"
  shows "p + length d \<le> length s"
proof -
  have "str_find s d 0 = Some p" using assms by (simp add: str_find_def)
  then show ?thesis by (rule str_find_Some(2))
qed

lemma split_loop_unlimited:
  assumes "d \<noteq> []" "prev \<le> length line" "0 \<le> parts"
  shows "\<exists>strs' prev'. split_loop line d (-1) parts strs prev = Some (strs', prev') \<and>
           prev' \<le> length line \<and> strs' @ [drop prev' line] = strs @ parts_of d (drop prev line)"
  using assms(2,3)
proof (induction "length line - prev" arbitrary: parts strs prev rule: less_induct)
  case less
  show ?case
  proof (cases "find_off d (drop prev line) 0")
    case None
    with less.prems show ?thesis
      by (subst split_loop.simps, subst parts_of.simps) (simp add: str_find_rest)
  next
    case (Some p)
    let ?prev = "p + prev + length d"
    let ?s = "strs @ [take p (drop prev line)]"
    have le: "?prev \<le> length line"
      using find_off_bound [OF Some] less.prems by simp
    moreover have "length line - ?prev < length line - prev"
      using le length_greater_0_conv [of d] assms(1) by linarith
    ultimately obtain strs' prev' where
      "split_loop line d (-1) (parts + 1) ?s ?prev = Some (strs', prev')"
      "prev' \<le> length line" "strs' @ [drop prev' line] = ?s @ parts_of d (drop ?prev line)"
      using less.hyps [of ?prev "parts + 1" ?s] less.prems by auto
    moreover have "parts_of d (drop prev line) = take p (drop prev line) # parts_of d (drop ?prev line)"
      using Some assms(1) by (subst parts_of.simps) (simp add: add.commute add.left_commute)
    ultimately show ?thesis
      using Some less.prems by (subst split_loop.simps) (simp add: str_find_rest)
  qed
qed

lemma split_parts_of: "d \<noteq> [] \<Longrightarrow> split line d = Some (parts_of d line)"
  using split_loop_unlimited [of d 0 line 0 "[]"] by (auto simp: split_def split_max_def)

lemma parts_of_nonempty [simp]: "parts_of d s \<noteq> []"
  by (subst parts_of.simps) (auto split: option.splits)

lemma join_loop_False: "vec \<noteq> [] \<Longrightarrow> join_loop False vec c = c @ join_loop True vec c"
  by (cases vec) auto

lemma join_parts_of: "join (parts_of d s) d = s"
proof (induction d s rule: parts_of.induct)
  case (1 d s)
  show ?case
  proof (cases "find_off d s 0")
    case None
    then show ?thesis by (subst parts_of.simps) (simp add: join_def)
  next
    case (Some p)
    show ?thesis
    proof (cases "d = []")
      case True
      with Some show ?thesis by (subst parts_of.simps) (simp add: join_def)
    next
      case False
      have "str_find s d 0 = Some p" using Some by (simp add: str_find_def)
      then have "take (length d) (drop p s) = d" by (rule str_find_Some(3))
      then have "s = take p s @ d @ drop (p + length d) s"
        by (metis append_take_drop_id drop_drop add.commute)
      moreover have "join (parts_of d s) d = take p s @ d @ join (parts_of d (drop (p + length d) s)) d"
        using Some False by (subst parts_of.simps) (simp add: join_def join_loop_False)
      ultimately show ?thesis using "1.IH" [OF Some False] by simp
    qed
  qed
qed

text \<open>Splitting what was joined, for a one-character delimiter the parts do not contain.\<close>

lemma find_off_char:
  "c \<notin> set v \<Longrightarrow> find_off [c] (v @ c # t) 0 = Some (length v)"
proof (induction v)
  case Nil
  then show ?case by simp
next
  case (Cons a v)
  then show ?case by (simp add: find_off_shift [of "[c]" _ "Suc 0"])
qed

lemma find_off_char_None: "c \<notin> set v \<Longrightarrow> find_off [c] v i = None"
  by (induction v arbitrary: i) auto

lemma parts_of_join:
  assumes "vec \<noteq> []" "\<forall>v \<in> set vec. c \<notin> set v"
  shows "parts_of [c] (join vec [c]) = vec"
  using assms
proof (induction vec)
  case Nil
  then show ?case by simp
next
  case (Cons v vec)
  show ?case
  proof (cases "vec = []")
    case True
    with Cons.prems show ?thesis
      by (subst parts_of.simps) (simp add: join_def find_off_char_None)
  next
    case False
    then have "join (v # vec) [c] = v @ c # join vec [c]"
      by (simp add: join_def join_loop_False)
    with Cons False show ?thesis
      by (subst parts_of.simps) (simp add: find_off_char)
  qed
qed

section \<open>Prefixes, suffixes, case\<close>

definition starts_with :: "string \<Rightarrow> string \<Rightarrow> bool" where
  "starts_with s predicate \<longleftrightarrow> strncmp_eq s predicate (length predicate)"

definition ends_with :: "string \<Rightarrow> string \<Rightarrow> bool" where
  "ends_with s predicate \<longleftrightarrow>
     (if length s < length predicate then False
      else strncmp_eq (drop (length s - length predicate) s) predicate (length predicate))"

definition lowercased :: "string \<Rightarrow> string" where
  "lowercased str = map tolower str"

lemma starts_with_prefix: "NUL \<notin> set p \<Longrightarrow> starts_with s p \<longleftrightarrow> prefix p s"
  by (simp add: starts_with_def strncmp_eq_prefix)

lemma ends_with_suffix:
  assumes "NUL \<notin> set p"
  shows "ends_with s p \<longleftrightarrow> suffix p s"
proof (cases "length s < length p")
  case True
  then show ?thesis by (auto simp: ends_with_def dest: suffix_length_le)
next
  case False
  have "prefix p (drop (length s - length p) s) \<longleftrightarrow> drop (length s - length p) s = p"
    using False by (metis append_eq_append_conv append_Nil2 diff_diff_cancel length_drop not_less prefix_def)
  also have "\<dots> \<longleftrightarrow> suffix p s"
    by (metis append_eq_conv_conj append_take_drop_id diff_add_inverse2 length_append suffix_def)
  finally show ?thesis using False assms by (simp add: ends_with_def strncmp_eq_prefix)
qed

lemma tolower_idem [simp]: "tolower (tolower c) = tolower c"
proof (cases "isupper c")
  case True
  then have "code c + 32 < 256" by (simp add: isupper_def)
  then have "code (tolower c) = code c + 32"
    using True by (simp add: tolower_def code_char_of del: of_char_of)
  then have "\<not> isupper (tolower c)" using True by (simp add: isupper_def)
  then show ?thesis by (simp add: tolower_def [of "tolower c"])
next
  case False
  then show ?thesis by (simp add: tolower_def)
qed

lemma lowercased_idem [simp]: "lowercased (lowercased s) = lowercased s"
  by (simp add: lowercased_def)

section \<open>Trimming\<close>

definition ltrimmed :: "string \<Rightarrow> string" where
  "ltrimmed s = dropWhile isspace s"

definition rtrimmed :: "string \<Rightarrow> string" where
  "rtrimmed s = rev (dropWhile isspace (rev s))"

definition trimmed :: "string \<Rightarrow> string" where
  "trimmed s = rtrimmed (ltrimmed s)"

text \<open>The result has no blank at either end and differs from the input by blanks only.\<close>

lemma rtrimmed_decomp: "\<exists>b. s = rtrimmed s @ b \<and> list_all isspace b"
proof -
  have "rev s = takeWhile isspace (rev s) @ dropWhile isspace (rev s)" by simp
  then have "s = rtrimmed s @ rev (takeWhile isspace (rev s))"
    unfolding rtrimmed_def by (metis rev_append rev_rev_ident)
  moreover have "list_all isspace (rev (takeWhile isspace (rev s)))"
    by (auto simp: list_all_iff dest: set_takeWhileD)
  ultimately show ?thesis by blast
qed

lemma trimmed_decomp:
  "\<exists>a b. s = a @ trimmed s @ b \<and> list_all isspace a \<and> list_all isspace b"
proof -
  obtain b where "ltrimmed s = trimmed s @ b" "list_all isspace b"
    using rtrimmed_decomp [of "ltrimmed s"] by (auto simp: trimmed_def)
  moreover have "s = takeWhile isspace s @ ltrimmed s" by (simp add: ltrimmed_def)
  moreover have "list_all isspace (takeWhile isspace s)"
    by (auto simp: list_all_iff dest: set_takeWhileD)
  ultimately show ?thesis by metis
qed

lemma trimmed_ends:
  assumes "trimmed s \<noteq> []"
  shows "\<not> isspace (hd (trimmed s)) \<and> \<not> isspace (last (trimmed s))"
proof -
  have ne: "dropWhile isspace (rev (ltrimmed s)) \<noteq> []"
    using assms by (simp add: trimmed_def rtrimmed_def)
  have "last (trimmed s) = hd (dropWhile isspace (rev (ltrimmed s)))"
    using ne by (simp add: trimmed_def rtrimmed_def last_rev)
  then have l: "\<not> isspace (last (trimmed s))"
    using hd_dropWhile [OF ne] by simp
  obtain b where "ltrimmed s = trimmed s @ b"
    using rtrimmed_decomp [of "ltrimmed s"] by (auto simp: trimmed_def)
  then have "hd (trimmed s) = hd (ltrimmed s)" "ltrimmed s \<noteq> []"
    using assms by (metis hd_append2, simp)
  then have "\<not> isspace (hd (trimmed s))"
    using hd_dropWhile [of isspace s] by (simp add: ltrimmed_def)
  with l show ?thesis by simp
qed

section \<open>dequoted\<close>

abbreviation dquote :: char where
  "dquote \<equiv> CHR 0x22"

abbreviation backslash :: char where
  "backslash \<equiv> CHR 0x5C"

function dequoted_loop :: "string \<Rightarrow> nat \<Rightarrow> nat \<Rightarrow> string \<Rightarrow> string" where
  "dequoted_loop str beg stop s =
     (if beg < stop then
        (case str_find str [backslash] beg of
           None \<Rightarrow> dequoted_loop str stop stop (s @ take (stop - beg) (drop beg str))
         | Some i \<Rightarrow>
             if i + 1 \<ge> stop
             then dequoted_loop str stop stop (s @ take (stop - beg) (drop beg str))
             else
               (let s' = s @ take (i - beg) (drop beg str); c = str ! (i + 1)
                in if c = backslash then dequoted_loop str (i + 2) stop (s' @ [backslash])
                   else if c = dquote then dequoted_loop str (i + 2) stop (s' @ [dquote])
                   else dequoted_loop str (i + 1) stop (s' @ [backslash])))
      else s)"
  by pat_completeness auto
termination
  by (relation "measure (\<lambda>(str, beg, stop, s). stop - beg)") (auto dest!: str_find_Some(1))

declare dequoted_loop.simps [simp del]

definition dequoted :: "string \<Rightarrow> string" where
  "dequoted str =
     (if str = [] then str
      else if hd str = dquote then
        (if length str < 2 \<or> last str \<noteq> dquote then str
         else dequoted_loop str 1 (length str - 1) [])
      else dequoted_loop str 0 (length str) [])"

section \<open>Paths, addresses\<close>

definition filename :: "string \<Rightarrow> string" where
  "filename path = rev (takeWhile (\<lambda>c. c \<noteq> CHR ''/'') (rev path))"

definition filepath :: "string \<Rightarrow> string" where
  "filepath name =
     (if CHR ''/'' \<in> set name then rev (tl (dropWhile (\<lambda>c. c \<noteq> CHR ''/'') (rev name))) else name)"

text \<open>\<open>dir.back()\<close> on an empty string is undefined behaviour, \<open>None\<close> here.\<close>

definition concat_dir_file :: "string \<Rightarrow> string \<Rightarrow> string option" where
  "concat_dir_file dir file =
     (if dir = [] then None
      else if last dir = CHR ''/'' then Some (dir @ file) else Some (dir @ ''/'' @ file))"

unbundle bit_operations_syntax

definition int2ipv4 :: "u32 \<Rightarrow> string" where
  "int2ipv4 ip =
     show_nat (unat (ip AND 0xFF)) @ ''.'' @ show_nat (unat (drop_bit 8 (ip AND 0xFF00))) @ ''.'' @
     show_nat (unat (drop_bit 16 (ip AND 0xFF0000))) @ ''.'' @
     show_nat (unat (drop_bit 24 (ip AND 0xFF000000)))"

definition host_from_link :: "string \<Rightarrow> (string \<times> int) option" where
  "host_from_link link =
     (case str_find link ''//'' 0 of
        None \<Rightarrow> Some ([], -1)
      | Some pos1 \<Rightarrow>
          (let host = (case str_find link ''/'' (pos1 + 2) of
                         None \<Rightarrow> drop (pos1 + 2) link
                       | Some pos2 \<Rightarrow> take (pos2 - pos1 - 2) (drop (pos1 + 2) link))
           in case split host '':'' of
                None \<Rightarrow> None
              | Some parts \<Rightarrow>
                  if length parts = 1 then Some (host, -1)
                  else if length parts = 2 then
                    (case stoi (parts ! 1) of
                       Inl e \<Rightarrow> Some ([], -1)
                     | Inr port \<Rightarrow> Some (parts ! 0, port))
                  else Some ([], -1)))"

lemma filename_filepath:
  assumes "CHR ''/'' \<in> set p"
  shows "filepath p @ ''/'' @ filename p = p"
proof -
  let ?P = "\<lambda>c. c \<noteq> CHR ''/''"
  have ne: "dropWhile ?P (rev p) \<noteq> []" using assms by (auto simp: dropWhile_eq_Nil_conv)
  then have "dropWhile ?P (rev p) = CHR ''/'' # tl (dropWhile ?P (rev p))"
    using hd_dropWhile [OF ne] by (cases "dropWhile ?P (rev p)") auto
  then have "rev p = takeWhile ?P (rev p) @ CHR ''/'' # tl (dropWhile ?P (rev p))"
    by (metis takeWhile_dropWhile_id)
  then have "p = rev (takeWhile ?P (rev p) @ CHR ''/'' # tl (dropWhile ?P (rev p)))"
    by (metis rev_rev_ident)
  with assms show ?thesis by (simp add: filepath_def filename_def)
qed

section \<open>Splitting and joining\<close>

text \<open>
  split returns for every non-empty delimiter, with at least one part, and joining the
  parts with the delimiter gives the line back.
\<close>

theorem split_join:
  assumes "d \<noteq> []"
  shows "\<exists>parts. split line d = Some parts \<and> parts \<noteq> [] \<and> join parts d = line"
  using split_parts_of [OF assms, of line] join_parts_of [of d line] by simp

lemma split_join_witness:
  "\<exists>parts. split ''login bob secret'' '' '' = Some parts \<and> parts \<noteq> [] \<and> join parts '' '' = ''login bob secret''"
  using split_join [of "'' ''" "''login bob secret''"] by simp

text \<open>
  Words that do not contain the delimiter character are recovered from their joined line
  by split.
\<close>

theorem split_of_join:
  assumes "vec \<noteq> []" "\<forall>v \<in> set vec. c \<notin> set v"
  shows "split (join vec [c]) [c] = Some vec"
  using parts_of_join [OF assms] by (simp add: split_parts_of)

lemma split_of_join_witness: "split (join [''a'', '''', ''bc''] '' '') '' '' = Some [''a'', '''', ''bc'']"
  using split_of_join [of "[''a'', '''', ''bc'']" "CHR '' ''"] by simp

text \<open>For the empty delimiter the loop of \<open>split\<close> never ends.\<close>

lemma split_loop_empty:
  assumes "split_loop line d m parts strs prev = Some r"
  shows "\<not> (d = [] \<and> m < 0 \<and> 0 \<le> parts \<and> prev \<le> length line)"
proof (rule split_loop.raw_induct [where P = "\<lambda>line d m parts strs prev r.
    \<not> (d = [] \<and> m < 0 \<and> 0 \<le> parts \<and> prev \<le> length line)", OF _ assms])
  fix f :: "string \<Rightarrow> string \<Rightarrow> int \<Rightarrow> int \<Rightarrow> string list \<Rightarrow> nat \<Rightarrow> (string list \<times> nat) option"
    and line d m parts strs prev r
  assume IH: "\<And>line d m parts strs prev r. f line d m parts strs prev = Some r \<Longrightarrow>
      \<not> (d = [] \<and> m < 0 \<and> 0 \<le> parts \<and> prev \<le> length line)"
    and step: "(case str_find line d prev of None \<Rightarrow> Some (strs, prev)
      | Some pos \<Rightarrow>
          if parts + 1 = m - 1 then Some (strs @ [take (pos - prev) (drop prev line)], pos + length d)
          else f line d m (parts + 1) (strs @ [take (pos - prev) (drop prev line)]) (pos + length d)) = Some r"
  show "\<not> (d = [] \<and> m < 0 \<and> 0 \<le> parts \<and> prev \<le> length line)"
  proof
    assume args: "d = [] \<and> m < 0 \<and> 0 \<le> parts \<and> prev \<le> length line"
    then have "str_find line d prev = Some prev"
      by (cases "drop prev line") (simp_all add: str_find_def)
    moreover have "parts + 1 \<noteq> m - 1" using args by auto
    ultimately have "f line d m (parts + 1) (strs @ [take (prev - prev) (drop prev line)])
        (prev + length d) = Some r" using step by simp
    from IH [OF this] args show False by simp
  qed
qed

text \<open>
  For the empty delimiter the loop of split never ends.
\<close>

theorem split_empty_delimiter: "split line [] = None"
  by (cases "split_loop line [] (- 1) 0 [] 0") (auto simp: split_def split_max_def dest: split_loop_empty)

end
