(* ===== verification/Http.thy ===== *)
theory Http
  imports Str_Utils
begin

text \<open>
  The HTTP side of \<open>net/client.cpp\<close> and \<open>common/http.hpp\<close>: the reply with its
  case-insensitive headers, the reads from the stream buffer, and \<open>AsyncHttpClient\<close> as a
  state machine. A state is the pending \<open>asyncRead\<close> with what its handler has captured;
  a handler runs when the condition of the read holds on the buffer. Bytes arrive in
  segments of any size. \<open>gzipInflate\<close> (zlib) is the argument \<open>inflate\<close>.
\<close>

section \<open>Replies and headers\<close>

record http_reply =
  h_status :: int
  h_headers :: string
  h_body :: string
  h_method :: string
  h_resource :: string
  h_parsed :: "(string \<times> string) list"

definition no_reply :: http_reply where
  "no_reply = \<lparr>h_status = 0, h_headers = [], h_body = [], h_method = [], h_resource = [], h_parsed = []\<rparr>"

text \<open>
  \<open>_parsedHeaders\<close> is a map ordered by \<open>strcasecmp\<close>: \<open>m[key] = value\<close> keeps the spelling
  of an equivalent key that is there.
\<close>

fun header_put :: "string \<Rightarrow> string \<Rightarrow> (string \<times> string) list \<Rightarrow> (string \<times> string) list" where
  "header_put key val [] = [(key, val)]"
| "header_put key val ((k, v) # m) =
     (if strcasecmp_eq k key then (k, val) # m else (k, v) # header_put key val m)"

fun header_find :: "string \<Rightarrow> (string \<times> string) list \<Rightarrow> string option" where
  "header_find key [] = None"
| "header_find key ((k, v) # m) = (if strcasecmp_eq k key then Some v else header_find key m)"

definition hasHeader :: "http_reply \<Rightarrow> string \<Rightarrow> bool" where
  "hasHeader r header \<longleftrightarrow> header_find header (h_parsed r) \<noteq> None"

definition getHeader :: "http_reply \<Rightarrow> string \<Rightarrow> string" where
  "getHeader r header = (case header_find header (h_parsed r) of Some v \<Rightarrow> v | None \<Rightarrow> [])"

definition parseHeaderLine :: "string \<Rightarrow> (string \<times> string) list \<Rightarrow> bool \<times> (string \<times> string) list" where
  "parseHeaderLine line m =
     (case str_find line '':'' 0 of
        None \<Rightarrow> (False, m)
      | Some pos \<Rightarrow>
          if pos = 0 then (False, m)
          else if pos = length line - 1 then (True, header_put (take pos line) [] m)
          else (True, header_put (take pos line) (dropWhile isspace (drop (pos + 1) line)) m))"

section \<open>The stream buffer\<close>

text \<open>
  \<open>read_until(delimiter)\<close> and \<open>read(n)\<close> on a buffer that already holds what they need;
  \<open>None\<close> is the case in which they would wait for the network.
\<close>

definition read_until :: "string \<Rightarrow> string \<Rightarrow> (string \<times> string) option" where
  "read_until delimiter buf =
     (case find_off delimiter buf 0 of
        None \<Rightarrow> None
      | Some pos \<Rightarrow> Some (take pos buf, drop (pos + length delimiter) buf))"

definition read_bytes :: "nat \<Rightarrow> string \<Rightarrow> (string \<times> string) option" where
  "read_bytes n buf = (if n \<le> length buf then Some (take n buf, drop n buf) else None)"

section \<open>The state machine\<close>

datatype conn_error = Protocol_error | Socket_error

text \<open>The call of the final handler: the error, if any, and the reply.\<close>

type_synonym http_result = "conn_error option \<times> http_reply"

datatype http_state =
    AwaitHeaders
  | AwaitBody http_reply u64
  | AwaitChunkSize http_reply
  | AwaitChunk http_reply u64
  | Finished http_result

text \<open>The request or status line, and the header lines.\<close>

definition protocol_error :: "http_reply \<Rightarrow> http_state" where
  "protocol_error r = Finished (Some Protocol_error, r)"

fun parse_header_lines :: "string list \<Rightarrow> (string \<times> string) list \<Rightarrow> (string \<times> string) list" where
  "parse_header_lines [] m = m"
| "parse_header_lines (l # ls) m = parse_header_lines ls (snd (parseHeaderLine l m))"

definition start_line :: "string list \<Rightarrow> http_reply \<Rightarrow> http_reply option" where
  "start_line params r =
     (if starts_with (lowercased (params ! 0)) ''http/'' then
        (case stoi (params ! 1) of Inl _ \<Rightarrow> None | Inr n \<Rightarrow> Some (r\<lparr>h_status := n\<rparr>))
      else Some (r\<lparr>h_method := lowercased (params ! 0), h_resource := params ! 1\<rparr>))"

text \<open>After the headers: which read comes next.\<close>

definition after_headers :: "http_reply \<Rightarrow> http_state" where
  "after_headers r =
     (if hasHeader r ''Content-Length'' then
        (case stoul10 (getHeader r ''Content-Length'') of
           Inl _ \<Rightarrow> protocol_error r
         | Inr (body_len, _) \<Rightarrow> AwaitBody r body_len)
      else if getHeader r ''Transfer-Encoding'' = ''chunked'' then AwaitChunkSize r
      else Finished (None, r))"

text \<open>\<open>split\<close> with its two fixed delimiters always returns (\<open>split_parts_of\<close>).\<close>

definition handleHeaders :: "string \<Rightarrow> http_state" where
  "handleHeaders text =
     (let r = no_reply\<lparr>h_headers := text\<rparr>; h_vector = the (split text crlf)
      in if h_vector = [] \<or> h_vector ! 0 = [] then protocol_error r
         else
           (let response_params = the (split (h_vector ! 0) '' '')
            in if length response_params < 2 then protocol_error r
               else case start_line response_params r of
                 None \<Rightarrow> protocol_error r
               | Some r \<Rightarrow> after_headers (r\<lparr>h_parsed := parse_header_lines (tl h_vector) []\<rparr>)))"

definition processReply :: "(string \<Rightarrow> string option) \<Rightarrow> http_reply \<Rightarrow> http_state" where
  "processReply inflate r =
     (let content_zipped = (hasHeader r ''Content-Encoding'' \<and>
            str_find (getHeader r ''Content-Encoding'') ''gzip'' 0 \<noteq> None)
      in if content_zipped \<and> h_body r \<noteq> [] then
           (case inflate (h_body r) of
              None \<Rightarrow> protocol_error r
            | Some b \<Rightarrow> Finished (None, r\<lparr>h_body := b\<rparr>))
         else Finished (None, r))"

definition startProcessChunk :: "string \<Rightarrow> http_reply \<Rightarrow> http_state" where
  "startProcessChunk chunk_size_string r =
     (case stoul16 chunk_size_string of
        Inl _ \<Rightarrow> protocol_error r
      | Inr (chunk_size, parsed) \<Rightarrow>
          if parsed \<noteq> length chunk_size_string then protocol_error r else AwaitChunk r chunk_size)"

definition processChunk :: "(string \<Rightarrow> string option) \<Rightarrow> u64 \<Rightarrow> string \<Rightarrow> http_reply \<Rightarrow> http_state" where
  "processChunk inflate chunk_size response r =
     (let r = r\<lparr>h_body := h_body r @ take (unat chunk_size) response\<rparr>
      in if chunk_size = 0 then processReply inflate r else AwaitChunkSize r)"

text \<open>
  One handler: \<open>None\<close> when the condition of the pending read does not hold yet. The length
  of a chunk with its line end is computed in 64 bits. For a size where it wraps the condition of
  the source also passes through an iterator before the buffer, which is not modelled.
\<close>

definition http_step :: "(string \<Rightarrow> string option) \<Rightarrow> http_state \<Rightarrow> string \<Rightarrow> (http_state \<times> string) option" where
  "http_step inflate s buf =
     (case s of
        AwaitHeaders \<Rightarrow>
          map_option (\<lambda>(text, rest). (handleHeaders text, rest)) (read_until (crlf @ crlf) buf)
      | AwaitBody r body_len \<Rightarrow>
          map_option (\<lambda>(body, rest). (processReply inflate (r\<lparr>h_body := body\<rparr>), rest))
            (read_bytes (unat body_len) buf)
      | AwaitChunkSize r \<Rightarrow>
          map_option (\<lambda>(text, rest). (startProcessChunk text r, rest)) (read_until crlf buf)
      | AwaitChunk r chunk_size \<Rightarrow>
          map_option (\<lambda>(response, rest). (processChunk inflate chunk_size response r, rest))
            (read_bytes (unat (chunk_size + 2)) buf)
      | Finished _ \<Rightarrow> None)"

text \<open>A failed or closed connection: the handler of the pending read gets the error.\<close>

definition http_fail :: "http_state \<Rightarrow> http_state" where
  "http_fail s =
     (case s of
        AwaitHeaders \<Rightarrow> Finished (Some Socket_error, no_reply)
      | AwaitBody r _ \<Rightarrow> Finished (Some Socket_error, r)
      | AwaitChunkSize r \<Rightarrow> Finished (Some Socket_error, no_reply)
      | AwaitChunk r _ \<Rightarrow> Finished (Some Socket_error, r)
      | Finished res \<Rightarrow> Finished res)"

section \<open>Runs\<close>

lemma crlf_nonempty [simp]: "crlf \<noteq> []" "length crlf = 2"
  by (simp_all add: crlf_def)

lemma read_until_length: "read_until d buf = Some (t, rest) \<Longrightarrow> length rest + length d \<le> length buf"
  using find_off_bound [of d buf] by (auto simp: read_until_def split: option.splits)

lemma read_bytes_length: "read_bytes n buf = Some (t, rest) \<Longrightarrow> length rest \<le> length buf"
  by (auto simp: read_bytes_def split: if_splits)

definition state_rank :: "http_state \<Rightarrow> nat" where
  "state_rank s = (case s of AwaitHeaders \<Rightarrow> 2 | AwaitBody _ _ \<Rightarrow> 2 | AwaitChunk _ _ \<Rightarrow> 2
     | AwaitChunkSize _ \<Rightarrow> 1 | Finished _ \<Rightarrow> 0)"

lemma processReply_rank [simp]: "state_rank (processReply inflate r) = 0"
  by (simp add: processReply_def Let_def state_rank_def protocol_error_def split: option.split)

lemma processChunk_rank: "state_rank (processChunk inflate n t r) < 2"
  by (simp add: processChunk_def Let_def) (simp add: state_rank_def)

lemma http_step_decreases:
  assumes "http_step inflate s buf = Some (s', buf')"
  shows "length buf' < length buf \<or> length buf' = length buf \<and> state_rank s' < state_rank s"
proof (cases s)
  case AwaitHeaders
  with assms read_until_length [of "crlf @ crlf" buf] show ?thesis by (auto simp: http_step_def)
next
  case (AwaitBody r n)
  with assms read_bytes_length [of "unat n" buf] show ?thesis
    by (auto simp: http_step_def state_rank_def [of "AwaitBody r n"] le_less)
next
  case (AwaitChunkSize r)
  with assms read_until_length [of crlf buf] show ?thesis by (auto simp: http_step_def)
next
  case (AwaitChunk r n)
  with assms read_bytes_length [of "unat (n + 2)" buf] processChunk_rank show ?thesis
    by (auto simp: http_step_def state_rank_def [of "AwaitChunk r n"] le_less)
next
  case (Finished x)
  with assms show ?thesis by (simp add: http_step_def)
qed

text \<open>The handlers that can run on the bytes received so far.\<close>

function http_run :: "(string \<Rightarrow> string option) \<Rightarrow> http_state \<Rightarrow> string \<Rightarrow> http_state \<times> string" where
  "http_run inflate s buf =
     (case http_step inflate s buf of
        None \<Rightarrow> (s, buf)
      | Some (s', buf') \<Rightarrow> http_run inflate s' buf')"
  by pat_completeness auto
termination
  by (relation "measures [\<lambda>(i, s, b). length b, \<lambda>(i, s, b). state_rank s]")
    (auto dest: http_step_decreases)

declare http_run.simps [simp del]

text \<open>A segment arrives: it is appended to the buffer and the handlers run.\<close>

definition http_feed :: "(string \<Rightarrow> string option) \<Rightarrow> string \<Rightarrow> http_state \<times> string \<Rightarrow> http_state \<times> string" where
  "http_feed inflate segment c = http_run inflate (fst c) (snd c @ segment)"

section \<open>The segmentation of the stream does not matter\<close>

lemma find_off_extend: "find_off d s i = Some p \<Longrightarrow> find_off d (s @ t) i = Some p"
proof (induction d s i rule: find_off.induct)
  case (1 d i)
  then show ?case by (cases t) (auto split: if_splits)
next
  case (2 d c cs i)
  show ?case
  proof (cases "prefix d (c # cs)")
    case True
    then have "prefix d (c # cs @ t)" by (metis append_Cons prefix_prefix)
    with True 2(2) show ?thesis by simp
  next
    case False
    with 2(2) have f: "find_off d cs (Suc i) = Some p" by simp
    then have "p \<ge> Suc i" "p - Suc i + length d \<le> length cs"
      using find_off_shift [of d cs "Suc i"] find_off_bound [of d cs] by auto
    have "\<not> prefix d (c # cs @ t)"
    proof
      assume "prefix d (c # cs @ t)"
      moreover have "length d \<le> length (c # cs)" using \<open>p - Suc i + length d \<le> length cs\<close> by simp
      ultimately have "prefix d (c # cs)" by (metis append_Cons prefix_length_prefix prefixI)
      with False show False ..
    qed
    with 2(1) [OF False f] show ?thesis by simp
  qed
qed

lemma read_until_extend: "read_until d buf = Some (x, rest) \<Longrightarrow> read_until d (buf @ t) = Some (x, rest @ t)"
proof -
  assume a: "read_until d buf = Some (x, rest)"
  then obtain p where p: "find_off d buf 0 = Some p" "x = take p buf" "rest = drop (p + length d) buf"
    by (auto simp: read_until_def split: option.splits)
  with find_off_extend [OF p(1), of t] find_off_bound [OF p(1)] show ?thesis
    by (simp add: read_until_def)
qed

lemma read_bytes_extend: "read_bytes n buf = Some (x, rest) \<Longrightarrow> read_bytes n (buf @ t) = Some (x, rest @ t)"
  by (auto simp: read_bytes_def split: if_splits)

lemma http_step_extend:
  "http_step inflate s buf = Some (s', buf') \<Longrightarrow> http_step inflate s (buf @ t) = Some (s', buf' @ t)"
  by (auto simp: http_step_def read_until_extend read_bytes_extend split: http_state.splits)

lemma http_run_extend:
  "http_run inflate s (buf @ t) = (case http_run inflate s buf of (s', buf') \<Rightarrow> http_run inflate s' (buf' @ t))"
proof (induction inflate s buf rule: http_run.induct)
  case (1 inflate s buf)
  show ?case
  proof (cases "http_step inflate s buf")
    case None
    then show ?thesis by (simp add: http_run.simps [of inflate s buf])
  next
    case (Some r)
    obtain s' buf' where r: "r = (s', buf')" by (cases r)
    with Some have "http_step inflate s buf = Some (s', buf')" by simp
    with http_step_extend [OF this, of t] 1 [OF Some r [symmetric]] show ?thesis
      by (simp add: http_run.simps [of inflate s buf] http_run.simps [of inflate s "buf @ t"])
  qed
qed

lemma http_feed_append: "http_feed inflate b (http_feed inflate a c) = http_feed inflate (a @ b) c"
  using http_run_extend [of inflate "fst c" "snd c @ a" b] by (simp add: http_feed_def split: prod.split)

lemma http_feed_fold:
  "segs \<noteq> [] \<Longrightarrow> fold (http_feed inflate) segs c = http_feed inflate (concat segs) c"
proof (induction segs arbitrary: c)
  case (Cons a segs)
  then show ?case by (cases "segs = []") (simp_all add: http_feed_append)
qed simp

end
