(* ===== verification/Json.thy ===== *)
theory Json
  imports Cxx_Std
begin

text \<open>
  The part of RapidJSON the code is built on (\<open>third_party/rapidjson-1.0.2\<close>): the DOM
  value, \<open>Writer<StringBuffer>\<close>, and the recursive-descent \<open>Reader\<close> with the default
  flags on a zero-terminated UTF-8 string. \<open>RAPIDJSON_ASSERT\<close> is \<open>assert\<close>, so a failed
  one ends the process: operations that can fail one return an \<open>option\<close>, with \<open>None\<close>
  for the abort. The value of a floating-point number is not modelled: such a number is
  kept as the text it was read from.
\<close>

section \<open>Values\<close>

datatype json =
    JNull
  | JBool bool
  | JInt int
  | JDouble string
  | JString string
  | JArray "json list"
  | JObject "(string \<times> json) list"

definition IsObject :: "json \<Rightarrow> bool" where
  "IsObject v = (case v of JObject _ \<Rightarrow> True | _ \<Rightarrow> False)"

definition IsArray :: "json \<Rightarrow> bool" where
  "IsArray v = (case v of JArray _ \<Rightarrow> True | _ \<Rightarrow> False)"

definition IsString :: "json \<Rightarrow> bool" where
  "IsString v = (case v of JString _ \<Rightarrow> True | _ \<Rightarrow> False)"

definition IsUint :: "json \<Rightarrow> bool" where
  "IsUint v = (case v of JInt i \<Rightarrow> 0 \<le> i \<and> i < 2 ^ 32 | _ \<Rightarrow> False)"

definition IsUint64 :: "json \<Rightarrow> bool" where
  "IsUint64 v = (case v of JInt i \<Rightarrow> 0 \<le> i \<and> i < 2 ^ 64 | _ \<Rightarrow> False)"

text \<open>\<open>FindMember\<close>: the outer \<open>None\<close> is the failed assertion, the inner one \<open>MemberEnd()\<close>.\<close>

definition FindMember :: "string \<Rightarrow> json \<Rightarrow> json option option" where
  "FindMember name v = (case v of JObject ms \<Rightarrow> Some (map_of ms name) | _ \<Rightarrow> None)"

text \<open>\<open>GetString\<close> is a \<open>const char *\<close>; the code always copies it into a \<open>std::string\<close>.\<close>

definition GetString :: "json \<Rightarrow> string option" where
  "GetString v = (case v of JString s \<Rightarrow> Some (c_str s) | _ \<Rightarrow> None)"

definition GetUint :: "json \<Rightarrow> u32 option" where
  "GetUint v = (case v of JInt i \<Rightarrow> if IsUint v then Some (word_of_int i) else None | _ \<Rightarrow> None)"

definition GetUint64 :: "json \<Rightarrow> u64 option" where
  "GetUint64 v = (case v of JInt i \<Rightarrow> if IsUint64 v then Some (word_of_int i) else None | _ \<Rightarrow> None)"

section \<open>Writer\<close>

text \<open>
  \<open>level_stack\<close> holds per open object or array the number of values written so far
  (\<open>valueCount\<close>) and whether it is an array (\<open>inArray\<close>), innermost first.
\<close>

record writer =
  out :: string
  level_stack :: "(nat \<times> bool) list"
  hasRoot :: bool

definition new_writer :: writer where
  "new_writer = \<lparr>out = [], level_stack = [], hasRoot = False\<rparr>"

definition Put :: "string \<Rightarrow> writer \<Rightarrow> writer" where
  "Put s w = w\<lparr>out := out w @ s\<rparr>"

text \<open>\<open>Prefix(type)\<close>: the separator before a value; \<open>is_str\<close> is \<open>type == kStringType\<close>.\<close>

definition Prefix :: "bool \<Rightarrow> writer \<Rightarrow> writer option" where
  "Prefix is_str w =
     (case level_stack w of
        (valueCount, inArray) # ls \<Rightarrow>
          (let sep = (if valueCount > 0 then
                        (if inArray then '','' else if valueCount mod 2 = 0 then '','' else '':'')
                      else [])
           in if \<not> inArray \<and> valueCount mod 2 = 0 \<and> \<not> is_str then None
              else Some ((Put sep w)\<lparr>level_stack := (valueCount + 1, inArray) # ls\<rparr>))
      | [] \<Rightarrow> if hasRoot w then None else Some (w\<lparr>hasRoot := True\<rparr>))"

definition hexDigit :: "nat \<Rightarrow> char" where
  "hexDigit d = (if d < 10 then char_of (48 + d) else char_of (55 + d))"

text \<open>The escape table of \<open>WriteString\<close>: the character after the backslash, if any.\<close>

definition escape :: "char \<Rightarrow> char option" where
  "escape c =
     (let n = code c in
      if n = 8 then Some CHR ''b'' else if n = 9 then Some CHR ''t''
      else if n = 10 then Some CHR ''n'' else if n = 12 then Some CHR ''f''
      else if n = 13 then Some CHR ''r'' else if n < 32 then Some CHR ''u''
      else if n = 34 then Some (char_of (34 :: nat)) else if n = 92 then Some (char_of (92 :: nat))
      else None)"

definition write_char :: "char \<Rightarrow> string" where
  "write_char c =
     (case escape c of
        None \<Rightarrow> [c]
      | Some e \<Rightarrow>
          char_of (92 :: nat) # e #
          (if e = CHR ''u'' then [CHR ''0'', CHR ''0'', hexDigit (code c div 16), hexDigit (code c mod 16)]
           else []))"

definition WriteString :: "string \<Rightarrow> string" where
  "WriteString str = char_of (34 :: nat) # concat (map write_char str) @ [char_of (34 :: nat)]"

text \<open>\<open>String(const Ch*)\<close> and \<open>Key(const Ch*)\<close>: the length is \<open>strlen\<close>.\<close>

definition wString :: "string \<Rightarrow> writer \<Rightarrow> writer option" where
  "wString s w = map_option (Put (WriteString (c_str s))) (Prefix True w)"

definition wKey :: "string \<Rightarrow> writer \<Rightarrow> writer option" where
  "wKey s w = wString s w"

definition wUint64 :: "u64 \<Rightarrow> writer \<Rightarrow> writer option" where
  "wUint64 u w = map_option (Put (show_nat (unat u))) (Prefix False w)"

definition wStartObject :: "writer \<Rightarrow> writer option" where
  "wStartObject w =
     map_option (\<lambda>w. Put ''{'' (w\<lparr>level_stack := (0, False) # level_stack w\<rparr>)) (Prefix False w)"

definition wStartArray :: "writer \<Rightarrow> writer option" where
  "wStartArray w =
     map_option (\<lambda>w. Put ''['' (w\<lparr>level_stack := (0, True) # level_stack w\<rparr>)) (Prefix False w)"

definition wEndObject :: "writer \<Rightarrow> writer option" where
  "wEndObject w =
     (case level_stack w of
        (_, False) # ls \<Rightarrow> Some (Put ''}'' (w\<lparr>level_stack := ls\<rparr>))
      | _ \<Rightarrow> None)"

definition wEndArray :: "writer \<Rightarrow> writer option" where
  "wEndArray w =
     (case level_stack w of
        (_, True) # ls \<Rightarrow> Some (Put '']'' (w\<lparr>level_stack := ls\<rparr>))
      | _ \<Rightarrow> None)"

text \<open>A sequence of writer calls.\<close>

fun wrun :: "(writer \<Rightarrow> writer option) list \<Rightarrow> writer \<Rightarrow> writer option" where
  "wrun [] w = Some w"
| "wrun (f # fs) w = (case f w of None \<Rightarrow> None | Some w' \<Rightarrow> wrun fs w')"

lemma wrun_append: "wrun (fs @ gs) w = (case wrun fs w of None \<Rightarrow> None | Some w' \<Rightarrow> wrun gs w')"
  by (induction fs arbitrary: w) (auto split: option.splits)

text \<open>The text of a value, without blanks, as a specification of the writer.\<close>

fun serialize :: "json \<Rightarrow> string" and serialize_members :: "(string \<times> json) list \<Rightarrow> string"
  and serialize_elements :: "json list \<Rightarrow> string" where
  "serialize JNull = ''null''"
| "serialize (JBool b) = (if b then ''true'' else ''false'')"
| "serialize (JInt i) = show_int i"
| "serialize (JDouble t) = t"
| "serialize (JString s) = WriteString s"
| "serialize (JArray vs) = ''['' @ serialize_elements vs @ '']''"
| "serialize (JObject ms) = ''{'' @ serialize_members ms @ ''}''"
| "serialize_members [] = []"
| "serialize_members ((k, v) # ms) =
     WriteString k @ '':'' @ serialize v @ (if ms = [] then [] else '','' @ serialize_members ms)"
| "serialize_elements [] = []"
| "serialize_elements (v # vs) =
     serialize v @ (if vs = [] then [] else '','' @ serialize_elements vs)"

section \<open>The writer prints the serialisation\<close>

fun emit :: "json \<Rightarrow> (writer \<Rightarrow> writer option) list"
  and emit_members :: "(string \<times> json) list \<Rightarrow> (writer \<Rightarrow> writer option) list"
  and emit_elements :: "json list \<Rightarrow> (writer \<Rightarrow> writer option) list" where
  "emit (JInt i) = [wUint64 (word_of_int i)]"
| "emit (JString s) = [wString s]"
| "emit (JArray vs) = wStartArray # emit_elements vs @ [wEndArray]"
| "emit (JObject ms) = wStartObject # emit_members ms @ [wEndObject]"
| "emit _ = []"
| "emit_members [] = []"
| "emit_members ((k, v) # ms) = wKey k # emit v @ emit_members ms"
| "emit_elements [] = []"
| "emit_elements (v # vs) = emit v @ emit_elements vs"

text \<open>The values the code writes: unsigned 64-bit integers, C strings, arrays, objects.\<close>

fun writable :: "json \<Rightarrow> bool" and writable_members :: "(string \<times> json) list \<Rightarrow> bool"
  and writable_elements :: "json list \<Rightarrow> bool" where
  "writable (JInt i) \<longleftrightarrow> 0 \<le> i \<and> i < 2 ^ 64"
| "writable (JString s) \<longleftrightarrow> NUL \<notin> set s"
| "writable (JArray vs) \<longleftrightarrow> writable_elements vs"
| "writable (JObject ms) \<longleftrightarrow> writable_members ms"
| "writable _ \<longleftrightarrow> False"
| "writable_members [] \<longleftrightarrow> True"
| "writable_members ((k, v) # ms) \<longleftrightarrow> NUL \<notin> set k \<and> writable v \<and> writable_members ms"
| "writable_elements [] \<longleftrightarrow> True"
| "writable_elements (v # vs) \<longleftrightarrow> writable v \<and> writable_elements vs"

definition value_pos :: "writer \<Rightarrow> bool" where
  "value_pos w \<longleftrightarrow> (case level_stack w of [] \<Rightarrow> \<not> hasRoot w | (n, a) # _ \<Rightarrow> a \<or> odd n)"

definition sep :: "writer \<Rightarrow> string" where
  "sep w = (case level_stack w of [] \<Rightarrow> []
     | (n, a) # _ \<Rightarrow> if n > 0 then (if a then '','' else if even n then '','' else '':'') else [])"

definition bump :: "writer \<Rightarrow> writer" where
  "bump w = (case level_stack w of [] \<Rightarrow> w\<lparr>hasRoot := True\<rparr>
     | (n, a) # ls \<Rightarrow> w\<lparr>level_stack := (Suc n, a) # ls\<rparr>)"

lemma Prefix_value: "value_pos w \<Longrightarrow> Prefix is_str w = Some (Put (sep w) (bump w))"
  by (auto simp: Prefix_def value_pos_def sep_def bump_def Put_def odd_iff_mod_2_eq_one
      even_iff_mod_2_eq_zero split: list.splits)

lemma Prefix_key:
  "level_stack w = (n, False) # ls \<Longrightarrow> even n \<Longrightarrow> Prefix True w = Some (Put (sep w) (bump w))"
  by (simp add: Prefix_def sep_def bump_def Put_def even_iff_mod_2_eq_zero)

lemma writer_step [simp]:
  "Put a (Put b w) = Put (b @ a) w"
  "level_stack (Put a w) = level_stack w" "hasRoot (Put a w) = hasRoot w"
  "out (Put a w) = out w @ a"
  "(Put a w)\<lparr>level_stack := l\<rparr> = Put a (w\<lparr>level_stack := l\<rparr>)"
  by (simp_all add: Put_def)

lemma wEnd_simps [simp]:
  "level_stack w = (n, False) # ls \<Longrightarrow> wEndObject w = Some (Put ''}'' (w\<lparr>level_stack := ls\<rparr>))"
  "level_stack w = (n, True) # ls \<Longrightarrow> wEndArray w = Some (Put '']'' (w\<lparr>level_stack := ls\<rparr>))"
  by (simp_all add: wEndObject_def wEndArray_def)

lemma level_stack_id: "w\<lparr>level_stack := level_stack w\<rparr> = w"
  by simp

lemma wrun_emit:
  "writable v \<Longrightarrow> value_pos w \<Longrightarrow>
     wrun (emit v) w = Some (Put (sep w @ serialize v) (bump w))"
  "writable_members ms \<Longrightarrow> level_stack w = (n, False) # ls \<Longrightarrow> even n \<Longrightarrow>
     wrun (emit_members ms) w =
       Some (Put (if ms = [] then [] else (if n > 0 then '','' else []) @ serialize_members ms)
              (w\<lparr>level_stack := (n + 2 * length ms, False) # ls\<rparr>))"
  "writable_elements vs \<Longrightarrow> level_stack w = (n, True) # ls \<Longrightarrow>
     wrun (emit_elements vs) w =
       Some (Put (if vs = [] then [] else (if n > 0 then '','' else []) @ serialize_elements vs)
              (w\<lparr>level_stack := (n + length vs, True) # ls\<rparr>))"
proof (induction v and ms and vs arbitrary: w and w n ls and w n ls rule: emit_emit_members_emit_elements.induct)
  case (1 i)
  then have "unat (word_of_int i :: u64) = nat i"
    by (simp add: unat_eq_nat_uint uint_word_of_int_eq take_bit_int_eq_self)
  with 1 show ?case by (simp add: wUint64_def Prefix_value show_int_def)
next
  case (2 s)
  then show ?case by (simp add: wString_def Prefix_value c_str_id)
next
  case (3 vs)
  let ?w = "Put (sep w @ ''['') ((bump w)\<lparr>level_stack := (0, True) # level_stack (bump w)\<rparr>)"
  have "wStartArray w = Some ?w"
    using 3 by (simp add: wStartArray_def Prefix_value)
  moreover have "wrun (emit_elements vs) ?w =
      Some (Put (serialize_elements vs) (?w\<lparr>level_stack := (length vs, True) # level_stack (bump w)\<rparr>))"
    using 3 by simp
  ultimately show ?case by (simp add: wrun_append)
next
  case (4 ms)
  let ?w = "Put (sep w @ ''{'') ((bump w)\<lparr>level_stack := (0, False) # level_stack (bump w)\<rparr>)"
  have "wStartObject w = Some ?w"
    using 4 by (simp add: wStartObject_def Prefix_value)
  moreover have "wrun (emit_members ms) ?w =
      Some (Put (serialize_members ms) (?w\<lparr>level_stack := (2 * length ms, False) # level_stack (bump w)\<rparr>))"
    using 4 by simp
  ultimately show ?case by (simp add: wrun_append)
next
  case (7 k v ms)
  define w1 where "w1 = Put (sep w @ WriteString k) (w\<lparr>level_stack := (Suc n, False) # ls\<rparr>)"
  define w2 where "w2 = Put ('':'' @ serialize v) (w1\<lparr>level_stack := (Suc (Suc n), False) # ls\<rparr>)"
  have k: "wKey k w = Some w1"
    using 7 by (simp add: wKey_def wString_def Prefix_key c_str_id bump_def w1_def)
  have "value_pos w1" using 7 by (simp add: value_pos_def w1_def)
  then have v: "wrun (emit v) w1 = Some w2"
    using 7 by (simp add: sep_def bump_def w1_def w2_def)
  have "level_stack w2 = (Suc (Suc n), False) # ls" by (simp add: w2_def w1_def)
  then have ms: "wrun (emit_members ms) w2 =
      Some (Put (if ms = [] then [] else '','' @ serialize_members ms)
              (w2\<lparr>level_stack := (Suc (Suc n) + 2 * length ms, False) # ls\<rparr>))"
    using 7 by simp
  show ?case
    using 7 by (simp add: wrun_append k v ms) (simp add: w2_def w1_def sep_def)
next
  case (9 v vs)
  define w1 where "w1 = Put (sep w @ serialize v) (w\<lparr>level_stack := (Suc n, True) # ls\<rparr>)"
  have "value_pos w" using 9 by (simp add: value_pos_def)
  then have v: "wrun (emit v) w = Some w1"
    using 9 by (simp add: w1_def bump_def)
  have "level_stack w1 = (Suc n, True) # ls" by (simp add: w1_def)
  then have vs: "wrun (emit_elements vs) w1 =
      Some (Put (if vs = [] then [] else '','' @ serialize_elements vs)
              (w1\<lparr>level_stack := (Suc n + length vs, True) # ls\<rparr>))"
    using 9 by simp
  show ?case
    using 9 by (simp add: wrun_append v vs) (simp add: w1_def sep_def)
qed simp_all

definition document :: "(writer \<Rightarrow> writer option) list \<Rightarrow> string option" where
  "document fs = map_option out (wrun fs new_writer)"

lemma document_emit: "writable v \<Longrightarrow> document (emit v) = Some (serialize v)"
  by (simp add: document_def wrun_emit(1) value_pos_def new_writer_def sep_def bump_def)

end
