(* ===== verification/Json_Reader.thy ===== *)
theory Json_Reader
  imports Json "HOL-Library.Log_Nat"
begin

text \<open>
  \<open>rapidjson::GenericReader\<close> with \<open>kParseDefaultFlags\<close>, as \<open>Document::Parse\<close> runs it on a
  zero-terminated string. The stream is the list of the bytes before the terminator:
  \<open>Peek\<close> on the empty list is the zero byte. The recursion of \<open>ParseValue\<close> is bounded by
  fuel; \<open>Parse\<close> gives it the length of the text, which is always enough
  (\<open>Parse_no_OutOfFuel\<close>).
\<close>

datatype parse_error =
    DocumentEmpty | DocumentRootNotSingular | ValueInvalid
  | ObjectMissName | ObjectMissColon | ObjectMissCommaOrCurlyBracket
  | ArrayMissCommaOrSquareBracket
  | StringUnicodeEscapeInvalidHex | StringUnicodeSurrogateInvalid
  | StringEscapeInvalid | StringMissQuotationMark
  | NumberTooBig | NumberMissFraction | NumberMissExponent
  | OutOfFuel

type_synonym 'a parsed = "parse_error + 'a \<times> string"

definition Peek :: "string \<Rightarrow> char" where
  "Peek s = (case s of [] \<Rightarrow> NUL | c # _ \<Rightarrow> c)"

definition json_ws :: "char \<Rightarrow> bool" where
  "json_ws c \<longleftrightarrow> code c = 32 \<or> code c = 10 \<or> code c = 13 \<or> code c = 9"

definition SkipWhitespace :: "string \<Rightarrow> string" where
  "SkipWhitespace s = dropWhile json_ws s"

section \<open>Strings\<close>

fun ParseHex4 :: "nat \<Rightarrow> nat \<Rightarrow> string \<Rightarrow> nat parsed" where
  "ParseHex4 0 codepoint s = Inr (codepoint, s)"
| "ParseHex4 (Suc n) codepoint [] = Inl StringUnicodeEscapeInvalidHex"
| "ParseHex4 (Suc n) codepoint (c # s) =
     (if isxdigit c then ParseHex4 n (codepoint * 16 + xdigit_val c) s
      else Inl StringUnicodeEscapeInvalidHex)"

text \<open>\<open>UTF8::Encode\<close>.\<close>

definition utf8_encode :: "nat \<Rightarrow> string" where
  "utf8_encode cp =
     (if cp \<le> 0x7F then [char_of cp]
      else if cp \<le> 0x7FF then [char_of (0xC0 + cp div 64), char_of (0x80 + cp mod 64)]
      else if cp \<le> 0xFFFF then
        [char_of (0xE0 + cp div 4096), char_of (0x80 + cp div 64 mod 64), char_of (0x80 + cp mod 64)]
      else
        [char_of (0xF0 + cp div 262144), char_of (0x80 + cp div 4096 mod 64),
         char_of (0x80 + cp div 64 mod 64), char_of (0x80 + cp mod 64)])"

definition unescape_char :: "char \<Rightarrow> char option" where
  "unescape_char e =
     (if code e = 34 \<or> code e = 47 \<or> code e = 92 then Some e
      else if e = CHR ''b'' then Some (char_of (8 :: nat))
      else if e = CHR ''f'' then Some (char_of (12 :: nat))
      else if e = CHR ''n'' then Some (char_of (10 :: nat))
      else if e = CHR ''r'' then Some (char_of (13 :: nat))
      else if e = CHR ''t'' then Some (char_of (9 :: nat))
      else None)"

text \<open>The code point after \<open>\u\<close>, with a surrogate pair combined.\<close>

definition ParseUnicode :: "string \<Rightarrow> nat parsed" where
  "ParseUnicode s =
     (case ParseHex4 4 0 s of
        Inl e \<Rightarrow> Inl e
      | Inr (cp, r) \<Rightarrow>
          if 0xD800 \<le> cp \<and> cp \<le> 0xDBFF then
            (case r of
               b # u # r1 \<Rightarrow>
                 if code b = 92 \<and> u = CHR ''u'' then
                   (case ParseHex4 4 0 r1 of
                      Inl e \<Rightarrow> Inl e
                    | Inr (cp2, r2) \<Rightarrow>
                        if cp2 < 0xDC00 \<or> cp2 > 0xDFFF then Inl StringUnicodeSurrogateInvalid
                        else Inr ((cp - 0xD800) * 1024 + (cp2 - 0xDC00) + 0x10000, r2))
                 else Inl StringUnicodeSurrogateInvalid
             | _ \<Rightarrow> Inl StringUnicodeSurrogateInvalid)
          else Inr (cp, r))"

lemma ParseHex4_length: "ParseHex4 n cp s = Inr (v, r) \<Longrightarrow> length r \<le> length s"
  by (induction n cp s rule: ParseHex4.induct) (auto split: if_splits)

lemma ParseUnicode_length: "ParseUnicode s = Inr (v, r) \<Longrightarrow> length r \<le> length s"
  by (auto simp: ParseUnicode_def dest!: ParseHex4_length split: sum.splits prod.splits if_splits list.splits)

text \<open>\<open>ParseStringToStream\<close> after the opening quote; \<open>os\<close> is the output so far.\<close>

function ParseStringToStream :: "string \<Rightarrow> string \<Rightarrow> string parsed" where
  "ParseStringToStream [] os = Inl StringMissQuotationMark"
| "ParseStringToStream (c # s) os =
     (if code c = 92 then
        (case s of
           [] \<Rightarrow> Inl StringEscapeInvalid
         | e # r \<Rightarrow>
             (case unescape_char e of
                Some x \<Rightarrow> ParseStringToStream r (os @ [x])
              | None \<Rightarrow>
                  if e = CHR ''u'' then
                    (case ParseUnicode r of
                       Inl err \<Rightarrow> Inl err
                     | Inr (cp, r') \<Rightarrow> ParseStringToStream r' (os @ utf8_encode cp))
                  else Inl StringEscapeInvalid))
      else if code c = 34 then Inr (os, s)
      else if code c = 0 then Inl StringMissQuotationMark
      else if code c < 32 then Inl StringEscapeInvalid
      else ParseStringToStream s (os @ [c]))"
  by pat_completeness auto
termination
  by (relation "measure (\<lambda>(s, os). length s)") (auto dest!: ParseUnicode_length)

definition ParseString :: "string \<Rightarrow> string parsed" where
  "ParseString s = ParseStringToStream (tl s) []"

section \<open>Numbers\<close>

text \<open>
  A digit loop of \<open>ParseNumber\<close>: it stops before the digit that would take the value
  past \<open>10 * q + r\<close>. Results: the value, the number of digits taken, the rest.
\<close>

fun digit_loop :: "nat \<Rightarrow> nat \<Rightarrow> nat \<Rightarrow> nat \<Rightarrow> string \<Rightarrow> nat \<times> nat \<times> string" where
  "digit_loop q r i k [] = (i, k, [])"
| "digit_loop q r i k (c # s) =
     (if isdigit c \<and> \<not> (i \<ge> q \<and> (i \<noteq> q \<or> digit_val c > r))
      then digit_loop q r (i * 10 + digit_val c) (Suc k) s
      else (i, k, c # s))"

text \<open>Round to nearest, ties to even, to the 53 bits of a \<open>double\<close>.\<close>

definition round53 :: "nat \<Rightarrow> nat" where
  "round53 n =
     (let l = floorlog 2 n in
      if l \<le> 53 then n
      else let e = l - 53; q = n div 2 ^ e; r = n mod 2 ^ e; half = 2 ^ (e - 1)
           in (if r > half \<or> r = half \<and> odd q then q + 1 else q) * 2 ^ e)"

definition dbl_max_10 :: nat where
  "dbl_max_10 = round53 (17976931348623157 * 10 ^ 291)"

text \<open>The loop over the digits of a big integer, in double arithmetic.\<close>

fun big_loop :: "nat \<Rightarrow> string \<Rightarrow> nat parsed" where
  "big_loop d [] = Inr (d, [])"
| "big_loop d (c # s) =
     (if isdigit c then
        (if d \<ge> dbl_max_10 then Inl NumberTooBig
         else big_loop (round53 (round53 (d * 10) + digit_val c)) s)
      else Inr (d, c # s))"

text \<open>The two loops over the digits of the fraction; \<open>fr\<close> is \<open>- expFrac\<close>.\<close>

fun frac_fast :: "nat \<Rightarrow> nat \<Rightarrow> nat \<Rightarrow> string \<Rightarrow> nat \<times> nat \<times> string" where
  "frac_fast i64 sig fr [] = (sig, fr, [])"
| "frac_fast i64 sig fr (c # s) =
     (if isdigit c \<and> \<not> i64 > 2 ^ 53 - 1
      then frac_fast (i64 * 10 + digit_val c)
             (if i64 * 10 + digit_val c \<noteq> 0 then Suc sig else sig) (Suc fr) s
      else (sig, fr, c # s))"

fun frac_slow :: "nat \<Rightarrow> nat \<Rightarrow> string \<Rightarrow> nat \<times> string" where
  "frac_slow sig fr [] = (fr, [])"
| "frac_slow sig fr (c # s) =
     (if isdigit c
      then (if sig < 17 then frac_slow (Suc sig) (Suc fr) s else frac_slow sig fr s)
      else (fr, c # s))"

fun exp_loop :: "nat \<Rightarrow> nat \<Rightarrow> string \<Rightarrow> string parsed" where
  "exp_loop maxExp e [] = Inr ([], [])"
| "exp_loop maxExp e (c # s) =
     (if isdigit c then
        (if e * 10 + digit_val c > maxExp then Inl NumberTooBig
         else exp_loop maxExp (e * 10 + digit_val c) s)
      else Inr ([], c # s))"

text \<open>
  After the integer part: the value \<open>i64\<close> taken so far, its digit count, whether it
  already is a double. Result: whether the number is a double, and the rest.
\<close>

definition ParseFrac :: "nat \<Rightarrow> nat \<Rightarrow> bool \<Rightarrow> string \<Rightarrow> (bool \<times> nat) parsed" where
  "ParseFrac i64 sig useDouble s =
     (if Peek s = CHR ''.'' then
        (if \<not> isdigit (Peek (tl s)) then Inl NumberMissFraction
         else
           (case (if useDouble then (sig, 0, tl s) else frac_fast i64 sig 0 (tl s)) of
              (sig', fr, r) \<Rightarrow>
                (case frac_slow sig' fr r of (fr', r') \<Rightarrow> Inr ((True, fr'), r'))))
      else Inr ((useDouble, 0), s))"

definition ParseExp :: "nat \<Rightarrow> bool \<Rightarrow> string \<Rightarrow> bool parsed" where
  "ParseExp fr useDouble s =
     (if Peek s = CHR ''e'' \<or> Peek s = CHR ''E'' then
        (let r = tl s;
             expMinus = (Peek r = CHR ''-'');
             t = (if Peek r = CHR ''+'' \<or> Peek r = CHR ''-'' then tl r else r)
         in if isdigit (Peek t) then
              (if expMinus then Inr (True, dropWhile isdigit t)
               else (case exp_loop (308 + fr) (digit_val (Peek t)) (tl t) of
                       Inl e \<Rightarrow> Inl e | Inr (_, r') \<Rightarrow> Inr (True, r')))
            else Inl NumberMissExponent)
      else Inr (useDouble, s))"

definition ParseNumber :: "string \<Rightarrow> json parsed" where
  "ParseNumber s =
     (let minus = (Peek s = CHR ''-'');
          t = (if minus then tl s else s)
      in if \<not> isdigit (Peek t) then Inl ValueInvalid
         else
           (let (i, k, r) =
                  (if Peek t = CHR ''0'' then (0, 0, tl t)
                   else if minus then digit_loop 214748364 8 (digit_val (Peek t)) 0 (tl t)
                   else digit_loop 429496729 5 (digit_val (Peek t)) 0 (tl t));
                use64bit = (Peek t \<noteq> CHR ''0'' \<and> isdigit (Peek r));
                (i64, k', r') =
                  (if \<not> use64bit then (i, k, r)
                   else if minus then digit_loop 0x0CCCCCCCCCCCCCCC 8 i k r
                   else digit_loop 0x1999999999999999 5 i k r);
                useDouble = (use64bit \<and> isdigit (Peek r'))
            in case (if useDouble then big_loop (round53 i64) r' else Inr (0, r')) of
                 Inl e \<Rightarrow> Inl e
               | Inr (_, r1) \<Rightarrow>
                   (case ParseFrac i64 k' useDouble r1 of
                      Inl e \<Rightarrow> Inl e
                    | Inr ((useDouble1, fr), r2) \<Rightarrow>
                        (case ParseExp fr useDouble1 r2 of
                           Inl e \<Rightarrow> Inl e
                         | Inr (useDouble2, r3) \<Rightarrow>
                             Inr (if useDouble2 then JDouble (take (length s - length r3) s)
                                  else JInt (if minus then - int i64 else int i64), r3)))))"

section \<open>Values\<close>

definition ParseWord :: "string \<Rightarrow> json \<Rightarrow> string \<Rightarrow> json parsed" where
  "ParseWord word v s = (if prefix word s then Inr (v, drop (length word) s) else Inl ValueInvalid)"

fun ParseValue :: "nat \<Rightarrow> string \<Rightarrow> json parsed"
  and ParseMembers :: "nat \<Rightarrow> string \<Rightarrow> (string \<times> json) list parsed"
  and ParseElements :: "nat \<Rightarrow> string \<Rightarrow> json list parsed" where
  "ParseValue 0 s = Inl OutOfFuel"
| "ParseValue (Suc n) s =
     (if Peek s = CHR ''n'' then ParseWord ''null'' JNull s
      else if Peek s = CHR ''t'' then ParseWord ''true'' (JBool True) s
      else if Peek s = CHR ''f'' then ParseWord ''false'' (JBool False) s
      else if code (Peek s) = 34 then
        (case ParseString s of Inl e \<Rightarrow> Inl e | Inr (str, r) \<Rightarrow> Inr (JString str, r))
      else if Peek s = CHR ''{'' then
        (let t = SkipWhitespace (tl s) in
         if Peek t = CHR ''}'' then Inr (JObject [], tl t)
         else (case ParseMembers n t of Inl e \<Rightarrow> Inl e | Inr (ms, r) \<Rightarrow> Inr (JObject ms, r)))
      else if Peek s = CHR ''['' then
        (let t = SkipWhitespace (tl s) in
         if Peek t = CHR '']'' then Inr (JArray [], tl t)
         else (case ParseElements n t of Inl e \<Rightarrow> Inl e | Inr (vs, r) \<Rightarrow> Inr (JArray vs, r)))
      else ParseNumber s)"
| "ParseMembers 0 s = Inl OutOfFuel"
| "ParseMembers (Suc n) s =
     (if code (Peek s) \<noteq> 34 then Inl ObjectMissName
      else case ParseString s of
        Inl e \<Rightarrow> Inl e
      | Inr (k, r) \<Rightarrow>
          (let r1 = SkipWhitespace r in
           if Peek r1 \<noteq> CHR '':'' then Inl ObjectMissColon
           else case ParseValue n (SkipWhitespace (tl r1)) of
             Inl e \<Rightarrow> Inl e
           | Inr (v, r2) \<Rightarrow>
               (let r3 = SkipWhitespace r2 in
                if Peek r3 = CHR '','' then
                  (case ParseMembers n (SkipWhitespace (tl r3)) of
                     Inl e \<Rightarrow> Inl e | Inr (ms, r4) \<Rightarrow> Inr ((k, v) # ms, r4))
                else if Peek r3 = CHR ''}'' then Inr ([(k, v)], tl r3)
                else Inl ObjectMissCommaOrCurlyBracket)))"
| "ParseElements 0 s = Inl OutOfFuel"
| "ParseElements (Suc n) s =
     (case ParseValue n s of
        Inl e \<Rightarrow> Inl e
      | Inr (v, r) \<Rightarrow>
          (let r1 = SkipWhitespace r in
           if Peek r1 = CHR '','' then
             (case ParseElements n (SkipWhitespace (tl r1)) of
                Inl e \<Rightarrow> Inl e | Inr (vs, r2) \<Rightarrow> Inr (v # vs, r2))
           else if Peek r1 = CHR '']'' then Inr ([v], tl r1)
           else Inl ArrayMissCommaOrSquareBracket))"

declare ParseValue.simps [simp del] ParseMembers.simps [simp del] ParseElements.simps [simp del]

text \<open>\<open>Document::Parse(str)\<close>.\<close>

definition Parse :: "string \<Rightarrow> parse_error + json" where
  "Parse str =
     (let s = SkipWhitespace (c_str str) in
      if s = [] then Inl DocumentEmpty
      else case ParseValue (2 * length s + 2) s of
        Inl e \<Rightarrow> Inl e
      | Inr (v, r) \<Rightarrow> if SkipWhitespace r \<noteq> [] then Inl DocumentRootNotSingular else Inr v)"

section \<open>The fuel is enough\<close>

text \<open>\<open>progress s x\<close>: \<open>x\<close> is not the fuel error, and its rest is no longer than \<open>s\<close>.\<close>

definition progress :: "string \<Rightarrow> 'a parsed \<Rightarrow> bool" where
  "progress s x \<longleftrightarrow> (case x of Inl e \<Rightarrow> e \<noteq> OutOfFuel | Inr (_, r) \<Rightarrow> length r \<le> length s)"

lemma progress_simps [simp]:
  "progress s (Inl e) \<longleftrightarrow> e \<noteq> OutOfFuel"
  "progress s (Inr (v, r)) \<longleftrightarrow> length r \<le> length s"
  by (simp_all add: progress_def)

lemma progress_mono: "progress t x \<Longrightarrow> length t \<le> length s \<Longrightarrow> progress s x"
  by (auto simp: progress_def split: sum.splits)

lemma SkipWhitespace_length: "length (SkipWhitespace s) \<le> length s"
  by (simp add: SkipWhitespace_def length_dropWhile_le)

lemma ParseHex4_progress: "progress s (ParseHex4 n cp s)"
  by (induction n cp s rule: ParseHex4.induct) (auto intro: progress_mono)

lemma progress_bind:
  assumes "progress s x"
    and "\<And>v r. x = Inr (v, r) \<Longrightarrow> length r \<le> length s \<Longrightarrow> progress s (f v r)"
  shows "progress s (case x of Inl e \<Rightarrow> Inl e | Inr (v, r) \<Rightarrow> f v r)"
  using assms by (cases x) (auto simp: progress_def)

lemma ParseUnicode_progress: "progress s (ParseUnicode s)"
proof -
  have hex: "progress s (ParseHex4 n cp r)" if "length r \<le> length s" for n cp r
    using ParseHex4_progress that by (rule progress_mono)
  show ?thesis
    unfolding ParseUnicode_def
    apply (rule progress_bind)
     apply (simp add: hex)
    apply (clarsimp split: list.splits)
    apply (rule progress_bind)
     apply (simp_all add: hex)
    done
qed

lemma ParseStringToStream_progress: "progress s (ParseStringToStream s os)"
proof (induction s os rule: ParseStringToStream.induct)
  case (2 c s os)
  have esc: "progress (c # CHR ''u'' # r) (case ParseUnicode r of Inl err \<Rightarrow> Inl err
      | Inr (cp, r') \<Rightarrow> ParseStringToStream r' (os @ utf8_encode cp))"
    if "s = CHR ''u'' # r" "code c = 92" "unescape_char CHR ''u'' = None" for r
    apply (rule progress_bind)
     apply (rule progress_mono[OF ParseUnicode_progress])
     apply (simp add: that)
    apply (rule progress_mono[OF 2(1)[OF that(2,1,3) refl]])
      apply (simp_all add: that)
    done
  have simple: "progress (c # e # r) (ParseStringToStream r (os @ [x]))"
    if "s = e # r" "code c = 92" "unescape_char e = Some x" for e r x
    by (rule progress_mono[OF 2(2)[OF that(2,1,3)]]) (simp add: that)
  have plain: "progress (c # s) (ParseStringToStream s (os @ [c]))"
    if "code c \<noteq> 92" "code c \<noteq> 34" "code c \<noteq> 0" "\<not> code c < 32"
    by (rule progress_mono[OF 2(3)[OF that]]) simp
  show ?case
    unfolding ParseStringToStream.simps(2)[of c s os]
    using plain by (auto split: list.split option.split intro: esc simple simp del: ParseStringToStream.simps)
qed simp

lemma ParseString_progress: "progress s (ParseString s)"
  by (simp add: ParseString_def progress_mono[OF ParseStringToStream_progress])

lemma digit_loop_length: "digit_loop q r i k s = (i', k', t) \<Longrightarrow> length t \<le> length s"
  by (induction q r i k s rule: digit_loop.induct) (auto split: if_splits)

lemma big_loop_progress: "progress s (big_loop d s)"
  by (induction d s rule: big_loop.induct) (auto intro: progress_mono)

lemma exp_loop_progress: "progress s (exp_loop m e s)"
  by (induction m e s rule: exp_loop.induct) (auto intro: progress_mono)

lemma frac_fast_length: "frac_fast i sig fr s = (sig', fr', t) \<Longrightarrow> length t \<le> length s"
  by (induction i sig fr s rule: frac_fast.induct) (auto split: if_splits)

lemma frac_slow_length: "frac_slow sig fr s = (fr', t) \<Longrightarrow> length t \<le> length s"
  by (induction sig fr s rule: frac_slow.induct) (auto split: if_splits)

lemma ParseFrac_progress: "progress s (ParseFrac i sig d s)"
  using length_tl[of s]
  by (auto simp: ParseFrac_def split: prod.splits dest!: frac_fast_length frac_slow_length)
     
lemma ParseExp_progress: "progress s (ParseExp fr d s)"
proof -
  have exps: "progress s (case exp_loop m e (tl t) of Inl e \<Rightarrow> Inl e | Inr (_, r') \<Rightarrow> Inr (True, r'))"
    if "length t \<le> length s" for m e t
    by (rule progress_bind, rule progress_mono[OF exp_loop_progress]) (use that in simp_all)
  have "length (dropWhile isdigit t) \<le> length s" if "length t \<le> length s" for t
    using length_dropWhile_le that le_trans by blast
  then show ?thesis
    by (simp add: ParseExp_def Let_def exps)
qed

lemma ParseNumber_progress: "progress s (ParseNumber s)"
proof -
  have big: "progress s (case if c then big_loop d r' else Inr (0, r') of Inl e \<Rightarrow> Inl e
      | Inr (_, r1) \<Rightarrow>
          (case ParseFrac i64 k' c r1 of Inl e \<Rightarrow> Inl e
           | Inr ((useDouble1, fr), r2) \<Rightarrow>
               (case ParseExp fr useDouble1 r2 of Inl e \<Rightarrow> Inl e
                | Inr (useDouble2, r3) \<Rightarrow> Inr (g useDouble2 r3, r3))))"
    if "length r' \<le> length s" for c d r' i64 k' and g :: "bool \<Rightarrow> string \<Rightarrow> json"
    apply (rule progress_bind)
     apply (use that in \<open>simp add: progress_mono[OF big_loop_progress]\<close>)
    apply (rule progress_bind)
     apply (erule progress_mono[OF ParseFrac_progress])
    apply (clarsimp split: prod.splits)
    apply (rule progress_bind)
     apply (erule progress_mono[OF ParseExp_progress])
    apply simp
    done
  have triple: "progress s (case x of (a, b, c) \<Rightarrow> f a b c)"
    if "\<And>a b c. x = (a, b, c) \<Longrightarrow> progress s (f a b c)"
    for x :: "nat \<times> nat \<times> string" and f :: "nat \<Rightarrow> nat \<Rightarrow> string \<Rightarrow> json parsed"
    using that by (cases x) auto
  have len: "length (tl (if m then tl s else s)) \<le> length s" for m
    by (cases s) auto
  show ?thesis
  proof (cases "isdigit (Peek (if Peek s = CHR ''-'' then tl s else s))")
    case False
    then show ?thesis by (simp add: ParseNumber_def Let_def)
  next
    case True
    then have if_eq: "(if \<not> isdigit (Peek (if Peek s = CHR ''-'' then tl s else s)) then a else b) = b"
      for a b :: "json parsed" by simp
    show ?thesis
      unfolding ParseNumber_def Let_def if_eq
      by (intro triple big) (use len in \<open>fastforce split: if_splits dest!: digit_loop_length\<close>)
  qed
qed

lemma NUL_Char: "NUL = CHR 0x00"
  by (simp add: NUL_def char_of_def)

lemma ParseWord_progress: "progress s (ParseWord w v s)"
  by (simp add: ParseWord_def)

lemma Parse_values_progress:
  "2 * length s + 1 \<le> n \<Longrightarrow> progress s (ParseValue n s)"
  "2 * length s + 2 \<le> n \<Longrightarrow> progress s (ParseMembers n s)"
  "2 * length s + 2 \<le> n \<Longrightarrow> progress s (ParseElements n s)"
proof (induction n arbitrary: s)
  case (Suc n)
  have skip: "length (SkipWhitespace (tl r)) < length r" if "r \<noteq> []" for r
    using SkipWhitespace_length[of "tl r"] that by (cases r) (auto simp: le_less_trans)
  have tl_skip: "length (tl (SkipWhitespace r)) \<le> length r" for r
    using SkipWhitespace_length[of r] by (simp add: le_trans[OF diff_le_self])
  have peek: "r \<noteq> []" if "Peek r = c" "c \<noteq> NUL" for r c
    using that by (auto simp: Peek_def)
  have skip2: "length (SkipWhitespace (tl (SkipWhitespace r))) < length r"
    if "Peek (SkipWhitespace r) = c" "c \<noteq> NUL" for r c
    using skip[OF peek[OF that]] SkipWhitespace_length[of r] by simp
  {
    case 1
    have obj: "progress s (case ParseMembers n (SkipWhitespace (tl s)) of Inl e \<Rightarrow> Inl e
        | Inr (ms, r) \<Rightarrow> Inr (JObject ms, r))"
      if "Peek s = CHR ''{''"
      apply (rule progress_bind)
       apply (rule progress_mono[OF Suc.IH(2)])
      using skip[OF peek[OF that]] 1 apply (simp_all add: NUL_Char)
      done
    have arr: "progress s (case ParseElements n (SkipWhitespace (tl s)) of Inl e \<Rightarrow> Inl e
        | Inr (ms, r) \<Rightarrow> Inr (JArray ms, r))"
      if "Peek s = CHR ''[''"
      apply (rule progress_bind)
       apply (rule progress_mono[OF Suc.IH(3)])
      using skip[OF peek[OF that]] 1 apply (simp_all add: NUL_Char)
      done
    have str: "progress s (case ParseString s of Inl e \<Rightarrow> Inl e | Inr (str, r) \<Rightarrow> Inr (JString str, r))"
      by (rule progress_bind[OF ParseString_progress]) simp
    have "length (tl (SkipWhitespace (tl s))) \<le> length s"
      using tl_skip[of "tl s"] by simp
    then show ?case
      by (simp add: ParseValue.simps(2) Let_def obj arr str ParseWord_progress ParseNumber_progress)
  next
    case 2
    have rest: "progress s
       (if Peek (SkipWhitespace r2) = CHR '','' then
          (case ParseMembers n (SkipWhitespace (tl (SkipWhitespace r2))) of
             Inl e \<Rightarrow> Inl e | Inr (ms, r4) \<Rightarrow> Inr ((k, v) # ms, r4))
        else if Peek (SkipWhitespace r2) = CHR ''}'' then Inr ([(k, v)], tl (SkipWhitespace r2))
        else Inl ObjectMissCommaOrCurlyBracket)"
      if "length r2 \<le> length s" for k v r2
    proof (cases "Peek (SkipWhitespace r2) = CHR '',''")
      case True
      then have "length (SkipWhitespace (tl (SkipWhitespace r2))) < length r2"
        by (intro skip2[of r2 "CHR '',''"]) (simp_all add: NUL_Char)
      with that 2 show ?thesis
        unfolding if_P[OF True]
        by (intro progress_bind progress_mono[OF Suc.IH(2)]) simp_all
    next
      case False
      then show ?thesis using tl_skip[of r2] that by simp
    qed
    have step: "progress s
       (let r1 = SkipWhitespace r in
           if Peek r1 \<noteq> CHR '':'' then Inl ObjectMissColon
           else case ParseValue n (SkipWhitespace (tl r1)) of
             Inl e \<Rightarrow> Inl e
           | Inr (v, r2) \<Rightarrow>
               (let r3 = SkipWhitespace r2 in
                if Peek r3 = CHR '','' then
                  (case ParseMembers n (SkipWhitespace (tl r3)) of
                     Inl e \<Rightarrow> Inl e | Inr (ms, r4) \<Rightarrow> Inr ((k, v) # ms, r4))
                else if Peek r3 = CHR ''}'' then Inr ([(k, v)], tl r3)
                else Inl ObjectMissCommaOrCurlyBracket))"
      if "length r \<le> length s" for k r
      unfolding Let_def
      apply (simp only: progress_simps parse_error.distinct if_True simp_thms split: if_split)
      apply (intro conjI impI)
      apply (rule progress_bind)
       apply (rule progress_mono[OF Suc.IH(1)])
      using skip2[of r "CHR '':''"] that 2 apply (simp add: NUL_Char)
      using skip2[of r "CHR '':''"] that apply (simp add: NUL_Char)
      apply (rule rest)
      using skip2[of r "CHR '':''"] that apply (simp add: NUL_Char)
      done
    show ?case
      unfolding ParseMembers.simps(2)
      by (simp, intro impI progress_bind[OF ParseString_progress] step)
  next
    case 3
    have rest: "progress s
       (if Peek (SkipWhitespace r) = CHR '','' then
             (case ParseElements n (SkipWhitespace (tl (SkipWhitespace r))) of
                Inl e \<Rightarrow> Inl e | Inr (vs, r2) \<Rightarrow> Inr (v # vs, r2))
           else if Peek (SkipWhitespace r) = CHR '']'' then Inr ([v], tl (SkipWhitespace r))
           else Inl ArrayMissCommaOrSquareBracket)"
      if "length r \<le> length s" for v r
    proof (cases "Peek (SkipWhitespace r) = CHR '',''")
      case True
      then have "length (SkipWhitespace (tl (SkipWhitespace r))) < length r"
        by (intro skip2[of r "CHR '',''"]) (simp_all add: NUL_Char)
      with that 3 show ?thesis
        unfolding if_P[OF True]
        by (intro progress_bind progress_mono[OF Suc.IH(3)]) simp_all
    next
      case False
      then show ?thesis using tl_skip[of r] that by simp
    qed
    show ?case
      unfolding ParseElements.simps(2) Let_def
      using 3 by (intro progress_bind rest Suc.IH(1)) simp
  }
qed (simp_all)

text \<open>The parser never runs out of fuel.\<close>

lemma Parse_no_OutOfFuel: "Parse str \<noteq> Inl OutOfFuel"
proof -
  let ?s = "SkipWhitespace (c_str str)"
  have "progress ?s (ParseValue (2 * length ?s + 2) ?s)"
    by (rule Parse_values_progress) simp
  then show ?thesis
    by (auto simp: Parse_def Let_def progress_def split: sum.splits prod.splits if_splits)
qed

section \<open>Reading what the writer wrote\<close>

lemma hexDigit_xdigit:
  assumes "d < 16" shows "isxdigit (hexDigit d)" "xdigit_val (hexDigit d) = d"
  using assms by (auto simp: hexDigit_def isxdigit_def xdigit_val_def isdigit_def)

lemma ParseHex4_digit:
  "d < 16 \<Longrightarrow> ParseHex4 (Suc n) cp (hexDigit d # r) = ParseHex4 n (cp * 16 + d) r"
  by (simp add: hexDigit_xdigit)

lemma ParseHex4_00:
  assumes "n < 32"
  shows "ParseHex4 4 0 ([CHR ''0'', CHR ''0'', hexDigit (n div 16), hexDigit (n mod 16)] @ r) = Inr (n, r)"
proof -
  have zero: "CHR ''0'' = hexDigit 0" and four: "4 = Suc (Suc (Suc (Suc 0)))" 
    by code_simp simp
  have "n div 16 < 16" using assms by simp
  then show ?thesis
    unfolding zero four by (simp del: ParseHex4.simps(3) add: ParseHex4_digit)
qed

lemma escaped_chars:
  "code c \<in> {8, 9, 10, 12, 13, 34, 92} \<longleftrightarrow>
    c \<in> {CHR 0x08, CHR 0x09, CHR 0x0A, CHR 0x0C, CHR 0x0D, CHR 0x22, CHR 0x5C}"
  by (simp only: insert_iff empty_iff flip: of_char_eq_iff[where 'a = nat]) (simp del: of_char_eq_iff)

lemma escaped_char_of:
  "char_of (8 :: nat) = CHR 0x08" "char_of (9 :: nat) = CHR 0x09" "char_of (10 :: nat) = CHR 0x0A"
  "char_of (12 :: nat) = CHR 0x0C" "char_of (13 :: nat) = CHR 0x0D" "char_of (34 :: nat) = CHR 0x22"
  "char_of (92 :: nat) = CHR 0x5C"
  by code_simp+

lemma ParseStringToStream_write_char:
  "ParseStringToStream (write_char c @ r) os = ParseStringToStream r (os @ [c])"
proof -
  have c: "c = char_of (code c)" by (simp)
  consider "code c \<in> {8, 9, 10, 12, 13, 34, 92}"
    | "code c < 32" "code c \<notin> {8, 9, 10, 12, 13}"
    | "32 \<le> code c" "code c \<noteq> 34" "code c \<noteq> 92"
    by force
  then show ?thesis
  proof cases
    case 1
    then show ?thesis
      unfolding escaped_chars
      by (auto simp: write_char_def escape_def Let_def unescape_char_def escaped_char_of)
  next
    case 2
    have "ParseUnicode ([CHR ''0'', CHR ''0'', hexDigit (code c div 16), hexDigit (code c mod 16)] @ r)
        = Inr (code c, r)"
      using 2 ParseHex4_00[OF 2(1), of r] by (simp add: ParseUnicode_def)
    moreover have "escape c = Some CHR ''u''"
      using 2 by (simp add: escape_def Let_def)
    moreover have "unescape_char CHR ''u'' = None"
      by (simp add: unescape_char_def)
    moreover have "utf8_encode (code c) = [c]"
      using 2 by (simp add: utf8_encode_def)
    ultimately show ?thesis
      by (simp add: write_char_def)
  next
    case 3
    then show ?thesis by (simp add: write_char_def escape_def Let_def)
  qed
qed

lemma ParseString_WriteString: "ParseString (WriteString str @ r) = Inr (str, r)"
proof -
  have "ParseStringToStream (concat (map write_char str) @ char_of (34 :: nat) # r) os = Inr (os @ str, r)" for os
    by (induction str arbitrary: os) (simp_all add: ParseStringToStream_write_char)
  then show ?thesis by (simp add: ParseString_def WriteString_def)
qed

text \<open>A text that can follow a number: nothing that would lengthen it.\<close>

definition ends_number :: "string \<Rightarrow> bool" where
  "ends_number r \<longleftrightarrow>
     \<not> isdigit (Peek r) \<and> Peek r \<noteq> CHR ''.'' \<and> Peek r \<noteq> CHR ''e'' \<and> Peek r \<noteq> CHR ''E''"

lemma Peek_simps [simp]: "Peek (c # s) = c" "Peek [] = NUL"
  by (simp_all add: Peek_def)

lemma digit_loop_stop: "\<not> isdigit (Peek r) \<Longrightarrow> digit_loop q b i k r = (i, k, r)"
  by (cases r) auto

lemma digit_loop_split:
  assumes "\<forall>c \<in> set ds. isdigit c" "\<not> isdigit (Peek r)"
  shows "\<exists>ds1 ds2 k'. ds = ds1 @ ds2 \<and>
    digit_loop q b i k (ds @ r) = (digits_val i ds1, k', ds2 @ r)"
  using assms
proof (induction ds arbitrary: i k)
  case Nil
  then show ?case by (simp add: digit_loop_stop)
next
  case (Cons c ds)
  show ?case
  proof (cases "i \<ge> q \<and> (i \<noteq> q \<or> digit_val c > b)")
    case True
    then show ?thesis by (intro exI[of _ "[]"] exI[of _ "c # ds"]) simp
  next
    case False
    have "\<forall>c \<in> set ds. isdigit c" using Cons.prems(1) by simp
    from Cons.IH[OF this Cons.prems(2), of "i * 10 + digit_val c" "Suc k"]
    obtain ds1 ds2 k' where ds: "ds = ds1 @ ds2"
      "digit_loop q b (i * 10 + digit_val c) (Suc k) (ds @ r) = (digits_val (i * 10 + digit_val c) ds1, k', ds2 @ r)"
      by blast
    have "digit_loop q b i k ((c # ds) @ r) = digit_loop q b (i * 10 + digit_val c) (Suc k) (ds @ r)"
      using Cons.prems(1) False by simp
    with ds show ?thesis
      by (intro exI[of _ "c # ds1"] exI[of _ ds2] exI[of _ k']) simp
  qed
qed

lemma digit_loop_full:
  assumes "\<forall>c \<in> set ds. isdigit c" "\<not> isdigit (Peek r)" "digits_val i ds \<le> 10 * q + b" "b < 10"
  shows "\<exists>k'. digit_loop q b i k (ds @ r) = (digits_val i ds, k', r)"
  using assms
proof (induction ds arbitrary: i k)
  case Nil
  then show ?case by (simp add: digit_loop_stop)
next
  case (Cons c ds)
  have "i * 10 + digit_val c \<le> 10 * q + b"
    using Cons.prems(3) digits_val_mono[of "i * 10 + digit_val c" ds] by simp
  then have "\<not> (i \<ge> q \<and> (i \<noteq> q \<or> digit_val c > b))"
    using Cons.prems(4) by auto
  moreover have "isdigit c" "\<forall>c \<in> set ds. isdigit c" using Cons.prems(1) by simp_all
  ultimately show ?case
    using Cons.IH[of "i * 10 + digit_val c" "Suc k"] Cons.prems by simp
qed

text \<open>
  The two loops over a digit string with a value that fits 64 bits: after them the value
  is exact, no digit is left, and the 64-bit flag is set exactly when the first loop stopped.
\<close>

lemma digit_loops:
  assumes "\<forall>c \<in> set ds. isdigit c" "\<not> isdigit (Peek r)" "digits_val i ds \<le> 10 * q' + b'" "b' < 10"
  obtains i1 k1 r1 k2 where
    "digit_loop q b i k (ds @ r) = (i1, k1, r1)"
    "(if \<not> isdigit (Peek r1) then (i1, k1, r1) else digit_loop q' b' i1 k1 r1) = (digits_val i ds, k2, r)"
proof -
  obtain ds1 ds2 k1 where d: "ds = ds1 @ ds2"
    "digit_loop q b i k (ds @ r) = (digits_val i ds1, k1, ds2 @ r)"
    using digit_loop_split[OF assms(1,2)] by blast
  show ?thesis
  proof (cases "ds2 = []")
    case True
    with d assms(2) show ?thesis by (intro that[of "digits_val i ds1" k1 r k1]) auto
  next
    case False
    with d assms(1) have "isdigit (Peek (ds2 @ r))" by (cases ds2) auto
    moreover obtain k2 where "digit_loop q' b' (digits_val i ds1) k1 (ds2 @ r) = (digits_val i ds, k2, r)"
      using digit_loop_full[of ds2 r "digits_val i ds1" q' b' k1] assms d by auto
    ultimately show ?thesis using d by (intro that) auto
  qed
qed

lemma ends_number_frac: "ends_number r \<Longrightarrow> ParseFrac i k False r = Inr ((False, 0), r)"
  and ends_number_exp: "ends_number r \<Longrightarrow> ParseExp fr False r = Inr (False, r)"
  by (auto simp: ParseFrac_def ParseExp_def ends_number_def)

lemma show_nat_split:
  obtains c ds where "show_nat n = c # ds" "isdigit c" "\<forall>c \<in> set ds. isdigit c"
    "c = CHR ''0'' \<longrightarrow> n = 0 \<and> ds = []" "digits_val (digit_val c) ds = n" "c \<noteq> CHR ''-''"
proof -
  obtain c ds where s: "show_nat n = c # ds" by (cases "show_nat n") auto
  have "isdigit c" "\<forall>c \<in> set ds. isdigit c" using show_nat_digits[of n] s by auto
  moreover have "n = 0 \<and> ds = []" if "c = CHR ''0''"
    using show_nat_lead_zero[of n] s that show_nat.simps[of 0] by (cases "n = 0") auto
  moreover have "digits_val (digit_val c) ds = n" using digits_val_show_nat[of n] s by simp
  ultimately show ?thesis using s by (intro that) (auto simp: isdigit_def)
qed

lemma ParseNumber_show_nat:
  assumes "n < 2 ^ 64" "ends_number r"
  shows "ParseNumber (show_nat n @ r) = Inr (JInt (int n), r)"
proof -
  obtain c ds where s: "show_nat n = c # ds" "isdigit c" "\<forall>c \<in> set ds. isdigit c"
    "c = CHR ''0'' \<longrightarrow> n = 0 \<and> ds = []" "digits_val (digit_val c) ds = n" "c \<noteq> CHR ''-''"
    by (rule show_nat_split[of n])
  have nd: "\<not> isdigit (Peek r)" using assms(2) by (simp add: ends_number_def)
  show ?thesis
  proof (cases "c = CHR ''0''")
    case True
    with s show ?thesis
      using assms(2) by (simp add: ParseNumber_def Let_def ends_number_frac ends_number_exp)
  next
    case False
    have "digits_val (digit_val c) ds \<le> 10 * 0x1999999999999999 + 5" using s(5) assms(1) by simp
    then obtain i1 k1 r1 k2 where L: "digit_loop 429496729 5 (digit_val c) 0 (ds @ r) = (i1, k1, r1)"
      "(if \<not> isdigit (Peek r1) then (i1, k1, r1) else digit_loop 0x1999999999999999 5 i1 k1 r1)
         = (digits_val (digit_val c) ds, k2, r)"
      by (rule digit_loops[OF s(3) nd]) simp
    then show ?thesis
      using s False assms(2) nd
      by (cases "isdigit (Peek r1)")
        (simp_all add: ParseNumber_def Let_def ends_number_frac ends_number_exp)
  qed
qed

lemma ParseNumber_show_neg:
  assumes "n \<le> 2 ^ 63" "ends_number r"
  shows "ParseNumber (CHR ''-'' # show_nat n @ r) = Inr (JInt (- int n), r)"
proof -
  obtain c ds where s: "show_nat n = c # ds" "isdigit c" "\<forall>c \<in> set ds. isdigit c"
    "c = CHR ''0'' \<longrightarrow> n = 0 \<and> ds = []" "digits_val (digit_val c) ds = n" "c \<noteq> CHR ''-''"
    by (rule show_nat_split[of n])
  have nd: "\<not> isdigit (Peek r)" using assms(2) by (simp add: ends_number_def)
  show ?thesis
  proof (cases "c = CHR ''0''")
    case True
    with s show ?thesis
      using assms(2) by (simp add: ParseNumber_def Let_def ends_number_frac ends_number_exp)
  next
    case False
    have "digits_val (digit_val c) ds \<le> 10 * 0x0CCCCCCCCCCCCCCC + 8" using s(5) assms(1) by simp
    then obtain i1 k1 r1 k2 where L: "digit_loop 214748364 8 (digit_val c) 0 (ds @ r) = (i1, k1, r1)"
      "(if \<not> isdigit (Peek r1) then (i1, k1, r1) else digit_loop 0x0CCCCCCCCCCCCCCC 8 i1 k1 r1)
         = (digits_val (digit_val c) ds, k2, r)"
      by (rule digit_loops[OF s(3) nd]) simp
    then show ?thesis
      using s False assms(2) nd
      by (cases "isdigit (Peek r1)")
        (simp_all add: ParseNumber_def Let_def ends_number_frac ends_number_exp)
  qed
qed

fun parsable :: "json \<Rightarrow> bool" and parsable_members :: "(string \<times> json) list \<Rightarrow> bool"
  and parsable_elements :: "json list \<Rightarrow> bool" where
  "parsable JNull \<longleftrightarrow> True"
| "parsable (JBool b) \<longleftrightarrow> True"
| "parsable (JInt i) \<longleftrightarrow> - (2 ^ 63) \<le> i \<and> i < 2 ^ 64"
| "parsable (JDouble t) \<longleftrightarrow> False"
| "parsable (JString s) \<longleftrightarrow> True"
| "parsable (JArray vs) \<longleftrightarrow> parsable_elements vs"
| "parsable (JObject ms) \<longleftrightarrow> parsable_members ms"
| "parsable_members [] \<longleftrightarrow> True"
| "parsable_members ((k, v) # ms) \<longleftrightarrow> parsable v \<and> parsable_members ms"
| "parsable_elements [] \<longleftrightarrow> True"
| "parsable_elements (v # vs) \<longleftrightarrow> parsable v \<and> parsable_elements vs"

lemma char_of_34 [simp]: "char_of (34 :: nat) = CHR 0x22"
  by (rule escaped_char_of)

lemma SkipWhitespace_id: "\<not> json_ws (Peek s) \<Longrightarrow> SkipWhitespace s = s"
  by (cases s) (simp_all add: SkipWhitespace_def)

lemma json_ws_simps [simp]:
  "json_ws CHR '','' = False" "json_ws CHR '':'' = False" "json_ws CHR ''}'' = False"
  "json_ws CHR '']'' = False" "json_ws CHR 0x22 = False"
  "json_ws CHR ''{'' = False" "json_ws CHR ''['' = False" "json_ws NUL = False"
  by (simp_all add: json_ws_def NUL_def)

definition number_start :: "char \<Rightarrow> bool" where
  "number_start c \<longleftrightarrow> isdigit c \<or> c = CHR ''-''"

lemma show_int_start: "number_start (Peek (show_int i @ r)) \<and> show_int i \<noteq> []"
  by (cases "show_nat (nat i)") 
    (use show_nat_digits[of "nat i"] in \<open>auto simp: show_int_def number_start_def\<close>)

definition value_start :: "char \<Rightarrow> bool" where
  "value_start c \<longleftrightarrow> c \<in> {CHR ''n'', CHR ''t'', CHR ''f'', CHR 0x22, CHR ''['', CHR ''{''} \<or> number_start c"

lemma serialize_start: "parsable v \<Longrightarrow> value_start (Peek (serialize v @ r)) \<and> serialize v \<noteq> []"
  using show_int_start by (cases v) (auto simp: value_start_def WriteString_def)

lemma value_start_not_ws: "value_start c \<Longrightarrow> \<not> json_ws c \<and> c \<noteq> CHR '']''"
  by (auto simp: value_start_def number_start_def json_ws_def isdigit_def)

lemma Peek_elements:
  "parsable_elements vs \<Longrightarrow> vs \<noteq> [] \<Longrightarrow> value_start (Peek (serialize_elements vs @ r))"
  using serialize_start by (cases vs) auto

lemma Peek_WriteString [simp]: "Peek (WriteString k @ r) = CHR 0x22"
  by (simp add: WriteString_def)

lemma Peek_members: "ms \<noteq> [] \<Longrightarrow> Peek (serialize_members ms @ r) = CHR 0x22"
  by (cases ms) auto

lemma ends_number_simps [simp]:
  "ends_number (CHR '','' # r)" "ends_number (CHR ''}'' # r)" "ends_number (CHR '']'' # r)" "ends_number []"
  by (simp_all add: ends_number_def isdigit_def NUL_Char)

lemma ParseValue_number:
  "number_start (Peek s) \<Longrightarrow> ParseValue (Suc n) s = ParseNumber s"
  by (auto simp: ParseValue.simps(2) number_start_def isdigit_def)

lemma ParseValue_serialize:
  "parsable v \<Longrightarrow> 2 * length (serialize v) + 1 \<le> n \<Longrightarrow> ends_number r \<Longrightarrow>
     ParseValue n (serialize v @ r) = Inr (v, r)"
  "parsable_members ms \<Longrightarrow> ms \<noteq> [] \<Longrightarrow> 2 * length (serialize_members ms) + 2 \<le> n \<Longrightarrow>
     ParseMembers n (serialize_members ms @ CHR ''}'' # r) = Inr (ms, r)"
  "parsable_elements vs \<Longrightarrow> vs \<noteq> [] \<Longrightarrow> 2 * length (serialize_elements vs) + 2 \<le> n \<Longrightarrow>
     ParseElements n (serialize_elements vs @ CHR '']'' # r) = Inr (vs, r)"
proof (induction v and ms and vs arbitrary: n r and n r and n r
    rule: parsable_parsable_members_parsable_elements.induct)
  case (3 i)
  obtain m where n: "n = Suc m" using 3 by (cases n) auto
  show ?case
  proof (cases "i < 0")
    case True
    with 3 have "nat (- i) \<le> 2 ^ 63" by simp
    from ParseNumber_show_neg[OF this 3(3)] True show ?thesis
      using show_int_start[of i r] by (simp add: n ParseValue_number show_int_def)
  next
    case False
    with 3 have "nat i < 2 ^ 64" by simp
    from ParseNumber_show_nat[OF this 3(3)] False show ?thesis
      using show_int_start[of i r] by (simp add: n ParseValue_number show_int_def)
  qed
next
  case (5 s)
  then obtain m where "n = Suc m" by (cases n) auto
  then show ?case
    by (simp add: ParseValue.simps(2) ParseString_WriteString)
next
  case (6 vs)
  then obtain m where n: "n = Suc m" by (cases n) auto
  show ?case
  proof (cases "vs = []")
    case True
    then show ?thesis by (simp add: n ParseValue.simps(2) SkipWhitespace_id Let_def)
  next
    case False
    with 6 have "value_start (Peek (serialize_elements vs @ CHR '']'' # r))"
      by (simp add: Peek_elements)
    with value_start_not_ws False 6 show ?thesis
      by (simp add: n ParseValue.simps(2) SkipWhitespace_id Let_def)
  qed
next
  case (7 ms)
  then obtain m where n: "n = Suc m" by (cases n) auto
  show ?case
  proof (cases "ms = []")
    case True
    then show ?thesis by (simp add: n ParseValue.simps(2) SkipWhitespace_id Let_def)
  next
    case False
    with 7 Peek_members[of ms] show ?thesis
      by (simp add: n ParseValue.simps(2) SkipWhitespace_id Let_def)
  qed
next
  case (9 k v ms)
  then obtain m where n: "n = Suc m" by (cases n) auto
  let ?r = "(if ms = [] then [] else '','' @ serialize_members ms) @ CHR ''}'' # r"
  have v: "ParseValue m (serialize v @ ?r) = Inr (v, ?r)"
    using 9 by (intro 9) (simp_all add: n)
  have "\<not> json_ws (Peek (serialize v @ ?r))"
    using serialize_start[of v] value_start_not_ws 9 by simp
  then have skip: "SkipWhitespace (serialize v @ ?r) = serialize v @ ?r"
    by (rule SkipWhitespace_id)
  have ms: "ParseMembers m (serialize_members ms @ CHR ''}'' # r) = Inr (ms, r)" if "ms \<noteq> []"
    using 9 that by (intro 9) (simp_all add: n)
  show ?case
    using v skip ms Peek_members[of ms]
    by (simp add: n ParseMembers.simps(2) ParseString_WriteString SkipWhitespace_id Let_def
        split: if_splits)
next
  case (11 v vs)
  then obtain m where n: "n = Suc m" by (cases n) auto
  let ?r = "(if vs = [] then [] else '','' @ serialize_elements vs) @ CHR '']'' # r"
  have v: "ParseValue m (serialize v @ ?r) = Inr (v, ?r)"
    using 11 by (intro 11) (simp_all add: n)
  have vs: "ParseElements m (serialize_elements vs @ CHR '']'' # r) = Inr (vs, r)" if "vs \<noteq> []"
    using 11 that by (intro 11) (simp_all add: n)
  have "\<not> json_ws (Peek (serialize_elements vs @ CHR '']'' # r))" if "vs \<noteq> []"
    using Peek_elements[of vs] value_start_not_ws that 11 by simp
  then show ?case
    using v vs
    by (simp add: n ParseElements.simps(2) SkipWhitespace_id Let_def split: if_splits)
next
  case (1 n r)
  then obtain m where "n = Suc m" by (cases n) auto
  then show ?case by (simp add: ParseValue.simps(2) ParseWord_def)
next
  case (2 b n r)
  then obtain m where "n = Suc m" by (cases n) auto
  then show ?case by (simp add: ParseValue.simps(2) ParseWord_def)
qed simp_all

lemma write_char_no_NUL: "NUL \<notin> set (write_char c)"
proof (cases "escape c = Some CHR ''u''")
  case True
  have "CHR 0x00 \<noteq> hexDigit d" if "d < 16" for d
  proof
    assume "CHR 0x00 = hexDigit d"
    then have "isxdigit CHR 0x00" using hexDigit_xdigit(1)[OF that] by simp
    then show False by (simp add: isxdigit_def isdigit_def)
  qed
  moreover have "code c div 16 < 16"
    using of_char_mod_256[of c, where 'a = nat] mod_less_divisor[of 256 "code c"] by linarith
  ultimately show ?thesis
    using True by (simp add: write_char_def escaped_char_of NUL_Char)
next
  case False
  have "escape CHR 0x00 = Some CHR ''u''" by (simp add: escape_def)
  with False show ?thesis
    by (auto simp: write_char_def escape_def escaped_char_of NUL_Char Let_def split: option.splits if_splits)
qed

lemma serialize_no_NUL:
  "parsable v \<Longrightarrow> NUL \<notin> set (serialize v)"
  "parsable_members ms \<Longrightarrow> NUL \<notin> set (serialize_members ms)"
  "parsable_elements vs \<Longrightarrow> NUL \<notin> set (serialize_elements vs)"
proof (induction v and ms and vs rule: parsable_parsable_members_parsable_elements.induct)
  case (3 i)
  have "NUL \<notin> set (show_nat n)" for n
    using show_nat_digits[of n] by (auto simp: isdigit_def NUL_Char)
  then show ?case by (simp add: show_int_def NUL_Char)
qed (use write_char_no_NUL in \<open>auto simp: WriteString_def NUL_Char\<close>)

text \<open>Reading back what the writer prints.\<close>

lemma Parse_serialize:
  assumes "parsable v"
  shows "Parse (serialize v) = Inr v"
proof -
  have "value_start (Peek (serialize v))" "serialize v \<noteq> []"
    using serialize_start[OF assms, of "[]"] by simp_all
  moreover have "ParseValue (2 * length (serialize v) + 2) (serialize v) = Inr (v, [])"
    using ParseValue_serialize(1)[OF assms, of _ "[]"] by simp
  ultimately show ?thesis
    using value_start_not_ws
    by (simp add: Parse_def c_str_id serialize_no_NUL assms SkipWhitespace_id)
qed

end
