(* ===== verification/Database.thy ===== *)
theory Database
  imports Prelude
begin

text \<open>
  \<open>server/src/database.hpp\<close> and \<open>server/src/inmemory_dbconn.cpp\<close>: the rows of the chat
  database, the in-memory storage \<open>InMemoryConnection::m_Storage\<close> and every operation of
  \<open>InMemoryConnection\<close>, as state-passing functions over the storage. Each operation of
  the code runs under \<open>m_Mutex\<close>. The last sections hold the storage invariant and the
  lemmas that every operation keeps it.
\<close>

section \<open>Rows\<close>

record db_chat =
  chat_id :: u64
  chat_name :: string

record db_user =
  user_id :: u64
  self_chat_id :: u64
  heartbit :: u64
  user_name :: string
  password :: string
  stpath :: string

record db_chatuser =
  cu_chatid :: u64
  cu_uid :: u64

record get_msg_opt_t =
  opt_ts :: u64
  max_count :: u32

datatype flags_t = UNREAD | READ | ANSWERED

record db_message =
  flags :: flags_t
  user_from :: u64
  chat_to :: u64
  ts :: u64
  message :: string

text \<open>The default constructors, which the code returns as \<open>{}\<close> for "not found".\<close>

definition no_chat :: db_chat where
  "no_chat = \<lparr>chat_id = 0, chat_name = []\<rparr>"

definition no_user :: db_user where
  "no_user = \<lparr>user_id = 0, self_chat_id = 0, heartbit = 0, user_name = [], password = [], stpath = []\<rparr>"

definition default_opt :: get_msg_opt_t where
  "default_opt = \<lparr>opt_ts = 0, max_count = 3\<rparr>"

definition mk_chat :: "u64 \<Rightarrow> string \<Rightarrow> db_chat" where
  "mk_chat i name = \<lparr>chat_id = i, chat_name = name\<rparr>"

definition mk_user :: "u64 \<Rightarrow> u64 \<Rightarrow> string \<Rightarrow> string \<Rightarrow> string \<Rightarrow> db_user" where
  "mk_user i chatid name pass path =
     \<lparr>user_id = i, self_chat_id = chatid, heartbit = 0, user_name = name, password = pass, stpath = path\<rparr>"

definition mk_chatuser :: "u64 \<Rightarrow> u64 \<Rightarrow> db_chatuser" where
  "mk_chatuser chatid uid = \<lparr>cu_chatid = chatid, cu_uid = uid\<rparr>"

definition mk_message :: "u64 \<Rightarrow> u64 \<Rightarrow> string \<Rightarrow> db_message" where
  "mk_message from_id to_id msg =
     \<lparr>flags = UNREAD, user_from = from_id, chat_to = to_id, ts = 0, message = msg\<rparr>"

lemmas row_defs = no_chat_def no_user_def mk_chat_def mk_user_def mk_chatuser_def mk_message_def

section \<open>The storage and its operations\<close>

record storage =
  user_autoincrement :: u64
  chat_autoincrement :: u64
  chats :: "db_chat list"
  users :: "db_user list"
  chatuser :: "db_chatuser list"
  messages :: "db_message list"

definition empty_storage :: storage where
  "empty_storage = \<lparr>user_autoincrement = 1, chat_autoincrement = 1,
     chats = [], users = [], chatuser = [], messages = []\<rparr>"

fun set_heartbit :: "u64 \<Rightarrow> u64 \<Rightarrow> db_user list \<Rightarrow> db_user list" where
  "set_heartbit i t [] = []"
| "set_heartbit i t (u # us) =
     (if user_id u = i then u\<lparr>heartbit := t\<rparr> # us else u # set_heartbit i t us)"

definition updateUserHeartBit :: "db_user \<Rightarrow> u64 \<Rightarrow> storage \<Rightarrow> storage" where
  "updateUserHeartBit user t st = st\<lparr>users := set_heartbit (user_id user) t (users st)\<rparr>"

definition createUser :: "string \<Rightarrow> string \<Rightarrow> string \<Rightarrow> storage \<Rightarrow> db_user \<times> storage" where
  "createUser name pass path st =
     (if \<exists>u \<in> set (users st). user_name u = name then (no_user, st)
      else
        let new_chat_id = chat_autoincrement st;
            new_user_id = user_autoincrement st;
            user = mk_user new_user_id new_chat_id name pass path
        in (user,
            st\<lparr>chat_autoincrement := chat_autoincrement st + 1,
               user_autoincrement := user_autoincrement st + 1,
               chats := chats st @ [mk_chat new_chat_id name],
               users := users st @ [user],
               chatuser := chatuser st @ [mk_chatuser new_chat_id new_user_id]\<rparr>))"

definition createChat :: "string \<Rightarrow> u64 \<Rightarrow> storage \<Rightarrow> db_chat \<times> storage" where
  "createChat name uid st =
     (if \<exists>c \<in> set (chats st). chat_name c = name then (no_chat, st)
      else
        let new_chat_id = chat_autoincrement st;
            chat = mk_chat new_chat_id name
        in (chat,
            st\<lparr>chat_autoincrement := chat_autoincrement st + 1,
               chats := chats st @ [chat],
               chatuser := (if uid > 0 then chatuser st @ [mk_chatuser new_chat_id uid]
                            else chatuser st)\<rparr>))"

definition lookupUserByName :: "string \<Rightarrow> storage \<Rightarrow> db_user list" where
  "lookupUserByName name st = filter (\<lambda>u. user_name u = name) (users st)"

definition lookupUserById :: "u64 \<Rightarrow> storage \<Rightarrow> db_user" where
  "lookupUserById i st =
     (case List.find (\<lambda>u. user_id u = i) (users st) of Some u \<Rightarrow> u | None \<Rightarrow> no_user)"

definition lookupChatByName :: "string \<Rightarrow> storage \<Rightarrow> db_chat list" where
  "lookupChatByName name st = filter (\<lambda>c. chat_name c = name) (chats st)"

definition lookupChatById :: "u64 \<Rightarrow> storage \<Rightarrow> db_chat" where
  "lookupChatById i st =
     (case List.find (\<lambda>c. chat_id c = i) (chats st) of Some c \<Rightarrow> c | None \<Rightarrow> no_chat)"

definition lookupChatsForUserId :: "u64 \<Rightarrow> storage \<Rightarrow> db_chat list" where
  "lookupChatsForUserId uid st =
     (let ids = map cu_chatid (filter (\<lambda>cu. cu_uid cu = uid) (chatuser st))
      in map (\<lambda>i. lookupChatById i st) ids)"

definition lookupUsersForChatId :: "u64 \<Rightarrow> storage \<Rightarrow> db_user list" where
  "lookupUsersForChatId chatid st =
     (let ids = map cu_uid (filter (\<lambda>cu. cu_chatid cu = chatid) (chatuser st))
      in map (\<lambda>i. lookupUserById i st) ids)"

definition addUserToChat :: "db_chat \<Rightarrow> db_user \<Rightarrow> storage \<Rightarrow> storage" where
  "addUserToChat chat user st =
     (if \<exists>cu \<in> set (chatuser st). cu_chatid cu = chat_id chat \<and> cu_uid cu = user_id user then st
      else st\<lparr>chatuser := chatuser st @ [mk_chatuser (chat_id chat) (user_id user)]\<rparr>)"

definition saveMessage :: "db_message \<Rightarrow> storage \<Rightarrow> storage" where
  "saveMessage msg st = st\<lparr>messages := messages st @ [msg]\<rparr>"

text \<open>
  The loop of \<open>getMessages\<close>: \<open>i\<close> runs from the newest message down to 0; a matching
  message is copied to the result and then flagged as read in the storage.
\<close>

definition wanted :: "u64 \<Rightarrow> get_msg_opt_t \<Rightarrow> db_message \<Rightarrow> bool" where
  "wanted chatid opt m \<longleftrightarrow> chat_to m = chatid \<and> ts m > opt_ts opt"

fun getMessages_loop ::
  "u64 \<Rightarrow> get_msg_opt_t \<Rightarrow> nat \<Rightarrow> db_message list \<Rightarrow> db_message list \<Rightarrow> db_message list \<times> db_message list" where
  "getMessages_loop chatid opt i ret msgs =
     (let hit = wanted chatid opt (msgs ! i);
          ret' = (if hit then ret @ [msgs ! i] else ret);
          msgs' = (if hit then msgs[i := (msgs ! i)\<lparr>flags := READ\<rparr>] else msgs)
      in if max_count opt \<noteq> 0 \<and> length ret' \<ge> unat (max_count opt) then (ret', msgs')
         else (case i of 0 \<Rightarrow> (ret', msgs') | Suc j \<Rightarrow> getMessages_loop chatid opt j ret' msgs'))"

definition getMessages :: "u64 \<Rightarrow> get_msg_opt_t \<Rightarrow> storage \<Rightarrow> db_message list \<times> storage" where
  "getMessages chatid opt st =
     (if messages st = [] then ([], st)
      else (case getMessages_loop chatid opt (length (messages st) - 1) [] (messages st) of
              (ret, msgs) \<Rightarrow> (ret, st\<lparr>messages := msgs\<rparr>)))"

fun selectMessages_loop ::
  "(db_message \<Rightarrow> bool) \<Rightarrow> u32 \<Rightarrow> nat \<Rightarrow> db_message list \<Rightarrow> db_message list \<Rightarrow> db_message list" where
  "selectMessages_loop pred maxc i ret msgs =
     (let ret' = (if pred (msgs ! i) then ret @ [msgs ! i] else ret)
      in if maxc \<noteq> 0 \<and> length ret' \<ge> unat maxc then ret'
         else (case i of 0 \<Rightarrow> ret' | Suc j \<Rightarrow> selectMessages_loop pred maxc j ret' msgs))"

definition selectMessages :: "(db_message \<Rightarrow> bool) \<Rightarrow> get_msg_opt_t \<Rightarrow> storage \<Rightarrow> db_message list" where
  "selectMessages pred opt st =
     (if messages st = [] then []
      else selectMessages_loop pred (max_count opt) (length (messages st) - 1) [] (messages st))"

declare getMessages_loop.simps [simp del] selectMessages_loop.simps [simp del]

section \<open>What the loops compute\<close>

lemma rev_take_Suc: "i < length xs \<Longrightarrow> rev (take (Suc i) xs) = xs ! i # rev (take i xs)"
  by (simp add: take_Suc_conv_app_nth)

lemma take_max_snoc_done:
  "0 < n \<Longrightarrow> length r = n \<Longrightarrow> take_max n (r @ ys) = r"
  by (simp add: take_max_def)

lemma unat_eq_0_u32 [simp]: "unat (w :: u32) = 0 \<longleftrightarrow> w = 0"
  by (simp add: unat_eq_zero)

lemma selectMessages_loop_eq:
  assumes "i < length msgs" "maxc = 0 \<or> length ret < unat maxc"
  shows "selectMessages_loop pred maxc i ret msgs =
           take_max (unat maxc) (ret @ filter pred (rev (take (Suc i) msgs)))"
  using assms
proof (induction i arbitrary: ret)
  case 0
  then show ?case
    by (subst selectMessages_loop.simps) (auto simp: Let_def rev_take_Suc take_max_def)
next
  case (Suc i)
  define r where "r = (if pred (msgs ! Suc i) then ret @ [msgs ! Suc i] else ret)"
  have split: "ret @ filter pred (rev (take (Suc (Suc i)) msgs)) = r @ filter pred (rev (take (Suc i) msgs))"
    using Suc.prems(1) by (simp add: rev_take_Suc r_def)
  have step: "selectMessages_loop pred maxc (Suc i) ret msgs =
      (if maxc \<noteq> 0 \<and> length r \<ge> unat maxc then r else selectMessages_loop pred maxc i r msgs)"
    by (subst selectMessages_loop.simps) (simp add: Let_def r_def)
  show ?case
  proof (cases "maxc \<noteq> 0 \<and> length r \<ge> unat maxc")
    case True
    with Suc.prems(2) have "length r = unat maxc" "0 < unat maxc"
      by (auto simp: r_def unat_gt_0 split: if_splits)
    with True show ?thesis
      unfolding split step by (simp add: take_max_snoc_done)
  next
    case False
    with Suc.prems have "selectMessages_loop pred maxc i r msgs =
        take_max (unat maxc) (r @ filter pred (rev (take (Suc i) msgs)))"
      by (intro Suc.IH) auto
    with False show ?thesis
      unfolding split step by auto
  qed
qed

lemma selectMessages_eq:
  "selectMessages pred opt st = take_max (unat (max_count opt)) (filter pred (rev (messages st)))"
proof (cases "messages st = []")
  case True
  then show ?thesis by (simp add: selectMessages_def take_max_def)
next
  case False
  then have "max_count opt = 0 \<or> length ([] :: db_message list) < unat (max_count opt)"
    by (auto simp: unat_gt_0)
  with False show ?thesis
    by (simp add: selectMessages_def selectMessages_loop_eq)
qed

text \<open>
  \<open>getMessages\<close> scans a window of the log that ends at the newest message. It returns
  the wanted messages of the window, newest first, and exactly these are flagged as read.
\<close>

definition mark_read :: "u64 \<Rightarrow> get_msg_opt_t \<Rightarrow> db_message \<Rightarrow> db_message" where
  "mark_read chatid opt m = (if wanted chatid opt m then m\<lparr>flags := READ\<rparr> else m)"

lemma getMessages_loop_window:
  assumes "i < length msgs" "max_count opt = 0 \<or> length ret < unat (max_count opt)"
  shows "\<exists>k \<le> i.
    getMessages_loop chatid opt i ret msgs =
      (ret @ filter (wanted chatid opt) (rev (drop k (take (Suc i) msgs))),
       take k msgs @ map (mark_read chatid opt) (drop k (take (Suc i) msgs)) @ drop (Suc i) msgs)
    \<and> (k = 0 \<or> max_count opt \<noteq> 0 \<and>
         length (ret @ filter (wanted chatid opt) (rev (drop k (take (Suc i) msgs)))) = unat (max_count opt))
    \<and> (max_count opt = 0 \<or>
         length (ret @ filter (wanted chatid opt) (rev (drop k (take (Suc i) msgs)))) \<le> unat (max_count opt))"
  using assms
proof (induction i arbitrary: ret msgs)
  case 0
  then obtain m ms where "msgs = m # ms" by (cases msgs) auto
  with 0 show ?case
    by (subst getMessages_loop.simps) (auto simp: Let_def mark_read_def)
next
  case (Suc i)
  define m r where "m = (if wanted chatid opt (msgs ! Suc i) then msgs[Suc i := (msgs ! Suc i)\<lparr>flags := READ\<rparr>] else msgs)"
    and "r = (if wanted chatid opt (msgs ! Suc i) then ret @ [msgs ! Suc i] else ret)"
  have step: "getMessages_loop chatid opt (Suc i) ret msgs =
      (if max_count opt \<noteq> 0 \<and> length r \<ge> unat (max_count opt) then (r, m)
       else getMessages_loop chatid opt i r m)"
    by (subst getMessages_loop.simps) (simp add: Let_def m_def r_def)
  have m_take: "take k m = take k msgs" if "k \<le> Suc i" for k
    using that by (simp add: m_def)
  have m_drop: "drop (Suc i) m = mark_read chatid opt (msgs ! Suc i) # drop (Suc (Suc i)) msgs"
    using Suc.prems(1) by (simp add: m_def mark_read_def drop_update_swap Cons_nth_drop_Suc [symmetric])
  have m_len: "length m = length msgs"
    by (simp add: m_def)
  have t: "drop k (take (Suc (Suc i)) msgs) = drop k (take (Suc i) msgs) @ [msgs ! Suc i]"
    if "k \<le> Suc i" for k
    using that Suc.prems(1) by (simp add: take_Suc_conv_app_nth [of "Suc i"])
  have ret_eq: "r @ filter (wanted chatid opt) (rev (drop k (take (Suc i) msgs))) =
      ret @ filter (wanted chatid opt) (rev (drop k (take (Suc (Suc i)) msgs)))"
    if "k \<le> Suc i" for k
    using that by (simp add: t r_def)
  have out_eq: "take k m @ map (mark_read chatid opt) (drop k (take (Suc i) m)) @ drop (Suc i) m =
      take k msgs @ map (mark_read chatid opt) (drop k (take (Suc (Suc i)) msgs)) @ drop (Suc (Suc i)) msgs"
    if "k \<le> Suc i" for k
    using that by (simp add: m_take m_drop t)
  show ?case
  proof (cases "max_count opt \<noteq> 0 \<and> length r \<ge> unat (max_count opt)")
    case True
    with Suc.prems(2) have "length r = unat (max_count opt)"
      by (auto simp: r_def split: if_splits)
    with True show ?thesis
      using ret_eq [of "Suc i"] out_eq [of "Suc i"] m_take [of "Suc i"]
        append_take_drop_id [of "Suc i" m]
      by (intro exI [of _ "Suc i"]) (auto simp: step)
  next
    case False
    with Suc.prems have "i < length m" "max_count opt = 0 \<or> length r < unat (max_count opt)"
      by (auto simp: m_len)
    from Suc.IH [OF this] obtain k where k: "k \<le> i"
      and "getMessages_loop chatid opt i r m =
        (r @ filter (wanted chatid opt) (rev (drop k (take (Suc i) m))),
         take k m @ map (mark_read chatid opt) (drop k (take (Suc i) m)) @ drop (Suc i) m)"
      and "k = 0 \<or> max_count opt \<noteq> 0 \<and>
         length (r @ filter (wanted chatid opt) (rev (drop k (take (Suc i) m)))) = unat (max_count opt)"
      and "max_count opt = 0 \<or>
         length (r @ filter (wanted chatid opt) (rev (drop k (take (Suc i) m)))) \<le> unat (max_count opt)"
      by blast
    then show ?thesis
      using False ret_eq [of k] out_eq [of k] m_take [of "Suc i"]
      by (intro exI [of _ k]) (auto simp: step)
  qed
qed

lemma getMessages_window:
  "\<exists>k \<le> length (messages st).
    getMessages chatid opt st =
      (filter (wanted chatid opt) (rev (drop k (messages st))),
       st\<lparr>messages := take k (messages st) @ map (mark_read chatid opt) (drop k (messages st))\<rparr>)
    \<and> (k = 0 \<or> max_count opt \<noteq> 0 \<and>
         length (filter (wanted chatid opt) (rev (drop k (messages st)))) = unat (max_count opt))
    \<and> (max_count opt = 0 \<or>
         length (filter (wanted chatid opt) (rev (drop k (messages st)))) \<le> unat (max_count opt))"
proof (cases "messages st = []")
  case True
  then show ?thesis by (cases st) (simp add: getMessages_def)
next
  case False
  let ?n = "length (messages st) - 1"
  from False have "?n < length (messages st)"
    "max_count opt = 0 \<or> length ([] :: db_message list) < unat (max_count opt)"
    by (auto simp: unat_gt_0)
  from getMessages_loop_window [OF this] obtain k where "k \<le> ?n" and
    "getMessages_loop chatid opt ?n [] (messages st) =
      (filter (wanted chatid opt) (rev (drop k (messages st))),
       take k (messages st) @ map (mark_read chatid opt) (drop k (messages st)))"
    "k = 0 \<or> max_count opt \<noteq> 0 \<and>
         length (filter (wanted chatid opt) (rev (drop k (messages st)))) = unat (max_count opt)"
    "max_count opt = 0 \<or>
         length (filter (wanted chatid opt) (rev (drop k (messages st)))) \<le> unat (max_count opt)"
    using False by auto
  with False show ?thesis
    by (intro exI [of _ k]) (auto simp: getMessages_def)
qed

lemma getMessages_fst:
  "fst (getMessages chatid opt st) =
     take_max (unat (max_count opt)) (filter (wanted chatid opt) (rev (messages st)))"
proof -
  obtain k where k: "fst (getMessages chatid opt st) = filter (wanted chatid opt) (rev (drop k (messages st)))"
    and lim: "k = 0 \<or> max_count opt \<noteq> 0 \<and>
         length (filter (wanted chatid opt) (rev (drop k (messages st)))) = unat (max_count opt)"
    and bound: "max_count opt = 0 \<or>
         length (filter (wanted chatid opt) (rev (drop k (messages st)))) \<le> unat (max_count opt)"
    using getMessages_window [of st chatid opt] by (metis fst_conv)
  let ?new = "filter (wanted chatid opt) (rev (drop k (messages st)))"
  have "rev (messages st) = rev (drop k (messages st)) @ rev (take k (messages st))"
    by (metis append_take_drop_id rev_append)
  then have all: "filter (wanted chatid opt) (rev (messages st)) =
      ?new @ filter (wanted chatid opt) (rev (take k (messages st)))"
    by simp
  from lim show ?thesis
  proof
    assume "k = 0"
    with bound k show ?thesis by (auto simp: take_max_def)
  next
    assume "max_count opt \<noteq> 0 \<and> length ?new = unat (max_count opt)"
    with k show ?thesis unfolding all by (simp add: take_max_snoc_done unat_gt_0)
  qed
qed

text \<open>Reading flags messages as read and changes nothing else.\<close>

definition unflag :: "db_message \<Rightarrow> db_message" where
  "unflag m = m\<lparr>flags := UNREAD\<rparr>"

lemma unflag_mark_read [simp]: "unflag (mark_read chatid opt m) = unflag m"
  by (simp add: unflag_def mark_read_def)

lemma getMessages_unflag:
  "map unflag (messages (snd (getMessages chatid opt st))) = map unflag (messages st)"
proof -
  obtain k where "snd (getMessages chatid opt st) =
      st\<lparr>messages := take k (messages st) @ map (mark_read chatid opt) (drop k (messages st))\<rparr>"
    using getMessages_window [of st chatid opt] by (metis snd_conv)
  moreover have "unflag \<circ> mark_read chatid opt = unflag"
    by (rule ext) simp
  moreover have "map unflag (take k (messages st)) @ map unflag (drop k (messages st)) = map unflag (messages st)"
    by (simp add: map_append [symmetric] del: map_append)
  ultimately show ?thesis
    by simp
qed

lemma getMessages_frame [simp]:
  "users (snd (getMessages chatid opt st)) = users st"
  "chats (snd (getMessages chatid opt st)) = chats st"
  "chatuser (snd (getMessages chatid opt st)) = chatuser st"
  "user_autoincrement (snd (getMessages chatid opt st)) = user_autoincrement st"
  "chat_autoincrement (snd (getMessages chatid opt st)) = chat_autoincrement st"
  using getMessages_window [of st chatid opt] by auto

end
