(* ===== verification/Api.thy ===== *)
theory Api
  imports Json_Reader Str_Utils Database
begin

text \<open>
  The server's API messages: the command codes of \<open>common/common.hpp\<close>, the request
  parameters of \<open>request.hpp\<close>, the response bodies of \<open>server/src/apiclient_utils.cpp\<close>
  and the parser \<open>parse_meta\<close> of a request body with the response builders of
  \<open>server/src/apiclient.cpp\<close>. \<open>time(NULL)\<close> is the argument \<open>now\<close>, the option
  \<open>pass_len\<close> of the configuration an argument of \<open>parse_meta\<close>. A result \<open>None\<close> is a
  failed \<open>RAPIDJSON_ASSERT\<close>, which aborts the process.
\<close>

section \<open>Commands and request parameters\<close>

datatype cmd_t =
    MESSAGE_SEND | MESSAGE_SEND_CHAT | USER_CREATE | USER_LOGIN | USER_HISTORY | USER_STATUS
  | CHAT_CREATE | CHAT_HISTORY | CHAT_STATUS | CHAT_ADDUSER | MESSAGE_RECENT | IDLE | CMD_LAST

fun cmd_code :: "cmd_t \<Rightarrow> nat" where
  "cmd_code MESSAGE_SEND = 1"
| "cmd_code MESSAGE_SEND_CHAT = 2"
| "cmd_code USER_CREATE = 3"
| "cmd_code USER_LOGIN = 4"
| "cmd_code USER_HISTORY = 5"
| "cmd_code USER_STATUS = 6"
| "cmd_code CHAT_CREATE = 7"
| "cmd_code CHAT_HISTORY = 8"
| "cmd_code CHAT_STATUS = 9"
| "cmd_code CHAT_ADDUSER = 10"
| "cmd_code MESSAGE_RECENT = 11"
| "cmd_code IDLE = 12"
| "cmd_code CMD_LAST = 13"

fun cmd2string :: "cmd_t \<Rightarrow> string" where
  "cmd2string MESSAGE_SEND = ''/v1/message/send''"
| "cmd2string MESSAGE_SEND_CHAT = ''/v1/message/sendchat''"
| "cmd2string USER_CREATE = ''/v1/user/create''"
| "cmd2string USER_LOGIN = ''/v1/user/login''"
| "cmd2string CHAT_CREATE = ''/v1/chat/create''"
| "cmd2string USER_HISTORY = ''/v1/user/history''"
| "cmd2string CHAT_HISTORY = ''/v1/group/history''"
| "cmd2string USER_STATUS = ''/v1/user/status''"
| "cmd2string CHAT_STATUS = ''/v1/chat/status''"
| "cmd2string CHAT_ADDUSER = ''/v1/chat/adduser''"
| "cmd2string MESSAGE_RECENT = ''/v1/message/recent''"
| "cmd2string IDLE = ''/v1/idle''"
| "cmd2string CMD_LAST = ''undefined_cmd''"

datatype ApiStatusCode = ERR_NONE | ERR_BAD_REQUEST | ERR_INTERNAL | ERR_NOT_FOUND | ERR_CONSTRAINT

fun api_code :: "ApiStatusCode \<Rightarrow> nat" where
  "api_code ERR_NONE = 0"
| "api_code ERR_BAD_REQUEST = 1"
| "api_code ERR_INTERNAL = 2"
| "api_code ERR_NOT_FOUND = 3"
| "api_code ERR_CONSTRAINT = 4"

text \<open>\<open>RequestDetails::Params\<close>; \<open>RequestDetails\<close> without the fields only the log reads.\<close>

record params =
  p_uid :: u64
  p_ts :: u64
  p_count :: u64
  p_message :: string
  p_to_user :: string
  p_user :: string
  p_password :: string
  p_chat_name :: string
  p_chat_adduser :: string

definition no_params :: params where
  "no_params = \<lparr>p_uid = 0, p_ts = 0, p_count = 0, p_message = [], p_to_user = [], p_user = [],
     p_password = [], p_chat_name = [], p_chat_adduser = []\<rparr>"

text \<open>\<open>apiclient_utils::Message\<close>.\<close>

record api_message =
  am_ts :: u64
  am_from :: string
  am_to :: string
  am_msg :: string

section \<open>Response bodies\<close>

definition password_check :: "string \<Rightarrow> nat \<Rightarrow> bool" where
  "password_check pw min_len =
     (if length pw < min_len then False
      else list_all (\<lambda>c. islower c \<or> isupper c \<or> isdigit c \<or> c = CHR ''_'') pw)"

definition make_api_error :: "ApiStatusCode \<Rightarrow> string \<Rightarrow> string option" where
  "make_api_error c desc =
     document [wStartObject,
       wKey ''status'', wUint64 (of_nat (api_code c)),
       wKey ''error'', wString desc,
       wEndObject]"

definition ok_body_cmd :: "u64 \<Rightarrow> cmd_t \<Rightarrow> string option" where
  "ok_body_cmd now command =
     document [wStartObject,
       wKey ''cmd'', wUint64 (of_nat (cmd_code command)),
       wKey ''server_ts'', wUint64 now,
       wEndObject]"

definition ok_body_user :: "u64 \<Rightarrow> db_user \<Rightarrow> string option" where
  "ok_body_user now user =
     document [wStartObject,
       wKey ''id'', wUint64 (user_id user),
       wKey ''chatid'', wUint64 (self_chat_id user),
       wKey ''heartbit'', wUint64 (heartbit user),
       wKey ''name'', wString (user_name user),
       wKey ''server_ts'', wUint64 now,
       wEndObject]"

definition ok_body_chat :: "u64 \<Rightarrow> db_chat \<Rightarrow> string option" where
  "ok_body_chat now chat =
     document [wStartObject,
       wKey ''chatid'', wUint64 (chat_id chat),
       wKey ''name'', wString (chat_name chat),
       wKey ''server_ts'', wUint64 now,
       wEndObject]"

definition message_calls :: "api_message \<Rightarrow> (writer \<Rightarrow> writer option) list" where
  "message_calls msg =
     [wStartObject,
       wKey ''from'', wString (am_from msg),
       wKey ''to'', wString (am_to msg),
       wKey ''message'', wString (am_msg msg),
       wKey ''ts'', wUint64 (am_ts msg),
       wEndObject]"

definition ok_body_msgs :: "u64 \<Rightarrow> api_message list \<Rightarrow> string option" where
  "ok_body_msgs now msgs =
     document ([wStartObject,
       wKey ''server_ts'', wUint64 now,
       wKey ''msgs'', wStartArray] @ concat (map message_calls msgs) @ [wEndArray, wEndObject])"

section \<open>Reading a request body\<close>

definition find_required_string_param :: "json \<Rightarrow> string \<Rightarrow> (string + string) option" where
  "find_required_string_param doc pattern =
     (case FindMember pattern doc of
        None \<Rightarrow> None
      | Some None \<Rightarrow> Some (Inl (''bad request, '' @ pattern @ '' required''))
      | Some (Some v) \<Rightarrow>
          (case GetString v of
             None \<Rightarrow> Some (Inl (''bad request, '' @ pattern @ '' is not string''))
           | Some s \<Rightarrow>
               if s = [] then Some (Inl (''bad request, '' @ pattern @ '' is empty''))
               else Some (Inr s)))"

definition find_required_uint_param :: "json \<Rightarrow> string \<Rightarrow> (string + u32) option" where
  "find_required_uint_param doc pattern =
     (case FindMember pattern doc of
        None \<Rightarrow> None
      | Some None \<Rightarrow> Some (Inl (''bad request, '' @ pattern @ '' required''))
      | Some (Some v) \<Rightarrow>
          (case GetUint v of
             None \<Rightarrow> Some (Inl (''bad request, '' @ pattern @ '' is not uint''))
           | Some u \<Rightarrow> Some (Inr u)))"

text \<open>
  \<open>parse_meta\<close> returns the updated parameters and the error text, empty on success.
  \<open>required x p k\<close> is its recurring block: on a fatal error stop with the parameters read
  so far, else go on with the value.
\<close>

definition required ::
  "(string + 'a) option \<Rightarrow> params \<Rightarrow> ('a \<Rightarrow> (params \<times> string) option) \<Rightarrow> (params \<times> string) option" where
  "required x p k = (case x of None \<Rightarrow> None | Some (Inl e) \<Rightarrow> Some (p, e) | Some (Inr v) \<Rightarrow> k v)"

definition parse_user :: "int \<Rightarrow> params \<Rightarrow> json \<Rightarrow> cmd_t \<Rightarrow> (params \<times> string) option" where
  "parse_user pass_len p doc command =
     required (find_required_string_param doc ''user'') p (\<lambda>user.
       let p = p\<lparr>p_user := user\<rparr>;
           min_len = (if pass_len < 0 then 8 else nat pass_len)
       in if command = USER_CREATE \<and> \<not> password_check (p_password p) min_len
          then Some (p, ''weak password'') else Some (p, []))"

definition parse_chat :: "params \<Rightarrow> json \<Rightarrow> cmd_t \<Rightarrow> (params \<times> string) option" where
  "parse_chat p doc command =
     required (find_required_string_param doc ''chatname'') p (\<lambda>name.
       let p = p\<lparr>p_chat_name := name\<rparr>
       in if command = CHAT_ADDUSER then
            required (find_required_string_param doc ''adduser'') p (\<lambda>u.
              Some (p\<lparr>p_chat_adduser := u\<rparr>, []))
          else Some (p, []))"

definition parse_idle :: "params \<Rightarrow> json \<Rightarrow> (params \<times> string) option" where
  "parse_idle p doc =
     (case find_required_uint_param doc ''heartbit'' of
        None \<Rightarrow> None
      | Some (Inl e) \<Rightarrow> Some (p, [])
      | Some (Inr t) \<Rightarrow> Some (p\<lparr>p_ts := ucast t\<rparr>, []))"

definition parse_history :: "params \<Rightarrow> json \<Rightarrow> (params \<times> string) option" where
  "parse_history p doc =
     required (find_required_string_param doc ''user'') p (\<lambda>user.
       let p = p\<lparr>p_user := user\<rparr>
       in case find_required_uint_param doc ''count'' of
            None \<Rightarrow> None
          | Some (Inl e) \<Rightarrow> Some (p, [])
          | Some (Inr n) \<Rightarrow> Some (p\<lparr>p_count := ucast n\<rparr>, []))"

definition parse_message :: "params \<Rightarrow> json \<Rightarrow> cmd_t \<Rightarrow> (params \<times> string) option" where
  "parse_message p doc command =
     required (find_required_string_param doc ''message'') p (\<lambda>msg.
       let p = p\<lparr>p_message := msg\<rparr>
       in if command = MESSAGE_SEND then
            required (find_required_string_param doc ''to'') p (\<lambda>u. Some (p\<lparr>p_to_user := u\<rparr>, []))
          else
            required (find_required_string_param doc ''chatname'') p (\<lambda>c. Some (p\<lparr>p_chat_name := c\<rparr>, [])))"

definition parse_meta :: "int \<Rightarrow> params \<Rightarrow> string \<Rightarrow> cmd_t \<Rightarrow> (params \<times> string) option" where
  "parse_meta pass_len p json command =
     (case Parse json of
        Inl _ \<Rightarrow> Some (p, ''bad request, invalid json'')
      | Inr doc \<Rightarrow>
          required (find_required_string_param doc ''password'') p (\<lambda>pw.
            let p = p\<lparr>p_password := pw\<rparr> in
            if command = USER_CREATE \<or> command = USER_LOGIN then parse_user pass_len p doc command
            else
              required (find_required_uint_param doc ''uid'') p (\<lambda>uid.
                let p = p\<lparr>p_uid := ucast uid\<rparr> in
                if command = CHAT_CREATE \<or> command = CHAT_ADDUSER then parse_chat p doc command
                else if command = IDLE then parse_idle p doc
                else if command = USER_HISTORY \<or> command = USER_STATUS then parse_history p doc
                else if command = MESSAGE_SEND \<or> command = MESSAGE_SEND_CHAT
                then parse_message p doc command
                else Some (p, []))))"

section \<open>HTTP responses\<close>

definition http_code_to_string :: "int \<Rightarrow> string" where
  "http_code_to_string c =
     (if c = 200 then ''200 OK''
      else if c = 400 then ''400 Bad Request''
      else if c = 403 then ''403 Forbidden''
      else if c = 404 then ''404 Not Found''
      else if c = 409 then ''409 Conflict''
      else if c = 429 then ''429 Too Many Requests''
      else if c = 500 then ''500 Internal Server Error''
      else if c = 503 then ''503 Service Unavailable''
      else ''200 OK'')"

definition build_api_error_rsponse :: "int \<Rightarrow> ApiStatusCode \<Rightarrow> string \<Rightarrow> string option" where
  "build_api_error_rsponse http_code c desc =
     map_option (\<lambda>body.
       ''HTTP/1.1 '' @ http_code_to_string http_code @ crlf @
       ''Content-Length: '' @ show_nat (length body) @ crlf @
       ''Access-Control-Allow-Origin: *'' @ crlf @
       ''Content-Type: application/json'' @ crlf @ crlf @ body) (make_api_error c desc)"

definition buildApiOkResponse :: "string \<Rightarrow> string" where
  "buildApiOkResponse body =
     ''HTTP/1.1 200 OK'' @ crlf @
     ''Content-Length: '' @ show_nat (length body) @ crlf @
     ''Content-Type: application/json'' @ crlf @
     ''Access-Control-Allow-Origin: *'' @ crlf @ crlf @ body"

definition max_timestamp :: "api_message list \<Rightarrow> u64" where
  "max_timestamp msgs = fold (\<lambda>msg ts. if am_ts msg > ts then am_ts msg else ts) msgs 0"

end
