(* ===== verification/Cli_Api.thy ===== *)
theory Cli_Api
  imports Api
begin

text \<open>
  The client's half of the API, \<open>cli_utils\<close> of \<open>client/src/apiclient_utils.cpp\<close>: the
  request bodies, the request text, and the parsers of the server's answers. A result
  \<open>None\<close> is a failed \<open>RAPIDJSON_ASSERT\<close>. The lemmas at the end are the protocol: what one
  side writes the other side reads.
\<close>

section \<open>Request bodies\<close>

definition build_request :: "string \<Rightarrow> string \<Rightarrow> string \<Rightarrow> string" where
  "build_request resource content_type body =
     ''POST '' @ resource @ '' HTTP/1.1'' @ crlf @
     ''Content-Length: '' @ show_nat (length body) @ crlf @
     ''Content-Type: '' @ content_type @ crlf @ crlf @ body"

definition build_user_history_msg_body :: "u64 \<Rightarrow> string \<Rightarrow> u64 \<Rightarrow> string \<Rightarrow> string option" where
  "build_user_history_msg_body uid name count pass =
     document [wStartObject,
       wKey ''uid'', wUint64 uid,
       wKey ''user'', wString name,
       wKey ''count'', wUint64 count,
       wKey ''password'', wString pass,
       wEndObject]"

definition build_user_pass_body :: "string \<Rightarrow> string \<Rightarrow> string option" where
  "build_user_pass_body user pass =
     document [wStartObject,
       wKey ''user'', wString user,
       wKey ''password'', wString pass,
       wEndObject]"

definition build_user_send_msg_body ::
  "u64 \<Rightarrow> u64 \<Rightarrow> string \<Rightarrow> string \<Rightarrow> string \<Rightarrow> string option" where
  "build_user_send_msg_body uid t to msg pass =
     document ([wStartObject, wKey ''uid'', wUint64 uid]
       @ (if t \<noteq> 0 then [wKey ''heartbit'', wUint64 t] else [])
       @ [wKey ''to'', wString to,
          wKey ''message'', wString msg,
          wKey ''password'', wString pass,
          wEndObject])"

definition build_groups_msg_body ::
  "u64 \<Rightarrow> string \<Rightarrow> string \<Rightarrow> string \<Rightarrow> string \<Rightarrow> string option" where
  "build_groups_msg_body uid groupname username msg pass =
     document ([wStartObject, wKey ''uid'', wUint64 uid, wKey ''chatname'', wString groupname]
       @ (if username \<noteq> [] then [wKey ''adduser'', wString username] else [])
       @ (if msg \<noteq> [] then [wKey ''message'', wString msg] else [])
       @ [wKey ''password'', wString pass, wEndObject])"

section \<open>Answers\<close>

record response_t =
  r_uid :: u64
  r_chatid :: u64
  r_heartbit :: u64
  r_server_ts :: u64

definition no_response :: response_t where
  "no_response = \<lparr>r_uid = 0, r_chatid = 0, r_heartbit = 0, r_server_ts = 0\<rparr>"

text \<open>\<open>msg_response_t\<close> has the four fields of the server's \<open>Message\<close>.\<close>

type_synonym msg_response_t = api_message

text \<open>A member that is there overwrites the default; one of the wrong type aborts.\<close>

definition uint64_or :: "u64 \<Rightarrow> json \<Rightarrow> string \<Rightarrow> u64 option" where
  "uint64_or d doc name =
     (case FindMember name doc of None \<Rightarrow> None | Some None \<Rightarrow> Some d | Some (Some v) \<Rightarrow> GetUint64 v)"

definition string_or :: "string \<Rightarrow> json \<Rightarrow> string \<Rightarrow> string option" where
  "string_or d doc name =
     (case FindMember name doc of None \<Rightarrow> None | Some None \<Rightarrow> Some d | Some (Some v) \<Rightarrow> GetString v)"

definition parse_response_aswer :: "string \<Rightarrow> response_t \<Rightarrow> (response_t \<times> string) option" where
  "parse_response_aswer json r =
     (case Parse json of
        Inl _ \<Rightarrow> Some (r, ''bad request, invalid json'')
      | Inr doc \<Rightarrow>
          (case uint64_or (r_uid r) doc ''id'' of None \<Rightarrow> None | Some u \<Rightarrow>
             (case uint64_or (r_chatid r) doc ''chatid'' of None \<Rightarrow> None | Some c \<Rightarrow>
                (case uint64_or (r_heartbit r) doc ''heartbit'' of None \<Rightarrow> None | Some h \<Rightarrow>
                   (case uint64_or (r_server_ts r) doc ''server_ts'' of None \<Rightarrow> None | Some t \<Rightarrow>
                      Some (\<lparr>r_uid = u, r_chatid = c, r_heartbit = h, r_server_ts = t\<rparr>, []))))))"

definition parse_msg :: "json \<Rightarrow> msg_response_t option" where
  "parse_msg v =
     (case uint64_or 0 v ''ts'' of None \<Rightarrow> None | Some t \<Rightarrow>
        (case string_or [] v ''from'' of None \<Rightarrow> None | Some f \<Rightarrow>
           (case string_or [] v ''to'' of None \<Rightarrow> None | Some u \<Rightarrow>
              (case string_or [] v ''message'' of None \<Rightarrow> None | Some m \<Rightarrow>
                 Some \<lparr>am_ts = t, am_from = f, am_to = u, am_msg = m\<rparr>))))"

fun parse_msgs :: "json list \<Rightarrow> msg_response_t list \<Rightarrow> (msg_response_t list \<times> string) option" where
  "parse_msgs [] rs = Some (rs, [])"
| "parse_msgs (v # vs) rs =
     (if \<not> IsObject v then Some (rs, ''bad format'')
      else case parse_msg v of None \<Rightarrow> None | Some r \<Rightarrow> parse_msgs vs (rs @ [r]))"

definition parse_msg_response ::
  "string \<Rightarrow> msg_response_t list \<Rightarrow> (msg_response_t list \<times> string) option" where
  "parse_msg_response json rs =
     (case Parse json of
        Inl _ \<Rightarrow> Some (rs, ''bad request, invalid json'')
      | Inr doc \<Rightarrow>
          (case FindMember ''msgs'' doc of
             None \<Rightarrow> None
           | Some None \<Rightarrow> Some (rs, ''bad message'')
           | Some (Some (JArray vs)) \<Rightarrow> parse_msgs vs rs
           | Some (Some _) \<Rightarrow> Some (rs, ''bad format'')))"

section \<open>What the writers print\<close>

lemma wString_c_str [simp]: "wString (c_str s) = wString s"
  by (simp add: wString_def fun_eq_iff)

lemma document_object:
  assumes "writable_members ms" "fs = wStartObject # emit_members ms @ [wEndObject]"
  shows "document fs = Some (serialize (JObject ms))"
  using document_emit[of "JObject ms"] assms by simp

lemma c_str_no_NUL' [simp]: "NUL \<notin> set (c_str s)"
  by (rule c_str_no_NUL)

lemma uint_bounds [simp]: "0 \<le> uint (u :: u64)" "uint (u :: u64) < 18446744073709551616"
  "- 9223372036854775808 \<le> uint (u :: u64)"
  using uint_lt2p[of u] uint_ge_0[of u] by (simp, simp, linarith)

lemma NUL_chars [simp]: "NUL \<noteq> Char a b c d e True f False" "NUL \<noteq> Char a b c d e f True False"
  by (simp_all add: NUL_Char)

lemma build_user_pass_body_text:
  "build_user_pass_body user pass =
     Some (serialize (JObject [(''user'', JString (c_str user)), (''password'', JString (c_str pass))]))"
  unfolding build_user_pass_body_def by (rule document_object) simp_all

lemma build_user_history_msg_body_text:
  "build_user_history_msg_body uid name count pass =
     Some (serialize (JObject [(''uid'', JInt (uint uid)), (''user'', JString (c_str name)),
       (''count'', JInt (uint count)), (''password'', JString (c_str pass))]))"
  unfolding build_user_history_msg_body_def by (rule document_object) simp_all

lemma build_user_send_msg_body_text:
  "build_user_send_msg_body uid t to msg pass =
     Some (serialize (JObject ([(''uid'', JInt (uint uid))]
       @ (if t \<noteq> 0 then [(''heartbit'', JInt (uint t))] else [])
       @ [(''to'', JString (c_str to)), (''message'', JString (c_str msg)),
          (''password'', JString (c_str pass))])))"
  unfolding build_user_send_msg_body_def by (rule document_object) simp_all

lemma build_groups_msg_body_text:
  "build_groups_msg_body uid groupname username msg pass =
     Some (serialize (JObject ([(''uid'', JInt (uint uid)), (''chatname'', JString (c_str groupname))]
       @ (if username \<noteq> [] then [(''adduser'', JString (c_str username))] else [])
       @ (if msg \<noteq> [] then [(''message'', JString (c_str msg))] else [])
       @ [(''password'', JString (c_str pass))])))"
  unfolding build_groups_msg_body_def by (rule document_object) simp_all

lemma make_api_error_text:
  "make_api_error c desc =
     Some (serialize (JObject [(''status'', JInt (int (api_code c))), (''error'', JString (c_str desc))]))"
  unfolding make_api_error_def by (rule document_object) (cases c; simp)+

lemma ok_body_cmd_text:
  "ok_body_cmd now c =
     Some (serialize (JObject [(''cmd'', JInt (int (cmd_code c))), (''server_ts'', JInt (uint now))]))"
  unfolding ok_body_cmd_def by (rule document_object) (cases c; simp)+

lemma ok_body_user_text:
  "ok_body_user now u =
     Some (serialize (JObject [(''id'', JInt (uint (user_id u))), (''chatid'', JInt (uint (self_chat_id u))),
       (''heartbit'', JInt (uint (heartbit u))), (''name'', JString (c_str (user_name u))),
       (''server_ts'', JInt (uint now))]))"
  unfolding ok_body_user_def by (rule document_object) simp_all

lemma ok_body_chat_text:
  "ok_body_chat now c =
     Some (serialize (JObject [(''chatid'', JInt (uint (chat_id c))),
       (''name'', JString (c_str (chat_name c))), (''server_ts'', JInt (uint now))]))"
  unfolding ok_body_chat_def by (rule document_object) simp_all

definition message_json :: "api_message \<Rightarrow> json" where
  "message_json m = JObject [(''from'', JString (c_str (am_from m))), (''to'', JString (c_str (am_to m))),
     (''message'', JString (c_str (am_msg m))), (''ts'', JInt (uint (am_ts m)))]"

lemma emit_messages:
  "emit_elements (map message_json msgs) = concat (map message_calls msgs)"
  "writable_elements (map message_json msgs)" "parsable_elements (map message_json msgs)"
  by (induction msgs) (simp_all add: message_json_def message_calls_def)

lemma ok_body_msgs_text:
  "ok_body_msgs now msgs =
     Some (serialize (JObject [(''server_ts'', JInt (uint now)), (''msgs'', JArray (map message_json msgs))]))"
  unfolding ok_body_msgs_def by (rule document_object) (simp_all add: emit_messages)

section \<open>The protocol: what one side writes the other side reads\<close>

lemma Parse_object [simp]: "parsable_members ms \<Longrightarrow> Parse (serialize (JObject ms)) = Inr (JObject ms)"
  by (rule Parse_serialize) simp

lemma FindMember_object [simp]: "FindMember k (JObject ms) = Some (map_of ms k)"
  by (simp add: FindMember_def)

lemma GetUint64_uint [simp]: "GetUint64 (JInt (uint u)) = Some u" for u :: u64
  by (simp add: GetUint64_def IsUint64_def)

lemma u32_bound: "u < 2 ^ 32 \<longleftrightarrow> uint u < 2 ^ 32" for u :: u64
  by (simp add: word_less_def)

lemma GetUint_uint [simp]:
  "GetUint (JInt (uint u)) = (if u < 2 ^ 32 then Some (ucast u) else None)" for u :: u64
proof -
  have "word_of_int (uint u) = (ucast u :: u32)" by (simp only: ucast_eq)
  then show ?thesis
    unfolding u32_bound GetUint_def IsUint_def by (simp only: json.case uint_ge_0 simp_thms)
qed

lemma Get_string [simp]:
  "GetString (JString s) = Some (c_str s)" "GetUint (JString s) = None" "GetUint64 (JString s) = None"
  "GetString (JInt i) = None"
  by (simp_all add: GetString_def GetUint_def GetUint64_def)

lemma ucast_u32_u64:
  assumes "u < 2 ^ 32" shows "ucast (ucast u :: u32) = (u :: u64)"
proof -
  have "unat u < 2 ^ 32" using assms by (simp add: word_less_nat_alt)
  then show ?thesis
    by (simp add: word_unat_eq_iff unsigned_ucast_eq unsigned_take_bit_eq take_bit_nat_eq_self)
qed

declare serialize.simps [simp del]

lemmas body_reads = find_required_string_param_def find_required_uint_param_def required_def Let_def
  ucast_u32_u64

lemma login_request_read:
  assumes "c_str user \<noteq> []" "c_str pass \<noteq> []"
  shows "Option.bind (build_user_pass_body user pass) (\<lambda>b. parse_meta n p b USER_LOGIN) =
    Some (p\<lparr>p_password := c_str pass, p_user := c_str user\<rparr>, [])"
  using assms by (simp add: build_user_pass_body_text parse_meta_def parse_user_def body_reads)

lemma register_request_read:
  assumes "c_str user \<noteq> []" "c_str pass \<noteq> []"
  shows "Option.bind (build_user_pass_body user pass) (\<lambda>b. parse_meta n p b USER_CREATE) =
    Some (p\<lparr>p_password := c_str pass, p_user := c_str user\<rparr>,
      if password_check (c_str pass) (if n < 0 then 8 else nat n) then [] else ''weak password'')"
  using assms by (simp add: build_user_pass_body_text parse_meta_def parse_user_def body_reads)

lemma history_request_read:
  assumes "uid < 2 ^ 32" "c_str user \<noteq> []" "c_str pass \<noteq> []" "command \<in> {USER_HISTORY, USER_STATUS}"
  shows "Option.bind (build_user_history_msg_body uid user count pass) (\<lambda>b. parse_meta n p b command) =
    Some (p\<lparr>p_password := c_str pass, p_uid := uid, p_user := c_str user,
        p_count := if count < 2 ^ 32 then count else p_count p\<rparr>, [])"
  using assms by (auto simp: build_user_history_msg_body_text parse_meta_def parse_history_def body_reads)

lemma send_request_read:
  assumes "uid < 2 ^ 32" "c_str to \<noteq> []" "c_str msg \<noteq> []" "c_str pass \<noteq> []"
  shows "Option.bind (build_user_send_msg_body uid t to msg pass) (\<lambda>b. parse_meta n p b MESSAGE_SEND) =
    Some (p\<lparr>p_password := c_str pass, p_uid := uid, p_message := c_str msg, p_to_user := c_str to\<rparr>, [])"
  using assms by (simp add: build_user_send_msg_body_text parse_meta_def parse_message_def body_reads)

lemma idle_request_read:
  assumes "uid < 2 ^ 32" "c_str pass \<noteq> []"
  shows "Option.bind (build_user_send_msg_body uid t to msg pass) (\<lambda>b. parse_meta n p b IDLE) =
    Some (p\<lparr>p_password := c_str pass, p_uid := uid,
        p_ts := if t \<noteq> 0 \<and> t < 2 ^ 32 then t else p_ts p\<rparr>, [])"
  using assms by (simp add: build_user_send_msg_body_text parse_meta_def parse_idle_def body_reads)

lemma chat_request_read:
  assumes "uid < 2 ^ 32" "c_str grp \<noteq> []" "c_str pass \<noteq> []"
  shows "Option.bind (build_groups_msg_body uid grp user msg pass) (\<lambda>b. parse_meta n p b CHAT_CREATE) =
      Some (p\<lparr>p_password := c_str pass, p_uid := uid, p_chat_name := c_str grp\<rparr>, [])"
    and "c_str user \<noteq> [] \<Longrightarrow>
      Option.bind (build_groups_msg_body uid grp user msg pass) (\<lambda>b. parse_meta n p b CHAT_ADDUSER) =
      Some (p\<lparr>p_password := c_str pass, p_uid := uid, p_chat_name := c_str grp,
        p_chat_adduser := c_str user\<rparr>, [])"
    and "c_str msg \<noteq> [] \<Longrightarrow>
      Option.bind (build_groups_msg_body uid grp user msg pass) (\<lambda>b. parse_meta n p b MESSAGE_SEND_CHAT) =
      Some (p\<lparr>p_password := c_str pass, p_uid := uid, p_message := c_str msg,
        p_chat_name := c_str grp\<rparr>, [])"
proof -
  have "user \<noteq> []" if "c_str user \<noteq> []" using that by (auto simp: c_str_def)
  moreover have "msg \<noteq> []" if "c_str msg \<noteq> []" using that by (auto simp: c_str_def)
  ultimately show
    "Option.bind (build_groups_msg_body uid grp user msg pass) (\<lambda>b. parse_meta n p b CHAT_CREATE) =
      Some (p\<lparr>p_password := c_str pass, p_uid := uid, p_chat_name := c_str grp\<rparr>, [])"
    and "c_str user \<noteq> [] \<Longrightarrow>
      Option.bind (build_groups_msg_body uid grp user msg pass) (\<lambda>b. parse_meta n p b CHAT_ADDUSER) =
      Some (p\<lparr>p_password := c_str pass, p_uid := uid, p_chat_name := c_str grp,
        p_chat_adduser := c_str user\<rparr>, [])"
    and "c_str msg \<noteq> [] \<Longrightarrow>
      Option.bind (build_groups_msg_body uid grp user msg pass) (\<lambda>b. parse_meta n p b MESSAGE_SEND_CHAT) =
      Some (p\<lparr>p_password := c_str pass, p_uid := uid, p_message := c_str msg,
        p_chat_name := c_str grp\<rparr>, [])"
    using assms
    by (simp_all add: build_groups_msg_body_text parse_meta_def parse_chat_def parse_message_def body_reads)
qed

text \<open>A user id of more than 32 bits is refused: the client writes 64 bits, the server reads 32.\<close>

lemma big_uid_refused:
  assumes "\<not> uid < 2 ^ 32" "c_str pass \<noteq> []"
  shows "Option.bind (build_user_send_msg_body uid t to msg pass) (\<lambda>b. parse_meta n p b MESSAGE_SEND) =
    Some (p\<lparr>p_password := c_str pass\<rparr>, ''bad request, uid is not uint'')"
  using assms by (simp add: build_user_send_msg_body_text parse_meta_def body_reads)

section \<open>The client reads the server's answers\<close>

lemma user_answer_read:
  "Option.bind (ok_body_user now u) (\<lambda>b. parse_response_aswer b r) =
    Some (\<lparr>r_uid = user_id u, r_chatid = self_chat_id u, r_heartbit = heartbit u, r_server_ts = now\<rparr>, [])"
  by (simp add: ok_body_user_text parse_response_aswer_def uint64_or_def)

lemma chat_answer_read:
  "Option.bind (ok_body_chat now c) (\<lambda>b. parse_response_aswer b r) =
    Some (r\<lparr>r_chatid := chat_id c, r_server_ts := now\<rparr>, [])"
  by (cases r) (simp add: ok_body_chat_text parse_response_aswer_def uint64_or_def)

lemma cmd_answer_read:
  "Option.bind (ok_body_cmd now c) (\<lambda>b. parse_response_aswer b r) =
    Some (r\<lparr>r_server_ts := now\<rparr>, [])"
  by (cases r; cases c) (simp_all add: ok_body_cmd_text parse_response_aswer_def uint64_or_def)

definition c_message :: "api_message \<Rightarrow> api_message" where
  "c_message m = m\<lparr>am_from := c_str (am_from m), am_to := c_str (am_to m), am_msg := c_str (am_msg m)\<rparr>"

lemma parse_message_json: "parse_msg (message_json m) = Some (c_message m)" "IsObject (message_json m)"
  by (simp_all add: message_json_def parse_msg_def uint64_or_def string_or_def c_message_def IsObject_def)

lemma parse_msgs_json: "parse_msgs (map message_json msgs) rs = Some (rs @ map c_message msgs, [])"
  by (induction msgs arbitrary: rs) (simp_all add: parse_message_json)

lemma msgs_answer_read:
  "Option.bind (ok_body_msgs now msgs) (\<lambda>b. parse_msg_response b rs) =
    Some (rs @ map c_message msgs, [])"
  by (simp add: ok_body_msgs_text parse_msg_response_def emit_messages parse_msgs_json)

end
