(* ===== verification/Http_Messages.thy ===== *)
theory Http_Messages
  imports Http Cli_Api
begin

text \<open>
  The HTTP messages of the two sides: the parser of \<open>Http\<close> applied to the requests that
  \<open>build_request\<close> prints and to the responses of \<open>buildApiOkResponse\<close> and
  \<open>build_api_error_rsponse\<close>, followed by other bytes and received in any segmentation.
\<close>

section \<open>Lines\<close>

lemma find_off_skip:
  assumes "d = c # ds" "c \<notin> set v"
  shows "find_off d (v @ t) 0 = map_option (\<lambda>p. p + length v) (find_off d t 0)"
  using assms
proof (induction v)
  case (Cons a v)
  then have "\<not> prefix d (a # v @ t)" by auto
  then have "find_off d ((a # v) @ t) 0 = find_off d (v @ t) (Suc 0)" by simp
  also have "\<dots> = map_option (\<lambda>p. p + Suc 0) (find_off d (v @ t) 0)" by (rule find_off_shift)
  finally show ?case using Cons by (simp add: option.map_comp comp_def)
qed (simp add: option.map_ident)

lemma find_off_here: "d \<noteq> [] \<Longrightarrow> find_off d (d @ t) 0 = Some 0"
  by (cases d) auto

lemma find_off_absent:
  assumes "d = c # ds" "c \<notin> set v"
  shows "find_off d v i = None"
  using assms by (induction v arbitrary: i) auto

lemma parts_of_join_str:
  assumes d: "d = c # ds" and "vec \<noteq> []" "\<forall>v \<in> set vec. c \<notin> set v"
  shows "parts_of d (join vec d) = vec"
  using assms(2,3)
proof (induction vec)
  case (Cons v vec)
  have ne: "d \<noteq> []" using d by simp
  show ?case
  proof (cases "vec = []")
    case True
    with Cons.prems show ?thesis
      by (subst parts_of.simps) (simp add: join_def find_off_absent [OF d])
  next
    case False
    then have "join (v # vec) d = v @ d @ join vec d"
      by (simp add: join_def join_loop_False)
    moreover have "find_off d (v @ d @ join vec d) 0 = Some (length v)"
      using find_off_skip [OF d, of v "d @ join vec d"] find_off_here [of d "join vec d"] Cons.prems ne by simp
    ultimately show ?thesis
      using Cons False d by (subst parts_of.simps) simp
  qed
qed simp

text \<open>A header block: lines without carriage return, none of them empty.\<close>

definition header_lines :: "string list \<Rightarrow> bool" where
  "header_lines ls \<longleftrightarrow> ls \<noteq> [] \<and> (\<forall>l \<in> set ls. l \<noteq> [] \<and> CHR 0x0D \<notin> set l)"

lemma split_header_lines: "header_lines ls \<Longrightarrow> split (join ls crlf) crlf = Some ls"
  using parts_of_join_str [of crlf "CHR 0x0D" "[CHR 0x0A]" ls]
  by (simp add: split_parts_of header_lines_def crlf_def)

lemma find_crlf_crlf:
  assumes "header_lines ls"
  shows "find_off (crlf @ crlf) (join ls crlf @ crlf @ crlf @ t) 0 = Some (length (join ls crlf))"
  using assms
proof (induction ls)
  case (Cons l ls)
  have c: "crlf @ crlf = CHR 0x0D # [CHR 0x0A, CHR 0x0D, CHR 0x0A]" by (simp add: crlf_def)
  have l: "CHR 0x0D \<notin> set l" using Cons.prems by (simp add: header_lines_def)
  show ?case
  proof (cases "ls = []")
    case True
    then show ?thesis
      using find_off_skip [OF c l, of "(crlf @ crlf) @ t"] find_off_here [of "crlf @ crlf" t]
      by (simp add: join_def)
  next
    case False
    then have ls: "header_lines ls" using Cons.prems by (simp add: header_lines_def)
    let ?r = "join ls crlf @ crlf @ crlf @ t"
    obtain a w where a: "join ls crlf = a # w" "a \<noteq> CHR 0x0D"
    proof -
      obtain l2 ls2 where "ls = l2 # ls2" using False by (cases ls) auto
      moreover have "l2 \<noteq> []" "CHR 0x0D \<notin> set l2" using ls calculation by (simp_all add: header_lines_def)
      ultimately show ?thesis using that by (cases l2) (auto simp: join_def)
    qed
    have "find_off (crlf @ crlf) (crlf @ ?r) 0 = map_option (\<lambda>p. p + 2) (find_off (crlf @ crlf) ?r 0)"
      using a by (simp add: crlf_def find_off_shift [of _ _ "Suc (Suc 0)"])
    then have "find_off (crlf @ crlf) (crlf @ ?r) 0 = Some (length (join ls crlf) + 2)"
      using Cons.IH [OF ls] by simp
    moreover have "join (l # ls) crlf = l @ crlf @ join ls crlf"
      using False by (simp add: join_def join_loop_False)
    ultimately show ?thesis
      using find_off_skip [OF c l, of "crlf @ ?r"] by simp
  qed
qed (simp add: header_lines_def)

lemma read_header_block:
  "header_lines ls \<Longrightarrow>
     http_step inflate AwaitHeaders (join ls crlf @ crlf @ crlf @ t) = Some (handleHeaders (join ls crlf), t)"
  using find_crlf_crlf [of ls t] by (simp add: http_step_def read_until_def)

section \<open>Headers\<close>

lemma parseHeaderLine_colon:
  assumes "CHR '':'' \<notin> set k" "k \<noteq> []" "v \<noteq> []"
  shows "parseHeaderLine (k @ '': '' @ v) m = (True, header_put k (dropWhile isspace v) m)"
proof -
  have "str_find (k @ CHR '':'' # CHR '' '' # v) '':'' 0 = Some (length k)"
    using find_off_char [of "CHR '':''" k "CHR '' '' # v"] assms(1) by (simp add: str_find_def)
  moreover have "isspace CHR '' ''" by (simp add: isspace_def)
  ultimately show ?thesis using assms(2,3) by (simp add: parseHeaderLine_def)
qed

text \<open>A value that starts with no blank.\<close>

definition plain_value :: "string \<Rightarrow> bool" where
  "plain_value v \<longleftrightarrow> v \<noteq> [] \<and> \<not> isspace (hd v)"

lemma plain_value_drop: "plain_value v \<Longrightarrow> dropWhile isspace v = v"
  by (cases v) (simp_all add: plain_value_def)

lemma plain_show_nat: "plain_value (show_nat n)"
  using show_nat_digits [of n] digit_not_space by (cases "show_nat n") (auto simp: plain_value_def)

lemma header_names [simp]:
  "strcasecmp_eq ''Content-Length'' ''Content-Length''"
  "\<not> strcasecmp_eq ''Content-Length'' ''Content-Type''"
  "\<not> strcasecmp_eq ''Content-Length'' ''Access-Control-Allow-Origin''"
  "\<not> strcasecmp_eq ''Content-Type'' ''Access-Control-Allow-Origin''"
  "\<not> strcasecmp_eq ''Access-Control-Allow-Origin'' ''Content-Type''"
  "\<not> strcasecmp_eq ''Content-Length'' ''Content-Encoding''"
  "\<not> strcasecmp_eq ''Content-Type'' ''Content-Encoding''"
  "\<not> strcasecmp_eq ''Access-Control-Allow-Origin'' ''Content-Encoding''"
  by code_simp+

section \<open>Messages\<close>

lemma http_run_Finished [simp]: "http_run inflate (Finished x) buf = (Finished x, buf)"
  by (subst http_run.simps) (simp add: http_step_def)

text \<open>A message with a \<open>Content-Length\<close> and no \<open>Content-Encoding\<close>, from its header block.\<close>

lemma http_run_body:
  assumes h: "header_lines ls" and next_state: "handleHeaders (join ls crlf) = AwaitBody r (of_nat (length body))"
    and len: "length body < 2 ^ 64" and enc: "\<not> hasHeader r ''Content-Encoding''"
  shows "http_run inflate AwaitHeaders (join ls crlf @ crlf @ crlf @ body @ rest) =
    (Finished (None, r\<lparr>h_body := body\<rparr>), rest)"
proof -
  have "unat (of_nat (length body) :: u64) = length body"
    using len by (simp add: unat_of_nat take_bit_nat_eq_self)
  then have "http_step inflate (AwaitBody r (of_nat (length body))) (body @ rest) =
      Some (Finished (None, r\<lparr>h_body := body\<rparr>), rest)"
    using enc by (simp add: http_step_def read_bytes_def processReply_def hasHeader_def)
  then have body: "http_run inflate (AwaitBody r (of_nat (length body))) (body @ rest) =
      (Finished (None, r\<lparr>h_body := body\<rparr>), rest)"
    by (subst http_run.simps) simp
  show ?thesis
    using read_header_block [OF h, of inflate "body @ rest"] next_state body
    by (simp add: http_run.simps [of inflate AwaitHeaders])
qed

lemma no_cr_show_nat [simp]: "CHR 0x0D \<notin> set (show_nat n)"
  using show_nat_digits [of n] by (auto simp: isdigit_def)

text \<open>What a header block parses to.\<close>

definition request_headers :: "nat \<Rightarrow> string \<Rightarrow> (string \<times> string) list" where
  "request_headers n content_type = [(''Content-Length'', show_nat n), (''Content-Type'', content_type)]"

definition request_lines :: "string \<Rightarrow> string \<Rightarrow> nat \<Rightarrow> string list" where
  "request_lines resource content_type n =
     [''POST '' @ resource @ '' HTTP/1.1'', ''Content-Length: '' @ show_nat n, ''Content-Type: '' @ content_type]"

lemma build_request_lines:
  "build_request resource content_type body =
     join (request_lines resource content_type (length body)) crlf @ crlf @ crlf @ body"
  by (simp add: build_request_def request_lines_def join_def)

lemma request_header_lines:
  "CHR 0x0D \<notin> set resource \<Longrightarrow> CHR 0x0D \<notin> set content_type \<Longrightarrow>
     header_lines (request_lines resource content_type n)"
  by (simp add: header_lines_def request_lines_def)

lemma split_words3:
  assumes "CHR '' '' \<notin> set a" "CHR '' '' \<notin> set b" "CHR '' '' \<notin> set c"
  shows "split (a @ CHR '' '' # b @ CHR '' '' # c) '' '' = Some [a, b, c]"
  using parts_of_join [of "[a, b, c]" "CHR '' ''"] assms by (simp add: split_parts_of join_def)

lemma lowercased_post: "lowercased ''POST'' = ''post''" and lowercased_http: "lowercased ''HTTP/1.1'' = ''http/1.1''"
  by code_simp+

lemma starts_http [simp]: "starts_with ''http/1.1'' ''http/'' = True" "starts_with ''post'' ''http/'' = False"
  by code_simp+

lemma header_value_lines:
  "plain_value v \<Longrightarrow> parseHeaderLine (''Content-Length: '' @ v) m = (True, header_put ''Content-Length'' v m)"
  "plain_value v \<Longrightarrow> parseHeaderLine (''Content-Type: '' @ v) m = (True, header_put ''Content-Type'' v m)"
  "plain_value v \<Longrightarrow>
     parseHeaderLine (''Access-Control-Allow-Origin: '' @ v) m = (True, header_put ''Access-Control-Allow-Origin'' v m)"
  using parseHeaderLine_colon [of "''Content-Length''" v m] parseHeaderLine_colon [of "''Content-Type''" v m]
    parseHeaderLine_colon [of "''Access-Control-Allow-Origin''" v m]
  by (simp_all add: plain_value_drop) (auto simp: plain_value_def)

lemma handle_request_headers:
  assumes "CHR '' '' \<notin> set resource" "CHR 0x0D \<notin> set resource" "CHR 0x0D \<notin> set content_type"
    "plain_value content_type" "n < 2 ^ 64"
  shows "handleHeaders (join (request_lines resource content_type n) crlf) =
    AwaitBody (no_reply\<lparr>h_headers := join (request_lines resource content_type n) crlf,
      h_method := ''post'', h_resource := resource, h_parsed := request_headers n content_type\<rparr>) (of_nat n)"
proof -
  let ?ls = "request_lines resource content_type n"
  have "split (join ?ls crlf) crlf = Some ?ls"
    using assms by (intro split_header_lines request_header_lines)
  moreover have "split (?ls ! 0) '' '' = Some [''POST'', resource, ''HTTP/1.1'']"
    using split_words3 [of "''POST''" resource "''HTTP/1.1''"] assms(1) by (simp add: request_lines_def)
  moreover have "parse_header_lines (tl ?ls) [] = request_headers n content_type"
    using header_value_lines(1) [OF plain_show_nat, of n "[]"] header_value_lines(2) [OF assms(4)]
    by (simp add: request_lines_def request_headers_def)
  moreover have "?ls \<noteq> []" "?ls ! 0 \<noteq> []" by (simp_all add: request_lines_def)
  ultimately show ?thesis
    using assms(5)
    by (simp add: handleHeaders_def Let_def start_line_def lowercased_post after_headers_def hasHeader_def
        getHeader_def request_headers_def stoul10_show_nat)
qed

definition response_lines :: "string \<Rightarrow> nat \<Rightarrow> (string \<times> string) list \<Rightarrow> string list" where
  "response_lines status n hs =
     [''HTTP/1.1 '' @ status, ''Content-Length: '' @ show_nat n] @ map (\<lambda>(k, v). k @ '': '' @ v) hs"

definition ok_headers :: "(string \<times> string) list" where
  "ok_headers = [(''Content-Type'', ''application/json''), (''Access-Control-Allow-Origin'', ''*'')]"

definition error_headers :: "(string \<times> string) list" where
  "error_headers = [(''Access-Control-Allow-Origin'', ''*''), (''Content-Type'', ''application/json'')]"

lemma ok_response_lines:
  "buildApiOkResponse body =
     join (response_lines ''200 OK'' (length body) ok_headers) crlf @ crlf @ crlf @ body"
  by (simp add: buildApiOkResponse_def response_lines_def ok_headers_def join_def)

lemma error_response_lines:
  "build_api_error_rsponse st c desc =
     map_option (\<lambda>body. join (response_lines (http_code_to_string st) (length body) error_headers) crlf
       @ crlf @ crlf @ body) (make_api_error c desc)"
  by (simp add: build_api_error_rsponse_def response_lines_def error_headers_def join_def)

lemma plain_literals [simp]: "plain_value ''application/json''" "plain_value ''*''"
  by (simp_all add: plain_value_def isspace_def)

text \<open>The status line \<open>HTTP/1.1 <code> <words>\<close>.\<close>

lemma handle_response_headers:
  assumes "hs = ok_headers \<or> hs = error_headers" "n < 2 ^ 64" "st < 2 ^ 31" "CHR 0x0D \<notin> set words"
  shows "handleHeaders (join (response_lines (show_nat st @ CHR '' '' # words) n hs) crlf) =
    AwaitBody (no_reply\<lparr>h_headers := join (response_lines (show_nat st @ CHR '' '' # words) n hs) crlf,
      h_status := int st, h_parsed := (''Content-Length'', show_nat n) # hs\<rparr>) (of_nat n)"
    and "header_lines (response_lines (show_nat st @ CHR '' '' # words) n hs)"
proof -
  let ?ls = "response_lines (show_nat st @ CHR '' '' # words) n hs"
  show h: "header_lines ?ls"
    using assms(1,4) by (auto simp: header_lines_def response_lines_def ok_headers_def error_headers_def)
  have "CHR '' '' \<notin> set (show_nat st)" using show_nat_digits [of st] by (auto simp: isdigit_def)
  then have "\<exists>ws. parts_of '' '' (''HTTP/1.1'' @ CHR '' '' # show_nat st @ CHR '' '' # words) = ''HTTP/1.1'' # show_nat st # ws"
    using find_off_char [of "CHR '' ''" "''HTTP/1.1''" "show_nat st @ CHR '' '' # words"]
      find_off_char [of "CHR '' ''" "show_nat st" words]
    by (subst parts_of.simps, simp, subst parts_of.simps, simp)
  then obtain ws where "split (?ls ! 0) '' '' = Some (''HTTP/1.1'' # show_nat st # ws)"
    by (auto simp: split_parts_of response_lines_def)
  moreover have "parse_header_lines (tl ?ls) [] = (''Content-Length'', show_nat n) # hs"
    using assms(1) header_value_lines(1) [OF plain_show_nat, of n "[]"]
      header_value_lines(2) [of "''application/json''"] header_value_lines(3) [of "''*''"]
    by (auto simp: response_lines_def ok_headers_def error_headers_def)
  moreover have "?ls \<noteq> []" "?ls ! 0 \<noteq> []" by (simp_all add: response_lines_def)
  ultimately show "handleHeaders (join ?ls crlf) =
    AwaitBody (no_reply\<lparr>h_headers := join ?ls crlf,
      h_status := int st, h_parsed := (''Content-Length'', show_nat n) # hs\<rparr>) (of_nat n)"
    using assms(2,3) split_header_lines [OF h]
    by (simp add: handleHeaders_def Let_def start_line_def lowercased_http after_headers_def hasHeader_def
        getHeader_def stoul10_show_nat stoi_show_nat)
qed

section \<open>End to end\<close>

lemma request_received:
  assumes "CHR '' '' \<notin> set resource" "CHR 0x0D \<notin> set resource" "CHR 0x0D \<notin> set content_type"
    "plain_value content_type" "length body < 2 ^ 64"
  shows "http_run inflate AwaitHeaders (build_request resource content_type body @ rest) =
    (Finished (None, \<lparr>h_status = 0, h_headers = join (request_lines resource content_type (length body)) crlf,
       h_body = body, h_method = ''post'', h_resource = resource,
       h_parsed = request_headers (length body) content_type\<rparr>), rest)"
proof -
  let ?r = "no_reply\<lparr>h_headers := join (request_lines resource content_type (length body)) crlf,
      h_method := ''post'', h_resource := resource, h_parsed := request_headers (length body) content_type\<rparr>"
  have "\<not> hasHeader ?r ''Content-Encoding''" by (simp add: hasHeader_def request_headers_def)
  from http_run_body [OF request_header_lines [OF assms(2,3)] handle_request_headers [OF assms] assms(5) this]
  show ?thesis by (simp add: build_request_lines no_reply_def)
qed

lemma ok_response_received:
  assumes "length body < 2 ^ 64"
  shows "\<exists>r. http_run inflate AwaitHeaders (buildApiOkResponse body @ rest) = (Finished (None, r), rest) \<and>
    h_status r = 200 \<and> h_body r = body"
proof -
  have two: "''200 OK'' = show_nat 200 @ CHR '' '' # ''OK''" by code_simp
  let ?r = "no_reply\<lparr>h_headers := join (response_lines ''200 OK'' (length body) ok_headers) crlf,
      h_status := 200, h_parsed := (''Content-Length'', show_nat (length body)) # ok_headers\<rparr>"
  have "\<not> hasHeader ?r ''Content-Encoding''" by (simp add: hasHeader_def ok_headers_def)
  from http_run_body [OF _ _ assms this, of "response_lines ''200 OK'' (length body) ok_headers" inflate rest]
    handle_response_headers [of ok_headers "length body" 200 "''OK''"] assms
  show ?thesis by (simp add: ok_response_lines flip: two)
qed

section \<open>Chunked bodies\<close>

text \<open>Lower-case hexadecimal numerals, and the encoding of a body as a list of chunks.\<close>

definition hex_char :: "nat \<Rightarrow> char" where
  "hex_char d = (if d < 10 then digit_char d else char_of (87 + d))"

fun show_hex :: "nat \<Rightarrow> string" where
  "show_hex n = (if n < 16 then [hex_char n] else show_hex (n div 16) @ [hex_char (n mod 16)])"

declare show_hex.simps [simp del]

definition chunk_encode :: "string list \<Rightarrow> string" where
  "chunk_encode cs = concat (map (\<lambda>c. show_hex (length c) @ crlf @ c @ crlf) cs) @ ''0'' @ crlf @ crlf"

lemma code_hex_char: "d < 16 \<Longrightarrow> code (hex_char d) = (if d < 10 then 48 + d else 87 + d)"
  by (simp add: hex_char_def code_digit_char code_char_of del: of_char_of)

lemma hex_char_digit [simp]:
  assumes "d < 16" shows "isxdigit (hex_char d)" "xdigit_val (hex_char d) = d"
  using assms by (simp_all add: isxdigit_def xdigit_val_def isdigit_def code_hex_char)

lemma show_hex_xdigits: "\<forall>c \<in> set (show_hex n). isxdigit c"
proof (induction n rule: show_hex.induct)
  case (1 n)
  then show ?case by (subst show_hex.simps) auto
qed

lemma takeWhile_show_hex: "takeWhile isxdigit (show_hex n) = show_hex n"
  using show_hex_xdigits [of n] by (metis takeWhile_eq_all_conv)

lemma show_hex_nonempty [simp]: "show_hex n \<noteq> []"
  by (subst show_hex.simps) simp

lemma xdigits_val_append: "xdigits_val acc (s @ t) = xdigits_val (xdigits_val acc s) t"
  by (simp add: xdigits_val_def)

lemma xdigits_val_show_hex: "xdigits_val 0 (show_hex n) = n"
proof (induction n rule: show_hex.induct)
  case (1 n)
  show ?case
  proof (cases "n < 16")
    case True
    then show ?thesis by (subst show_hex.simps) (simp add: xdigits_val_def)
  next
    case False
    with 1 have "xdigits_val 0 (show_hex (n div 16)) = n div 16" by simp
    then show ?thesis
      using False by (subst show_hex.simps) (simp add: xdigits_val_append, simp add: xdigits_val_def)
  qed
qed

lemma xdigit_plain: "isxdigit c \<Longrightarrow> \<not> isspace c \<and> c \<noteq> CHR ''-'' \<and> c \<noteq> CHR ''+'' \<and> c \<noteq> CHR ''x'' \<and> c \<noteq> CHR ''X'' \<and> c \<noteq> CHR 0x0D"
  by (auto simp: isxdigit_def isdigit_def isspace_def)

lemma stoul16_show_hex:
  assumes "n < 2 ^ 64"
  shows "stoul16 (show_hex n) = Inr (of_nat n, length (show_hex n))"
proof -
  obtain c cs where s: "show_hex n = c # cs" by (cases "show_hex n") auto
  have all: "\<forall>c \<in> set (c # cs). isxdigit c" using show_hex_xdigits [of n] s by simp
  then have "hex_prefix (show_hex n) = 0"
    using xdigit_plain unfolding s by (auto simp: hex_prefix_def split: list.split)
  moreover have "dropWhile isspace (show_hex n) = show_hex n" "sign_split (show_hex n) = (False, show_hex n)"
    using all xdigit_plain [of c] unfolding s by (simp_all add: sign_split_def)
  ultimately show ?thesis
    using assms xdigits_val_show_hex [of n] by (simp add: stoul16_def stoul_result_def Let_def takeWhile_show_hex)
qed

lemma read_size_line:
  assumes "n < 2 ^ 64"
  shows "http_step inflate (AwaitChunkSize r) (show_hex n @ crlf @ t) = Some (AwaitChunk r (of_nat n), t)"
proof -
  have "CHR 0x0D \<notin> set (show_hex n)" using show_hex_xdigits [of n] xdigit_plain by blast
  then have "find_off crlf (show_hex n @ crlf @ t) 0 = Some (length (show_hex n))"
    using find_off_skip [of crlf "CHR 0x0D" "[CHR 0x0A]" "show_hex n" "crlf @ t"] find_off_here [of crlf t]
    by (simp add: crlf_def)
  then show ?thesis
    by (simp add: http_step_def read_until_def startProcessChunk_def stoul16_show_hex [OF assms])
qed

lemma read_chunk:
  assumes "length c < 2 ^ 64 - 2"
  shows "http_step inflate (AwaitChunk r (of_nat (length c))) (c @ crlf @ t) =
    Some (if c = [] then processReply inflate r else AwaitChunkSize (r\<lparr>h_body := h_body r @ c\<rparr>), t)"
proof -
  have n: "unat (of_nat (length c) :: u64) = length c"
    using assms by (simp add: unat_of_nat take_bit_nat_eq_self)
  have "unat (of_nat (length c) + 2 :: u64) = (length c + 2) mod 2 ^ 64"
    by (simp add: unat_word_ariths n)
  also have "\<dots> = length c + 2" using assms by (intro mod_less) simp
  finally have n2: "unat (of_nat (length c) + 2 :: u64) = length c + 2" .
  have zero: "(of_nat (length c) :: u64) = 0 \<longleftrightarrow> c = []"
    using n by (metis length_0_conv unat_0 unat_eq_zero)
  show ?thesis
    using zero by (simp add: http_step_def read_bytes_def n2 n processChunk_def Let_def)
qed

lemma show_hex_0: "show_hex 0 = ''0''"
  by code_simp

theorem chunked_received:
  assumes "\<forall>c \<in> set cs. c \<noteq> [] \<and> length c < 2 ^ 64 - 2"
  shows "http_run inflate (AwaitChunkSize r) (chunk_encode cs @ rest) =
    (processReply inflate (r\<lparr>h_body := h_body r @ concat cs\<rparr>), rest)"
  using assms
proof (induction cs arbitrary: r)
  case Nil
  have fin: "http_run inflate (processReply inflate r) rest = (processReply inflate r, rest)"
    by (auto simp: processReply_def protocol_error_def Let_def split: option.split)
  have "http_run inflate (AwaitChunkSize r) (chunk_encode [] @ rest) =
      http_run inflate (AwaitChunk r 0) (crlf @ rest)"
    using read_size_line [of 0 inflate r "crlf @ rest"]
    by (subst http_run.simps) (simp add: chunk_encode_def show_hex_0)
  also have "\<dots> = http_run inflate (processReply inflate r) rest"
    using read_chunk [of "[]" inflate r rest] by (subst http_run.simps) simp
  finally show ?case by (simp add: fin)
next
  case (Cons c cs)
  have enc: "chunk_encode (c # cs) @ rest = show_hex (length c) @ crlf @ c @ crlf @ chunk_encode cs @ rest"
    by (simp add: chunk_encode_def)
  have "http_run inflate (AwaitChunkSize r) (chunk_encode (c # cs) @ rest) =
      http_run inflate (AwaitChunk r (of_nat (length c))) (c @ crlf @ chunk_encode cs @ rest)"
    using read_size_line [of "length c" inflate r "c @ crlf @ chunk_encode cs @ rest"] Cons.prems
    unfolding enc by (subst http_run.simps) simp
  also have "\<dots> = http_run inflate (AwaitChunkSize (r\<lparr>h_body := h_body r @ c\<rparr>)) (chunk_encode cs @ rest)"
    using read_chunk [of c inflate r "chunk_encode cs @ rest"] Cons.prems by (subst http_run.simps) simp
  also have "\<dots> = (processReply inflate (r\<lparr>h_body := h_body r @ concat (c # cs)\<rparr>), rest)"
    using Cons by simp
  finally show ?case .
qed

section \<open>Messages in segments\<close>

lemma strcasecmp_eq_refl [simp]: "strcasecmp_eq a a"
  by (simp add: strcasecmp_eq_def)

lemma http_run_step: "http_step inflate s buf = Some (s', buf') \<Longrightarrow> http_run inflate s buf = http_run inflate s' buf'"
  by (simp add: http_run.simps [of inflate s buf])

lemma http_run_segments:
  assumes "concat segs = msg" "msg \<noteq> []" "http_run inflate s msg = r"
  shows "fold (http_feed inflate) segs (s, []) = r"
  using assms http_feed_fold [of segs inflate "(s, [])"] by (cases segs) (auto simp: http_feed_def)

lemma status_words:
  assumes "st \<in> {200, 400, 403, 404, 409, 429, 500, 503}"
  obtains n ws where "http_code_to_string st = show_nat n @ CHR '' '' # ws" "int n = st" "n < 2 ^ 31" "CHR 0x0D \<notin> set ws"
proof -
  have n: "show_nat 200 = ''200''" "show_nat 400 = ''400''" "show_nat 403 = ''403''" "show_nat 404 = ''404''"
    "show_nat 409 = ''409''" "show_nat 429 = ''429''" "show_nat 500 = ''500''" "show_nat 503 = ''503''"
    by code_simp+
  show ?thesis
    using assms that [of 200 "''OK''"] that [of 400 "''Bad Request''"] that [of 403 "''Forbidden''"]
      that [of 404 "''Not Found''"] that [of 409 "''Conflict''"] that [of 429 "''Too Many Requests''"]
      that [of 500 "''Internal Server Error''"] that [of 503 "''Service Unavailable''"]
    by (auto simp: http_code_to_string_def n)
qed

lemma error_response_received:
  assumes st: "st \<in> {200, 400, 403, 404, 409, 429, 500, 503}" and body: "make_api_error c desc = Some body"
    and len: "length body < 2 ^ 64" and resp: "build_api_error_rsponse st c desc = Some resp"
  shows "\<exists>r. http_run inflate AwaitHeaders (resp @ rest) = (Finished (None, r), rest) \<and> h_status r = st \<and> h_body r = body"
proof -
  obtain n ws where w: "http_code_to_string st = show_nat n @ CHR '' '' # ws" "int n = st" "n < 2 ^ 31" "CHR 0x0D \<notin> set ws"
    by (rule status_words [OF st])
  let ?ls = "response_lines (show_nat n @ CHR '' '' # ws) (length body) error_headers"
  let ?r = "no_reply\<lparr>h_headers := join ?ls crlf, h_status := int n,
      h_parsed := (''Content-Length'', show_nat (length body)) # error_headers\<rparr>"
  have resp': "resp = join ?ls crlf @ crlf @ crlf @ body" using resp body w by (simp add: error_response_lines)
  have "\<not> hasHeader ?r ''Content-Encoding''" by (simp add: hasHeader_def error_headers_def)
  from http_run_body [OF _ _ len this, of ?ls inflate rest]
    handle_response_headers [of error_headers "length body" n ws] w len
  show ?thesis by (simp add: resp')
qed

text \<open>
  (C9) HTTP, requests: whatever segments the text of build_request arrives in, the parser of
  the server finishes with the method, the resource, the content type and the body that went
  in, and no byte is left over.
\<close>

theorem request_delivered:
  assumes "CHR '' '' \<notin> set resource" "CHR 0x0D \<notin> set resource" "CHR 0x0D \<notin> set content_type"
    "plain_value content_type" "length body < 2 ^ 64" "concat segs = build_request resource content_type body"
  shows "\<exists>r. fold (http_feed inflate) segs (AwaitHeaders, []) = (Finished (None, r), []) \<and>
    h_method r = ''post'' \<and> h_resource r = resource \<and> getHeader r ''Content-Type'' = content_type \<and> h_body r = body"
proof -
  have "build_request resource content_type body \<noteq> []" by (simp add: build_request_def)
  from http_run_segments [OF assms(6) this] request_received [OF assms(1-5), of inflate "[]"]
  show ?thesis by (simp add: getHeader_def request_headers_def)
qed

lemma responses_run:
  assumes "length body < 2 ^ 64"
  shows "concat segs = buildApiOkResponse body \<Longrightarrow>
      \<exists>r. fold (http_feed inflate) segs (AwaitHeaders, []) = (Finished (None, r), []) \<and>
        h_status r = 200 \<and> h_body r = body"
    and "make_api_error c desc = Some body \<Longrightarrow> st \<in> {200, 400, 403, 404, 409, 429, 500, 503} \<Longrightarrow>
      build_api_error_rsponse st c desc = Some resp \<Longrightarrow> concat segs = resp \<Longrightarrow>
      \<exists>r. fold (http_feed inflate) segs (AwaitHeaders, []) = (Finished (None, r), []) \<and>
        h_status r = st \<and> h_body r = body"
proof -
  assume s: "concat segs = buildApiOkResponse body"
  have "buildApiOkResponse body \<noteq> []" by (simp add: buildApiOkResponse_def)
  from http_run_segments [OF s this] ok_response_received [OF assms, of inflate "[]"]
  show "\<exists>r. fold (http_feed inflate) segs (AwaitHeaders, []) = (Finished (None, r), []) \<and>
        h_status r = 200 \<and> h_body r = body" by auto
next
  assume s: "make_api_error c desc = Some body" "st \<in> {200, 400, 403, 404, 409, 429, 500, 503}"
      "build_api_error_rsponse st c desc = Some resp" "concat segs = resp"
  have "resp \<noteq> []" using s(3) by (auto simp: build_api_error_rsponse_def)
  from http_run_segments [OF s(4) this] error_response_received [OF s(2,1) assms s(3), of inflate "[]"]
  show "\<exists>r. fold (http_feed inflate) segs (AwaitHeaders, []) = (Finished (None, r), []) \<and>
        h_status r = st \<and> h_body r = body" by auto
qed

text \<open>
  (C11) HTTP, chunked transfer: the chunks of a body, in any segments, are put together to the
  body; the zero chunk ends it.
\<close>

theorem chunked_delivered:
  assumes "\<forall>c \<in> set cs. c \<noteq> [] \<and> length c < 2 ^ 64 - 2" "concat segs = chunk_encode cs"
  shows "fold (http_feed inflate) segs (AwaitChunkSize r, []) =
    (processReply inflate (r\<lparr>h_body := h_body r @ concat cs\<rparr>), [])"
proof -
  have "chunk_encode cs \<noteq> []" by (simp add: chunk_encode_def)
  from http_run_segments [OF assms(2) this] chunked_received [OF assms(1), of inflate r "[]"] show ?thesis by simp
qed

text \<open>
  The length of a chunk with its line end is computed in 64 bits: the size line
  ffffffffffffffff is accepted, and one byte is taken as the whole chunk and its line end.
\<close>

theorem chunk_size_wraps:
  "http_run inflate (AwaitChunkSize r) (''ffffffffffffffff'' @ crlf @ x # rest) =
    http_run inflate (AwaitChunkSize (r\<lparr>h_body := h_body r @ [x]\<rparr>)) rest"
proof -
  have "hex_char 15 = CHR ''f''" by code_simp
  then have x: "''ffffffffffffffff'' = show_hex (2 ^ 64 - 1)" by (simp add: show_hex.simps)
  have "(of_nat (2 ^ 64 - 1) :: u64) = - 1" by simp
  then have one: "http_step inflate (AwaitChunkSize r) (''ffffffffffffffff'' @ crlf @ x # rest) =
      Some (AwaitChunk r (- 1), x # rest)"
    using read_size_line [of "2 ^ 64 - 1" inflate r "x # rest"] unfolding x by simp
  have "unat (- 1 + 2 :: u64) = 1" by simp
  moreover have "unat (- 1 :: u64) \<noteq> 0" by (simp add: unat_eq_zero)
  then have "take (unat (- 1 :: u64)) [x] = [x]" by (cases "unat (- 1 :: u64)") simp_all
  ultimately have two: "http_step inflate (AwaitChunk r (- 1)) (x # rest) =
      Some (AwaitChunkSize (r\<lparr>h_body := h_body r @ [x]\<rparr>), rest)"
    by (simp add: http_step_def read_bytes_def processChunk_def)
  show ?thesis by (simp only: http_run_step [OF one] http_run_step [OF two])
qed

text \<open>
  (C10) HTTP, responses: whatever segments the 200 response or an error response of the server
  arrives in, the parser of the client finishes with its status and its body.
\<close>

theorem responses_delivered:
  assumes "length body < 2 ^ 64" "concat segs = resp"
    "resp = buildApiOkResponse body \<and> st = 200 \<or>
     (\<exists>c desc. make_api_error c desc = Some body \<and> build_api_error_rsponse st c desc = Some resp \<and>
       st \<in> {200, 400, 403, 404, 409, 429, 500, 503})"
  shows "\<exists>r. fold (http_feed inflate) segs (AwaitHeaders, []) = (Finished (None, r), []) \<and>
    h_status r = st \<and> h_body r = body"
  using assms(3) responses_run(1) [OF assms(1), of segs inflate] responses_run(2) [OF assms(1), of _ _ st resp segs inflate]
    assms(2) by blast

lemma request_delivered_witness:
  "\<exists>r. fold (http_feed (\<lambda>_. None)) [take 9 (build_request ''/v1/user/login'' ''application/json'' ''{}''),
      drop 9 (build_request ''/v1/user/login'' ''application/json'' ''{}'')] (AwaitHeaders, []) =
    (Finished (None, r), []) \<and> h_method r = ''post'' \<and> h_resource r = ''/v1/user/login'' \<and>
    getHeader r ''Content-Type'' = ''application/json'' \<and> h_body r = ''{}''"
  by (rule request_delivered) simp_all

lemma responses_delivered_witness:
  "\<exists>r. fold (http_feed (\<lambda>_. None)) [take 30 (buildApiOkResponse ''{}''), drop 30 (buildApiOkResponse ''{}'')]
      (AwaitHeaders, []) = (Finished (None, r), []) \<and> h_status r = 200 \<and> h_body r = ''{}''"
  by (rule responses_delivered [of _ _ "buildApiOkResponse ''{}''"]) simp_all

lemma chunked_delivered_witness:
  "fold (http_feed (\<lambda>_. None)) [take 4 (chunk_encode [''abc'', ''de'']), drop 4 (chunk_encode [''abc'', ''de''])]
      (AwaitChunkSize no_reply, []) =
    (processReply (\<lambda>_. None) (no_reply\<lparr>h_body := ''abcde''\<rparr>), [])"
  using chunked_delivered [of "[''abc'', ''de'']" "[take 4 (chunk_encode [''abc'', ''de'']),
      drop 4 (chunk_encode [''abc'', ''de''])]" "\<lambda>_. None" no_reply]
  by (simp add: no_reply_def)

end
