(* ===== verification/Database_Inv.thy ===== *)
theory Database_Inv
  imports Database
begin

text \<open>
  The invariant of the in-memory storage and its preservation by every operation of
  \<open>InMemoryConnection\<close>. It says what \<open>mysql/init.sql\<close> states by keys and constraints:
  primary keys number the rows, names of users are unique, every user owns a chat of
  the same name, and \<open>chatuser\<close> and \<open>message\<close> rows point to existing rows.
\<close>

section \<open>The invariant\<close>

text \<open>Primary keys: row \<open>i\<close> of a table has the identifier \<open>i + 1\<close>.\<close>

definition ids_ok :: "storage \<Rightarrow> bool" where
  "ids_ok st \<longleftrightarrow>
     map (\<lambda>u. unat (user_id u)) (users st) = [1..<Suc (length (users st))] \<and>
     map (\<lambda>c. unat (chat_id c)) (chats st) = [1..<Suc (length (chats st))] \<and>
     unat (user_autoincrement st) = Suc (length (users st)) \<and>
     unat (chat_autoincrement st) = Suc (length (chats st))"

text \<open>Users: unique names, and each user is a member of a chat of its own name.\<close>

definition users_ok :: "storage \<Rightarrow> bool" where
  "users_ok st \<longleftrightarrow>
     distinct (map user_name (users st)) \<and>
     distinct (map self_chat_id (users st)) \<and>
     (\<forall>u \<in> set (users st). mk_chat (self_chat_id u) (user_name u) \<in> set (chats st) \<and>
        mk_chatuser (self_chat_id u) (user_id u) \<in> set (chatuser st))"

text \<open>Foreign keys of the membership rows and of the message log.\<close>

definition members_ok :: "storage \<Rightarrow> bool" where
  "members_ok st \<longleftrightarrow>
     distinct (chatuser st) \<and>
     (\<forall>cu \<in> set (chatuser st). cu_chatid cu \<in> chat_id ` set (chats st) \<and>
        cu_uid cu \<in> user_id ` set (users st))"

definition log_ok :: "storage \<Rightarrow> bool" where
  "log_ok st \<longleftrightarrow>
     (\<forall>m \<in> set (messages st). user_from m \<in> user_id ` set (users st) \<and>
        chat_to m \<in> chat_id ` set (chats st))"

definition storage_inv :: "storage \<Rightarrow> bool" where
  "storage_inv st \<longleftrightarrow> ids_ok st \<and> users_ok st \<and> members_ok st \<and> log_ok st"

text \<open>The next chat identifier is not the last one a \<open>uint64_t\<close> can hold.\<close>

definition has_room :: "storage \<Rightarrow> bool" where
  "has_room st \<longleftrightarrow> unat (chat_autoincrement st) < 2 ^ 64 - 1"

lemmas inv_defs = storage_inv_def ids_ok_def users_ok_def members_ok_def log_ok_def

section \<open>Consequences\<close>

lemma ids_ok_user_distinct: "ids_ok st \<Longrightarrow> distinct (map user_id (users st))"
  by (metis (no_types, lifting) ids_ok_def distinct_map distinct_upt inj_on_def)

lemma ids_ok_chat_distinct: "ids_ok st \<Longrightarrow> distinct (map chat_id (chats st))"
  by (metis (no_types, lifting) ids_ok_def distinct_map distinct_upt inj_on_def)

lemma ids_ok_user_bounds:
  assumes "ids_ok st" "u \<in> set (users st)"
  shows "0 < unat (user_id u) \<and> unat (user_id u) < unat (user_autoincrement st)"
proof -
  have "unat (user_id u) \<in> set (map (\<lambda>u. unat (user_id u)) (users st))"
    using assms(2) by auto
  then have "unat (user_id u) \<in> set [1..<Suc (length (users st))]"
    using assms(1) by (simp only: ids_ok_def)
  then show ?thesis using assms(1) by (auto simp: ids_ok_def)
qed

lemma ids_ok_chat_bounds:
  assumes "ids_ok st" "c \<in> set (chats st)"
  shows "0 < unat (chat_id c) \<and> unat (chat_id c) < unat (chat_autoincrement st)"
proof -
  have "unat (chat_id c) \<in> set (map (\<lambda>c. unat (chat_id c)) (chats st))"
    using assms(2) by auto
  then have "unat (chat_id c) \<in> set [1..<Suc (length (chats st))]"
    using assms(1) by (simp only: ids_ok_def)
  then show ?thesis using assms(1) by (auto simp: ids_ok_def)
qed

lemma user_id_nonzero: "ids_ok st \<Longrightarrow> u \<in> set (users st) \<Longrightarrow> user_id u \<noteq> 0"
  using ids_ok_user_bounds by fastforce

lemma chat_id_nonzero: "ids_ok st \<Longrightarrow> c \<in> set (chats st) \<Longrightarrow> chat_id c \<noteq> 0"
  using ids_ok_chat_bounds by fastforce

lemma fresh_user_id: "ids_ok st \<Longrightarrow> u \<in> set (users st) \<Longrightarrow> user_id u \<noteq> user_autoincrement st"
  using ids_ok_user_bounds by fastforce

lemma fresh_chat_id: "ids_ok st \<Longrightarrow> c \<in> set (chats st) \<Longrightarrow> chat_id c \<noteq> chat_autoincrement st"
  using ids_ok_chat_bounds by fastforce

lemma storage_invD:
  assumes "storage_inv st"
  shows "ids_ok st" "users_ok st" "members_ok st" "log_ok st"
  using assms by (simp_all add: storage_inv_def)

text \<open>Every user has a chat of its own, so there are at least as many chats as users.\<close>

lemma users_le_chats:
  assumes "ids_ok st" "users_ok st"
  shows "length (users st) \<le> length (chats st)"
proof -
  have "self_chat_id ` set (users st) \<subseteq> chat_id ` set (chats st)"
    using assms(2) by (force simp: users_ok_def mk_chat_def image_iff)
  then have "card (self_chat_id ` set (users st)) \<le> card (chat_id ` set (chats st))"
    by (simp add: card_mono)
  moreover have "card (self_chat_id ` set (users st)) = length (users st)"
    using assms(2) distinct_card [of "map self_chat_id (users st)"] by (simp add: users_ok_def)
  moreover have "card (chat_id ` set (chats st)) = length (chats st)"
    using ids_ok_chat_distinct [OF assms(1)] distinct_card [of "map chat_id (chats st)"] by simp
  ultimately show ?thesis by simp
qed

lemma room_for_user: "storage_inv st \<Longrightarrow> has_room st \<Longrightarrow> unat (user_autoincrement st) < 2 ^ 64 - 1"
  using users_le_chats [of st] by (simp add: storage_inv_def has_room_def ids_ok_def)

section \<open>Preservation\<close>

lemma empty_storage_inv [db_inv]: "storage_inv empty_storage"
  by (simp add: inv_defs empty_storage_def)

lemma set_heartbit_map:
  "(\<And>u t. f (u\<lparr>heartbit := t\<rparr>) = f u) \<Longrightarrow> map f (set_heartbit i t us) = map f us"
  by (induction us) auto

lemma length_set_heartbit [simp]: "length (set_heartbit i t us) = length us"
  by (induction us) auto

lemma set_heartbit_same:
  "(\<And>u t. f (u\<lparr>heartbit := t\<rparr>) = f u) \<Longrightarrow> f ` set (set_heartbit i t us) = f ` set us"
  by (metis list.set_map set_heartbit_map)

lemma set_heartbit_ball:
  "(\<forall>u \<in> set (set_heartbit i t us). P (self_chat_id u) (user_name u) (user_id u)) \<longleftrightarrow>
   (\<forall>u \<in> set us. P (self_chat_id u) (user_name u) (user_id u))"
  by (induction us) auto

lemma updateUserHeartBit_inv [db_inv]:
  assumes "storage_inv st"
  shows "storage_inv (updateUserHeartBit u t st)"
  using assms
    set_heartbit_ball [of "user_id u" t "users st"
      "\<lambda>s n i. mk_chat s n \<in> set (chats st) \<and> mk_chatuser s i \<in> set (chatuser st)"]
  by (simp add: inv_defs updateUserHeartBit_def set_heartbit_map set_heartbit_same)

lemma fresh_self_chat:
  assumes "ids_ok st" "users_ok st" "u \<in> set (users st)"
  shows "self_chat_id u \<noteq> chat_autoincrement st"
proof -
  have "mk_chat (self_chat_id u) (user_name u) \<in> set (chats st)"
    using assms(2,3) by (auto simp: users_ok_def)
  from fresh_chat_id [OF assms(1) this] show ?thesis by (simp add: mk_chat_def)
qed

lemma fresh_member:
  assumes "ids_ok st" "members_ok st" "cu \<in> set (chatuser st)"
  shows "cu_chatid cu \<noteq> chat_autoincrement st"
proof -
  obtain c where "c \<in> set (chats st)" "cu_chatid cu = chat_id c"
    using assms(2,3) by (auto simp: members_ok_def)
  with fresh_chat_id [OF assms(1)] show ?thesis by auto
qed

lemma fresh_member_row:
  "ids_ok st \<Longrightarrow> members_ok st \<Longrightarrow> mk_chatuser (chat_autoincrement st) i \<notin> set (chatuser st)"
  using fresh_member [of st "mk_chatuser (chat_autoincrement st) i"] by (auto simp: mk_chatuser_def)

lemma mk_sel [simp]:
  "user_id (mk_user i c n p s) = i" "self_chat_id (mk_user i c n p s) = c"
  "user_name (mk_user i c n p s) = n" "password (mk_user i c n p s) = p"
  "chat_id (mk_chat c n) = c" "chat_name (mk_chat c n) = n"
  "cu_chatid (mk_chatuser c i) = c" "cu_uid (mk_chatuser c i) = i"
  by (simp_all add: mk_user_def mk_chat_def mk_chatuser_def)

lemma createUser_cases:
  obtains (taken) "\<exists>u \<in> set (users st). user_name u = name" "createUser name pass path st = (no_user, st)"
  | (fresh) "\<forall>u \<in> set (users st). user_name u \<noteq> name"
      "createUser name pass path st =
         (mk_user (user_autoincrement st) (chat_autoincrement st) name pass path,
          st\<lparr>chat_autoincrement := chat_autoincrement st + 1,
             user_autoincrement := user_autoincrement st + 1,
             chats := chats st @ [mk_chat (chat_autoincrement st) name],
             users := users st @ [mk_user (user_autoincrement st) (chat_autoincrement st) name pass path],
             chatuser := chatuser st @ [mk_chatuser (chat_autoincrement st) (user_autoincrement st)]\<rparr>)"
  by (cases "\<exists>u \<in> set (users st). user_name u = name") (auto simp: createUser_def Let_def)

lemma createUser_inv [db_inv]:
  assumes inv: "storage_inv st" and room: "has_room st"
  shows "storage_inv (snd (createUser name pass path st))"
proof (cases rule: createUser_cases [of st name pass path])
  case taken
  with inv show ?thesis by simp
next
  case fresh
  let ?st = "snd (createUser name pass path st)"
  note D = storage_invD [OF inv]
  have "ids_ok ?st"
    using D(1) room room_for_user [OF inv room] fresh(2)
    by (simp add: ids_ok_def has_room_def unat_Suc_u64)
  moreover have "chat_autoincrement st \<notin> self_chat_id ` set (users st)"
    using fresh_self_chat [OF D(1,2)] by force
  then have "users_ok ?st"
    using D(2) fresh by (auto simp: users_ok_def)
  moreover have "members_ok ?st"
    using D(3) fresh(2) fresh_member_row [OF D(1,3)]
    by (auto simp: members_ok_def)
  moreover have "log_ok ?st"
    using D(4) fresh(2) by (auto simp: log_ok_def)
  ultimately show ?thesis by (simp add: storage_inv_def)
qed

lemma createChat_cases:
  obtains (taken) "\<exists>c \<in> set (chats st). chat_name c = name" "createChat name uid st = (no_chat, st)"
  | (fresh) "\<forall>c \<in> set (chats st). chat_name c \<noteq> name"
      "createChat name uid st =
         (mk_chat (chat_autoincrement st) name,
          st\<lparr>chat_autoincrement := chat_autoincrement st + 1,
             chats := chats st @ [mk_chat (chat_autoincrement st) name],
             chatuser := (if uid > 0 then chatuser st @ [mk_chatuser (chat_autoincrement st) uid]
                          else chatuser st)\<rparr>)"
  by (cases "\<exists>c \<in> set (chats st). chat_name c = name") (auto simp: createChat_def Let_def)

lemma createChat_inv [db_inv]:
  assumes inv: "storage_inv st" and room: "has_room st"
    and uid: "uid = 0 \<or> uid \<in> user_id ` set (users st)"
  shows "storage_inv (snd (createChat name uid st))"
proof (cases rule: createChat_cases [of st name uid])
  case taken
  with inv show ?thesis by simp
next
  case fresh
  let ?st = "snd (createChat name uid st)"
  note D = storage_invD [OF inv]
  have "ids_ok ?st"
    using D(1) room fresh(2) by (simp add: ids_ok_def has_room_def unat_Suc_u64)
  moreover have "users_ok ?st"
    using D(2) fresh(2) by (auto simp: users_ok_def)
  moreover have "members_ok ?st"
    using D(3) fresh(2) uid fresh_member_row [OF D(1,3)]
    by (auto simp: members_ok_def word_gt_0)
  moreover have "log_ok ?st"
    using D(4) fresh(2) by (auto simp: log_ok_def)
  ultimately show ?thesis by (simp add: storage_inv_def)
qed

lemma addUserToChat_inv [db_inv]:
  assumes "storage_inv st" "chat_id c \<in> chat_id ` set (chats st)" "user_id u \<in> user_id ` set (users st)"
  shows "storage_inv (addUserToChat c u st)"
  using assms
  by (auto simp: addUserToChat_def inv_defs mk_chatuser_def)

lemma saveMessage_inv [db_inv]:
  assumes "storage_inv st" "user_from m \<in> user_id ` set (users st)" "chat_to m \<in> chat_id ` set (chats st)"
  shows "storage_inv (saveMessage m st)"
  using assms by (auto simp: saveMessage_def inv_defs)

definition refs :: "db_message \<Rightarrow> u64 \<times> u64" where
  "refs m = (user_from m, chat_to m)"

lemma refs_unflag: "map refs ms = map refs (map unflag ms)"
  by (simp add: refs_def unflag_def)

lemma log_ok_refs:
  "log_ok st \<longleftrightarrow>
     refs ` set (messages st) \<subseteq> user_id ` set (users st) \<times> chat_id ` set (chats st)"
  by (auto simp: log_ok_def refs_def)

lemma refs_same: "map unflag ms = map unflag ms' \<Longrightarrow> refs ` set ms = refs ` set ms'"
  by (metis list.set_map refs_unflag)

lemma getMessages_inv [db_inv]:
  assumes inv: "storage_inv st"
  shows "storage_inv (snd (getMessages chatid opt st))"
proof -
  let ?st = "snd (getMessages chatid opt st)"
  note D = storage_invD [OF inv]
  have "log_ok ?st"
    using D(4) refs_same [OF getMessages_unflag [of chatid opt st]] by (simp add: log_ok_refs)
  with D show ?thesis
    by (simp add: storage_inv_def ids_ok_def users_ok_def members_ok_def)
qed

end
