(* ===== verification/Connection.thy ===== *)
theory Connection
  imports Database_Inv
begin

text \<open>
  \<open>AbstractConnection\<close> of \<open>server/src/database.hpp\<close> as a record of its virtual methods
  over a state \<open>'s\<close>, with its two implementations: \<open>InMemoryConnection\<close> over the storage
  and \<open>MysqlConnection\<close>, whose methods are all stubs. Two locales state what the database
  worker relies on; both are interpreted on both implementations.
\<close>

section \<open>The virtual methods\<close>

record 's connection =
  c_updateUserHeartBit :: "db_user \<Rightarrow> u64 \<Rightarrow> 's \<Rightarrow> 's"
  c_createUser :: "string \<Rightarrow> string \<Rightarrow> string \<Rightarrow> 's \<Rightarrow> db_user \<times> 's"
  c_createChat :: "string \<Rightarrow> u64 \<Rightarrow> 's \<Rightarrow> db_chat \<times> 's"
  c_lookupUserByName :: "string \<Rightarrow> 's \<Rightarrow> db_user list"
  c_lookupUserById :: "u64 \<Rightarrow> 's \<Rightarrow> db_user"
  c_lookupChatsForUserId :: "u64 \<Rightarrow> 's \<Rightarrow> db_chat list"
  c_lookupChatByName :: "string \<Rightarrow> 's \<Rightarrow> db_chat list"
  c_lookupChatById :: "u64 \<Rightarrow> 's \<Rightarrow> db_chat"
  c_lookupUsersForChatId :: "u64 \<Rightarrow> 's \<Rightarrow> db_user list"
  c_addUserToChat :: "db_chat \<Rightarrow> db_user \<Rightarrow> 's \<Rightarrow> 's"
  c_saveMessage :: "db_message \<Rightarrow> 's \<Rightarrow> 's"
  c_getMessages :: "u64 \<Rightarrow> get_msg_opt_t \<Rightarrow> 's \<Rightarrow> db_message list \<times> 's"
  c_selectMessages :: "(db_message \<Rightarrow> bool) \<Rightarrow> get_msg_opt_t \<Rightarrow> 's \<Rightarrow> db_message list"

definition InMemoryConnection :: "storage connection" where
  "InMemoryConnection = \<lparr>
     c_updateUserHeartBit = updateUserHeartBit,
     c_createUser = createUser,
     c_createChat = createChat,
     c_lookupUserByName = lookupUserByName,
     c_lookupUserById = lookupUserById,
     c_lookupChatsForUserId = lookupChatsForUserId,
     c_lookupChatByName = lookupChatByName,
     c_lookupChatById = lookupChatById,
     c_lookupUsersForChatId = lookupUsersForChatId,
     c_addUserToChat = addUserToChat,
     c_saveMessage = saveMessage,
     c_getMessages = getMessages,
     c_selectMessages = selectMessages\<rparr>"

definition MysqlConnection :: "'s connection" where
  "MysqlConnection = \<lparr>
     c_updateUserHeartBit = (\<lambda>_ _ st. st),
     c_createUser = (\<lambda>_ _ _ st. (no_user, st)),
     c_createChat = (\<lambda>_ _ st. (no_chat, st)),
     c_lookupUserByName = (\<lambda>_ _. []),
     c_lookupUserById = (\<lambda>_ _. no_user),
     c_lookupChatsForUserId = (\<lambda>_ _. []),
     c_lookupChatByName = (\<lambda>_ _. []),
     c_lookupChatById = (\<lambda>_ _. no_chat),
     c_lookupUsersForChatId = (\<lambda>_ _. []),
     c_addUserToChat = (\<lambda>_ _ st. st),
     c_saveMessage = (\<lambda>_ st. st),
     c_getMessages = (\<lambda>_ _ st. ([], st)),
     c_selectMessages = (\<lambda>_ _ _. [])\<rparr>"

lemma InMemory_simps [simp]:
  "c_updateUserHeartBit InMemoryConnection = updateUserHeartBit"
  "c_createUser InMemoryConnection = createUser"
  "c_createChat InMemoryConnection = createChat"
  "c_lookupUserByName InMemoryConnection = lookupUserByName"
  "c_lookupUserById InMemoryConnection = lookupUserById"
  "c_lookupChatsForUserId InMemoryConnection = lookupChatsForUserId"
  "c_lookupChatByName InMemoryConnection = lookupChatByName"
  "c_lookupChatById InMemoryConnection = lookupChatById"
  "c_lookupUsersForChatId InMemoryConnection = lookupUsersForChatId"
  "c_addUserToChat InMemoryConnection = addUserToChat"
  "c_saveMessage InMemoryConnection = saveMessage"
  "c_getMessages InMemoryConnection = getMessages"
  "c_selectMessages InMemoryConnection = selectMessages"
  by (simp_all add: InMemoryConnection_def)

section \<open>What the lookups promise\<close>

text \<open>
  \<open>lookups\<close>: a row that a lookup returns is a row that was asked for. \<open>inv\<close> is the
  consistency of the state behind the connection.
\<close>

locale lookups =
  fixes conn :: "'s connection"
    and inv :: "'s \<Rightarrow> bool"
  assumes user_by_id: "inv st \<Longrightarrow> user_id (c_lookupUserById conn i st) \<in> {0, i}"
    and user_by_name: "inv st \<Longrightarrow> u \<in> set (c_lookupUserByName conn n st) \<Longrightarrow>
      user_name u = n \<and> user_id u \<noteq> 0"
    and user_name_unique: "inv st \<Longrightarrow> length (c_lookupUserByName conn n st) \<le> 1"
    and chat_by_name: "inv st \<Longrightarrow> c \<in> set (c_lookupChatByName conn n st) \<Longrightarrow>
      chat_name c = n \<and> chat_id c \<noteq> 0"
begin

lemma by_name_cases:
  assumes "inv st"
  obtains (none) "c_lookupUserByName conn n st = []"
  | (one) u where "c_lookupUserByName conn n st = [u]" "user_name u = n" "user_id u \<noteq> 0"
proof (cases "c_lookupUserByName conn n st")
  case Nil
  then show ?thesis by (rule none)
next
  case (Cons u us)
  with user_name_unique [OF assms, of n] have "us = []" by simp
  with Cons user_by_name [OF assms, of u n] show ?thesis by (intro one) auto
qed

lemma by_id_known:
  "inv st \<Longrightarrow> user_id (c_lookupUserById conn i st) \<noteq> 0 \<Longrightarrow> user_id (c_lookupUserById conn i st) = i"
  using user_by_id by blast

end

text \<open>
  \<open>consistent\<close>: every operation keeps the consistency, when its arguments refer to rows
  that exist. \<open>room\<close> is a free row number for one more chat.
\<close>

locale consistent = lookups conn inv for conn :: "'s connection" and inv +
  fixes room :: "'s \<Rightarrow> bool"
    and knows_user :: "'s \<Rightarrow> u64 \<Rightarrow> bool"
    and knows_chat :: "'s \<Rightarrow> u64 \<Rightarrow> bool"
  assumes known_id: "inv st \<Longrightarrow> user_id (c_lookupUserById conn i st) \<noteq> 0 \<Longrightarrow> knows_user st i"
    and known_name: "inv st \<Longrightarrow> u \<in> set (c_lookupUserByName conn n st) \<Longrightarrow>
      knows_user st (user_id u) \<and> knows_chat st (self_chat_id u)"
    and known_chat: "inv st \<Longrightarrow> c \<in> set (c_lookupChatByName conn n st) \<Longrightarrow> knows_chat st (chat_id c)"
    and heartbit_inv: "inv st \<Longrightarrow> inv (c_updateUserHeartBit conn u t st)"
    and createUser_inv: "inv st \<Longrightarrow> room st \<Longrightarrow> inv (snd (c_createUser conn n p s st))"
    and createChat_inv: "inv st \<Longrightarrow> room st \<Longrightarrow> knows_user st uid \<Longrightarrow> inv (snd (c_createChat conn n uid st))"
    and addUser_inv: "inv st \<Longrightarrow> knows_chat st (chat_id c) \<Longrightarrow> knows_user st (user_id u) \<Longrightarrow>
      inv (c_addUserToChat conn c u st)"
    and save_inv: "inv st \<Longrightarrow> knows_user st (user_from m) \<Longrightarrow> knows_chat st (chat_to m) \<Longrightarrow>
      inv (c_saveMessage conn m st)"
    and getMessages_inv: "inv st \<Longrightarrow> inv (snd (c_getMessages conn i opt st))"

section \<open>The two implementations\<close>

lemma lookupUserById_cases:
  obtains (none) "lookupUserById i st = no_user" "\<forall>u \<in> set (users st). user_id u \<noteq> i"
  | (some) u where "u \<in> set (users st)" "user_id u = i" "lookupUserById i st = u"
proof (cases "List.find (\<lambda>u. user_id u = i) (users st)")
  case None
  moreover from None have "\<forall>u \<in> set (users st). user_id u \<noteq> i" by (simp add: find_None_iff)
  ultimately show ?thesis by (intro none) (simp_all add: lookupUserById_def)
next
  case (Some u)
  moreover from Some have "u \<in> set (users st)" "user_id u = i" by (auto simp: find_Some_iff)
  ultimately show ?thesis by (intro some[of u]) (simp_all add: lookupUserById_def)
qed

lemma lookupChatById_cases:
  obtains (none) "lookupChatById i st = no_chat" "\<forall>c \<in> set (chats st). chat_id c \<noteq> i"
  | (some) c where "c \<in> set (chats st)" "chat_id c = i" "lookupChatById i st = c"
proof (cases "List.find (\<lambda>c. chat_id c = i) (chats st)")
  case None
  moreover from None have "\<forall>c \<in> set (chats st). chat_id c \<noteq> i" by (simp add: find_None_iff)
  ultimately show ?thesis by (intro none) (simp_all add: lookupChatById_def)
next
  case (Some c)
  moreover from Some have "c \<in> set (chats st)" "chat_id c = i" by (auto simp: find_Some_iff)
  ultimately show ?thesis by (intro some[of c]) (simp_all add: lookupChatById_def)
qed

lemma filter_distinct_length:
  "distinct (map f xs) \<Longrightarrow> length (filter (\<lambda>x. f x = k) xs) \<le> 1"
proof (induction xs)
  case (Cons x xs)
  then have "filter (\<lambda>y. f y = k) xs = []" if "f x = k"
    using that by (auto simp: filter_empty_conv image_iff)
  with Cons show ?case by auto
qed simp

lemma users_self_chat:
  "users_ok st \<Longrightarrow> u \<in> set (users st) \<Longrightarrow> self_chat_id u \<in> chat_id ` set (chats st)"
  by (force simp: users_ok_def image_iff)

interpretation mem: consistent InMemoryConnection storage_inv has_room
  "\<lambda>st i. i \<in> user_id ` set (users st)" "\<lambda>st i. i \<in> chat_id ` set (chats st)"
proof unfold_locales
  fix st i
  assume inv: "storage_inv st"
  show "user_id (c_lookupUserById InMemoryConnection i st) \<in> {0, i}"
    by (cases rule: lookupUserById_cases [of i st]) (auto simp: no_user_def)
  assume "user_id (c_lookupUserById InMemoryConnection i st) \<noteq> 0"
  then show "i \<in> user_id ` set (users st)"
    by (cases rule: lookupUserById_cases [of i st]) (auto simp: no_user_def)
next
  fix st n
  assume "storage_inv st"
  then show "length (c_lookupUserByName InMemoryConnection n st) \<le> 1"
    using filter_distinct_length [of user_name "users st" n]
    by (simp add: lookupUserByName_def storage_inv_def users_ok_def)
qed (auto simp: lookupUserByName_def lookupChatByName_def storage_invD users_self_chat intro: db_inv
    dest: user_id_nonzero [OF storage_invD(1)] chat_id_nonzero [OF storage_invD(1)])

interpretation mysql: consistent "MysqlConnection :: unit connection" "\<lambda>_. True" "\<lambda>_. True" "\<lambda>_ _. False"
  "\<lambda>_ _. False"
  by unfold_locales (simp_all add: MysqlConnection_def no_user_def)

end
