(* ===== verification/Lock_Queue.thy ===== *)
theory Lock_Queue
  imports Prelude
begin

text \<open>
  \<open>common/lock_queue.hpp\<close>: the mutex-protected queue \<open>Queue<T>\<close> through which the
  network threads hand tasks to the database workers and the console hands events to
  the client. Every method holds the mutex for its whole body, so each method is one
  atomic step on the contents of \<open>m_Queue\<close>; an interleaving of threads is a sequence of
  such steps.
\<close>

record 'a lock_queue =
  m_Queue :: "'a list"

definition queue_new :: "'a lock_queue" where
  "queue_new = \<lparr>m_Queue = []\<rparr>"

definition push :: "'a \<Rightarrow> 'a lock_queue \<Rightarrow> 'a lock_queue" where
  "push t q = q\<lparr>m_Queue := m_Queue q @ [t]\<rparr>"

text \<open>
  \<open>std::queue::pop\<close> and \<open>front\<close> on an empty queue are undefined behaviour; \<open>None\<close>
  stands for it.
\<close>

definition pop :: "'a lock_queue \<Rightarrow> 'a lock_queue option" where
  "pop q = (case m_Queue q of [] \<Rightarrow> None | _ # ts \<Rightarrow> Some (q\<lparr>m_Queue := ts\<rparr>))"

definition front :: "'a lock_queue \<Rightarrow> 'a option" where
  "front q = (case m_Queue q of [] \<Rightarrow> None | t # _ \<Rightarrow> Some t)"

definition queue_size :: "'a lock_queue \<Rightarrow> nat" where
  "queue_size q = length (m_Queue q)"

text \<open>\<open>getTask(T &t)\<close>: \<open>None\<close> is the result \<open>false\<close>, with \<open>t\<close> left alone.\<close>

definition getTask :: "'a lock_queue \<Rightarrow> ('a \<times> 'a lock_queue) option" where
  "getTask q = (case m_Queue q of [] \<Rightarrow> None | t # ts \<Rightarrow> Some (t, q\<lparr>m_Queue := ts\<rparr>))"

text \<open>
  \<open>getTask(std::vector<T> &t, size_t n)\<close>: the loop \<open>while (n--)\<close> moves one element per
  round and stops when the queue has become empty.
\<close>

fun getTasks_loop :: "nat \<Rightarrow> 'a list \<Rightarrow> 'a list \<Rightarrow> 'a list \<times> 'a list" where
  "getTasks_loop 0 t q = (t, q)"
| "getTasks_loop (Suc n) t [] = (t, [])"
| "getTasks_loop (Suc n) t (x # q) =
     (if q = [] then (t @ [x], []) else getTasks_loop n (t @ [x]) q)"

definition getTasks :: "'a list \<Rightarrow> nat \<Rightarrow> 'a lock_queue \<Rightarrow> ('a list \<times> 'a lock_queue) option" where
  "getTasks t n q =
     (if m_Queue q = [] then None
      else (case getTasks_loop n t (m_Queue q) of (t', ts) \<Rightarrow> Some (t', q\<lparr>m_Queue := ts\<rparr>)))"

lemma getTasks_loop_eq: "getTasks_loop n t q = (t @ take n q, drop n q)"
  by (induction n t q rule: getTasks_loop.induct) auto

section \<open>The interface the workers rely on\<close>

text \<open>
  A worker and a producer see the queue through \<open>push\<close> and \<open>getTask\<close> only. The laws
  say that the abstraction \<open>contents\<close> is a fifo.
\<close>

fun serve :: "('q \<Rightarrow> ('a \<times> 'q) option) \<Rightarrow> nat \<Rightarrow> 'q \<Rightarrow> 'a list \<times> 'q" where
  "serve deq 0 q = ([], q)"
| "serve deq (Suc n) q =
     (case deq q of None \<Rightarrow> ([], q)
      | Some (x, q') \<Rightarrow> (case serve deq n q' of (xs, q'') \<Rightarrow> (x # xs, q'')))"

locale fifo =
  fixes contents :: "'q \<Rightarrow> 'a list"
    and enq :: "'a \<Rightarrow> 'q \<Rightarrow> 'q"
    and deq :: "'q \<Rightarrow> ('a \<times> 'q) option"
  assumes contents_enq: "contents (enq x q) = contents q @ [x]"
    and deq_None: "deq q = None \<longleftrightarrow> contents q = []"
    and deq_Some: "deq q = Some (x, q') \<Longrightarrow> contents q = x # contents q'"
begin

lemma contents_fold_enq: "contents (fold enq xs q) = contents q @ xs"
  by (induction xs arbitrary: q) (auto simp: contents_enq)

lemma serve_spec:
  "fst (serve deq n q) = take n (contents q) \<and> contents (snd (serve deq n q)) = drop n (contents q)"
proof (induction n arbitrary: q)
  case 0
  then show ?case by simp
next
  case (Suc n)
  show ?case
  proof (cases "deq q")
    case None
    then show ?thesis by (simp add: deq_None [THEN iffD1])
  next
    case (Some r)
    obtain x q' where r: "r = (x, q')" by (cases r)
    with Some have "contents q = x # contents q'" by (simp add: deq_Some)
    with Some r Suc.IH [of q'] show ?thesis by (auto split: prod.splits)
  qed
qed

text \<open>What was enqueued on an empty queue is served in the same order.\<close>

lemma served_in_order:
  assumes "contents q = []"
  shows "fst (serve deq (length xs) (fold enq xs q)) = xs"
  using serve_spec [of "length xs" "fold enq xs q"] by (simp add: contents_fold_enq assms)

end

interpretation lq: fifo m_Queue push getTask
  by unfold_locales (auto simp: push_def getTask_def split: list.splits)

end
