(* ===== verification/Db_Worker.thy ===== *)
theory Db_Worker
  imports Connection Cli_Api Lock_Queue "HOL-Library.Multiset"
begin

text \<open>
  The database workers, \<open>server/src/database_worker.cpp\<close>: a worker takes a task from the
  queue, runs it on its connection, and answers through the task's \<open>ApiClient\<close>. The
  methods of \<open>ApiClient\<close> a task calls are the actions of the model. Arguments of every
  definition: \<open>crc\<close>, the checksum of \<open>boost::crc_32_type\<close>; \<open>now\<close>, \<open>time(NULL)\<close>;
  \<open>srt\<close>, \<open>std::sort\<close> by descending time, which leaves the order of equal times open; the
  connection. A result \<open>None\<close> is an abort in the JSON writer; no task has it.
\<close>

section \<open>Tasks and answers\<close>

record 'c task =
  t_ping :: bool
  t_cmd :: cmd_t
  t_request :: params
  t_client :: 'c
  t_storage :: string

datatype action =
    SendErrorResponse int ApiStatusCode string
  | SendOkResponse string
  | SendMessagesToIdleConn "api_message list"
  | SendMessages "api_message list"

type_synonym 's outcome = "('s \<times> action list) option"

text \<open>\<open>std::to_string(utils::crc32(password))\<close>; \<open>crc32\<close> returns the checksum as an \<open>int\<close>.\<close>

definition crc32 :: "(string \<Rightarrow> u32) \<Rightarrow> string \<Rightarrow> int" where
  "crc32 crc data = sint (crc data)"

definition encrypted :: "(string \<Rightarrow> u32) \<Rightarrow> string \<Rightarrow> string" where
  "encrypted crc pass = show_int (crc32 crc pass)"

section \<open>Helpers\<close>

definition lookup_check_pass ::
  "(string \<Rightarrow> u32) \<Rightarrow> 's connection \<Rightarrow> 'c task \<Rightarrow> 's \<Rightarrow> db_user \<times> action list" where
  "lookup_check_pass crc conn task st =
     (let user = c_lookupUserById conn (p_uid (t_request task)) st in
      if user_id user = 0 then
        (no_user, [SendErrorResponse 409 ERR_CONSTRAINT ''user does not exist''])
      else if encrypted crc (p_password (t_request task)) \<noteq> password user then
        (no_user, [SendErrorResponse 403 ERR_CONSTRAINT ''wrong password''])
      else (user, []))"

definition lookup_check_pass_by_name ::
  "(string \<Rightarrow> u32) \<Rightarrow> 's connection \<Rightarrow> string \<Rightarrow> 'c task \<Rightarrow> bool \<Rightarrow> 's \<Rightarrow> db_user \<times> action list" where
  "lookup_check_pass_by_name crc conn name task check_pass st =
     (case c_lookupUserByName conn name st of
        [] \<Rightarrow> (no_user, [SendErrorResponse 404 ERR_NOT_FOUND ''user does not exist''])
      | [user] \<Rightarrow>
          if check_pass \<and> encrypted crc (p_password (t_request task)) \<noteq> password user then
            (no_user, [SendErrorResponse 403 ERR_CONSTRAINT ''wrong password''])
          else (user, [])
      | _ \<Rightarrow> (no_user, [SendErrorResponse 500 ERR_INTERNAL ''more than one user with that name'']))"

definition to_api_message :: "'s connection \<Rightarrow> 's \<Rightarrow> db_message \<Rightarrow> api_message" where
  "to_api_message conn st msg =
     \<lparr>am_ts = ts msg,
      am_from = user_name (c_lookupUserById conn (user_from msg) st),
      am_to = chat_name (c_lookupChatById conn (chat_to msg) st),
      am_msg = message msg\<rparr>"

definition to_api_format :: "'s connection \<Rightarrow> 's \<Rightarrow> db_message list \<Rightarrow> api_message list" where
  "to_api_format conn st msgs = map (to_api_message conn st) msgs"

definition to_api_format_batch :: "'s connection \<Rightarrow> 's \<Rightarrow> db_message list list \<Rightarrow> api_message list" where
  "to_api_format_batch conn st batch = concat (map (map (to_api_message conn st)) batch)"

definition mix_from_and_to_messages ::
  "(db_message list \<Rightarrow> db_message list) \<Rightarrow> db_message list \<Rightarrow> db_message list \<Rightarrow> u64 \<Rightarrow> db_message list" where
  "mix_from_and_to_messages srt from_msgs to_msgs mx =
     (let tmp = srt (from_msgs @ to_msgs)
      in if length tmp \<le> unat mx then tmp else take (unat mx) tmp)"

text \<open>What \<open>std::sort\<close> with the comparison \<open>msg1.ts > msg2.ts\<close> guarantees.\<close>

definition sorts_newest_first :: "(db_message list \<Rightarrow> db_message list) \<Rightarrow> bool" where
  "sorts_newest_first srt \<longleftrightarrow>
     (\<forall>ms. mset (srt ms) = mset ms \<and> sorted_wrt (\<lambda>a b. ts a \<ge> ts b) (srt ms))"

section \<open>One task\<close>

definition ok_or_abort :: "'s \<Rightarrow> string option \<Rightarrow> 's outcome" where
  "ok_or_abort st body = map_option (\<lambda>b. (st, [SendOkResponse b])) body"

definition status_ok :: string where
  "status_ok = CHR ''{'' # CHR 0x22 # ''status'' @ CHR 0x22 # '': 0}''"

fun idle_loop :: "'s connection \<Rightarrow> u64 \<Rightarrow> db_chat list \<Rightarrow> db_message list list \<Rightarrow> 's \<Rightarrow> db_message list list \<times> 's" where
  "idle_loop conn t [] batch st = (batch, st)"
| "idle_loop conn t (chat # cs) batch st =
     (case c_getMessages conn (chat_id chat) (default_opt\<lparr>opt_ts := t\<rparr>) st of
        (msgs, st') \<Rightarrow> idle_loop conn t cs (if msgs \<noteq> [] then batch @ [msgs] else batch) st')"

definition do_idle :: "(string \<Rightarrow> u32) \<Rightarrow> u64 \<Rightarrow> 's connection \<Rightarrow> 'c task \<Rightarrow> 's \<Rightarrow> 's outcome" where
  "do_idle crc now conn task st =
     (case lookup_check_pass crc conn task st of (user, acts) \<Rightarrow>
        if user_id user = 0 then Some (st, acts)
        else
          (let st1 = c_updateUserHeartBit conn user now st;
               cs = c_lookupChatsForUserId conn (user_id user) st1
           in case idle_loop conn (p_ts (t_request task)) cs [] st1 of (batch, st2) \<Rightarrow>
                if batch \<noteq> [] then Some (st2, [SendMessagesToIdleConn (to_api_format_batch conn st2 batch)])
                else if t_ping task then Some (st2, [SendMessagesToIdleConn []])
                else Some (st2, [])))"

definition do_user_status :: "(string \<Rightarrow> u32) \<Rightarrow> u64 \<Rightarrow> 's connection \<Rightarrow> 'c task \<Rightarrow> 's \<Rightarrow> 's outcome" where
  "do_user_status crc now conn task st =
     (case lookup_check_pass crc conn task st of (user, acts) \<Rightarrow>
        if user_id user = 0 then Some (st, acts)
        else
          (case lookup_check_pass_by_name crc conn (p_user (t_request task)) task False st of (user_to, acts) \<Rightarrow>
             if user_id user_to = 0 then Some (st, acts)
             else ok_or_abort st (ok_body_user now user_to)))"

definition do_user_history ::
  "(string \<Rightarrow> u32) \<Rightarrow> (db_message list \<Rightarrow> db_message list) \<Rightarrow> 's connection \<Rightarrow> 'c task \<Rightarrow> 's \<Rightarrow> 's outcome" where
  "do_user_history crc srt conn task st =
     (case lookup_check_pass crc conn task st of (uf, acts) \<Rightarrow>
        if user_id uf = 0 then Some (st, acts)
        else
          (case lookup_check_pass_by_name crc conn (p_user (t_request task)) task False st of (ut, acts) \<Rightarrow>
             if user_id ut = 0 then Some (st, acts)
             else
               (let f1 = (\<lambda>msg. user_from msg = user_id uf \<and> chat_to msg = self_chat_id ut);
                    opt = default_opt\<lparr>max_count := ucast (p_count (t_request task) * 2)\<rparr>;
                    msgs_to = c_selectMessages conn f1 opt st;
                    f2 = (\<lambda>msg. user_from msg = user_id ut \<and> chat_to msg = self_chat_id uf);
                    msgs_from = c_selectMessages conn f2 opt st;
                    mix = mix_from_and_to_messages srt msgs_from msgs_to (p_count (t_request task))
                in Some (st, [SendMessages (to_api_format conn st mix)]))))"

definition do_message_send :: "(string \<Rightarrow> u32) \<Rightarrow> u64 \<Rightarrow> 's connection \<Rightarrow> 'c task \<Rightarrow> 's \<Rightarrow> 's outcome" where
  "do_message_send crc now conn task st =
     (case lookup_check_pass crc conn task st of (user, acts) \<Rightarrow>
        if user_id user = 0 then Some (st, acts)
        else
          (case c_lookupUserByName conn (p_to_user (t_request task)) st of
             [] \<Rightarrow> Some (st, [SendErrorResponse 404 ERR_NOT_FOUND ''user to does not exist''])
           | [user_to] \<Rightarrow>
               (let msg = mk_message (user_id user) (self_chat_id user_to) (p_message (t_request task))
                in Some (c_saveMessage conn (msg\<lparr>ts := now\<rparr>) st, [SendOkResponse status_ok]))
           | _ \<Rightarrow> Some (st, [SendErrorResponse 500 ERR_INTERNAL ''more than one user with that name''])))"

definition do_user_create :: "(string \<Rightarrow> u32) \<Rightarrow> u64 \<Rightarrow> 's connection \<Rightarrow> 'c task \<Rightarrow> 's \<Rightarrow> 's outcome" where
  "do_user_create crc now conn task st =
     (case c_createUser conn (p_user (t_request task)) (encrypted crc (p_password (t_request task)))
             (t_storage task) st of (user, st') \<Rightarrow>
        if user_id user = 0 then
          Some (st', [SendErrorResponse 409 ERR_CONSTRAINT ''user already exists''])
        else ok_or_abort st' (ok_body_user now user))"

definition do_user_login :: "(string \<Rightarrow> u32) \<Rightarrow> u64 \<Rightarrow> 's connection \<Rightarrow> 'c task \<Rightarrow> 's \<Rightarrow> 's outcome" where
  "do_user_login crc now conn task st =
     (case lookup_check_pass_by_name crc conn (p_user (t_request task)) task True st of (user, acts) \<Rightarrow>
        if user_id user = 0 then Some (st, acts) else ok_or_abort st (ok_body_user now user))"

definition do_chat_create :: "(string \<Rightarrow> u32) \<Rightarrow> u64 \<Rightarrow> 's connection \<Rightarrow> 'c task \<Rightarrow> 's \<Rightarrow> 's outcome" where
  "do_chat_create crc now conn task st =
     (case lookup_check_pass crc conn task st of (user, acts) \<Rightarrow>
        if user_id user = 0 then Some (st, acts)
        else
          (case c_createChat conn (p_chat_name (t_request task)) (p_uid (t_request task)) st of (chat, st') \<Rightarrow>
             if chat_id chat = 0 then
               Some (st', [SendErrorResponse 409 ERR_CONSTRAINT ''chat already exists''])
             else ok_or_abort st' (ok_body_chat now chat)))"

text \<open>The body built from the chat in \<open>CHAT_ADDUSER\<close> is not the one that is sent.\<close>

definition do_chat_adduser :: "(string \<Rightarrow> u32) \<Rightarrow> u64 \<Rightarrow> 's connection \<Rightarrow> 'c task \<Rightarrow> 's \<Rightarrow> 's outcome" where
  "do_chat_adduser crc now conn task st =
     (case lookup_check_pass crc conn task st of (user, acts) \<Rightarrow>
        if user_id user = 0 then Some (st, acts)
        else
          (case lookup_check_pass_by_name crc conn (p_chat_adduser (t_request task)) task False st of
             (to_add, acts) \<Rightarrow>
               if user_id to_add = 0 then Some (st, acts)
               else
                 (case c_lookupChatByName conn (p_chat_name (t_request task)) st of
                    [chat] \<Rightarrow>
                      (let st' = c_addUserToChat conn chat to_add st
                       in map_option (\<lambda>_. (st', [SendOkResponse status_ok])) (ok_body_chat now chat))
                  | _ \<Rightarrow> Some (st, [SendErrorResponse 404 ERR_NOT_FOUND ''chat does not exist'']))))"

definition do_message_send_chat :: "(string \<Rightarrow> u32) \<Rightarrow> u64 \<Rightarrow> 's connection \<Rightarrow> 'c task \<Rightarrow> 's \<Rightarrow> 's outcome" where
  "do_message_send_chat crc now conn task st =
     (case lookup_check_pass crc conn task st of (user, acts) \<Rightarrow>
        if user_id user = 0 then Some (st, acts)
        else
          (case c_lookupChatByName conn (p_chat_name (t_request task)) st of
             [chat] \<Rightarrow>
               (let msg = mk_message (user_id user) (chat_id chat) (p_message (t_request task))
                in Some (c_saveMessage conn (msg\<lparr>ts := now\<rparr>) st, [SendOkResponse status_ok]))
           | _ \<Rightarrow> Some (st, [SendErrorResponse 404 ERR_NOT_FOUND ''chat does not exist''])))"

text \<open>The body of the loop of \<open>processQueue\<close>; a command it does not name is dropped.\<close>

definition process_task ::
  "(string \<Rightarrow> u32) \<Rightarrow> (db_message list \<Rightarrow> db_message list) \<Rightarrow> u64 \<Rightarrow> 's connection \<Rightarrow> 'c task \<Rightarrow> 's \<Rightarrow> 's outcome" where
  "process_task crc srt now conn task st =
     (case t_cmd task of
        IDLE \<Rightarrow> do_idle crc now conn task st
      | USER_STATUS \<Rightarrow> do_user_status crc now conn task st
      | USER_HISTORY \<Rightarrow> do_user_history crc srt conn task st
      | MESSAGE_SEND \<Rightarrow> do_message_send crc now conn task st
      | USER_CREATE \<Rightarrow> do_user_create crc now conn task st
      | USER_LOGIN \<Rightarrow> do_user_login crc now conn task st
      | CHAT_CREATE \<Rightarrow> do_chat_create crc now conn task st
      | CHAT_ADDUSER \<Rightarrow> do_chat_adduser crc now conn task st
      | MESSAGE_SEND_CHAT \<Rightarrow> do_message_send_chat crc now conn task st
      | _ \<Rightarrow> Some (st, []))"

section \<open>The queue of tasks\<close>

text \<open>
  The state the workers share: the queue, the storage behind the connection, and the
  answers handed to the clients so far, oldest first.
\<close>

record ('c, 's) workers =
  w_queue :: "'c task lock_queue"
  w_db :: 's
  w_sent :: "('c \<times> action) list"

definition putTask :: "'c task \<Rightarrow> ('c, 's) workers \<Rightarrow> ('c, 's) workers" where
  "putTask task w = w\<lparr>w_queue := push task (w_queue w)\<rparr>"

text \<open>
  One round of the loop of \<open>processQueue\<close> for one worker; with an empty queue it only
  sleeps. \<open>processQueue\<close> runs a round per reading of the clock, until \<open>g_NeedStop\<close>.
\<close>

definition processQueue_round ::
  "(string \<Rightarrow> u32) \<Rightarrow> (db_message list \<Rightarrow> db_message list) \<Rightarrow> 's connection \<Rightarrow> u64 \<Rightarrow>
     ('c, 's) workers \<Rightarrow> ('c, 's) workers option" where
  "processQueue_round crc srt conn now w =
     (case getTask (w_queue w) of
        None \<Rightarrow> Some w
      | Some (task, q) \<Rightarrow>
          (case process_task crc srt now conn task (w_db w) of
             None \<Rightarrow> None
           | Some (st, acts) \<Rightarrow>
               Some (w\<lparr>w_queue := q, w_db := st, w_sent := w_sent w @ map (Pair (t_client task)) acts\<rparr>)))"

fun processQueue ::
  "(string \<Rightarrow> u32) \<Rightarrow> (db_message list \<Rightarrow> db_message list) \<Rightarrow> 's connection \<Rightarrow> u64 list \<Rightarrow>
     ('c, 's) workers \<Rightarrow> ('c, 's) workers option" where
  "processQueue crc srt conn [] w = Some w"
| "processQueue crc srt conn (now # clock) w =
     (case processQueue_round crc srt conn now w of
        None \<Rightarrow> None | Some w' \<Rightarrow> processQueue crc srt conn clock w')"

section \<open>Facts on every connection\<close>

lemmas task_defs = do_idle_def do_user_status_def do_user_history_def do_message_send_def
  do_user_create_def do_user_login_def do_chat_create_def do_chat_adduser_def do_message_send_chat_def

lemma ok_or_abort_simps [simp]: "ok_or_abort st (Some b) = Some (st, [SendOkResponse b])"
  by (simp add: ok_or_abort_def)

text \<open>No task aborts in the writer.\<close>

lemma process_task_total:
  obtains st' acts where "process_task crc srt now conn task st = Some (st', acts)"
proof -
  have "process_task crc srt now conn task st \<noteq> None"
    by (auto simp: process_task_def task_defs ok_body_user_text ok_body_chat_text Let_def
        split: cmd_t.split prod.split list.split if_split)
  with that show ?thesis by auto
qed

text \<open>The two password checks: an answer and no user, or the user and no answer.\<close>

lemma check_pass_cases:
  obtains (unknown) "user_id (c_lookupUserById conn (p_uid (t_request task)) st) = 0"
      "lookup_check_pass crc conn task st = (no_user, [SendErrorResponse 409 ERR_CONSTRAINT ''user does not exist''])"
  | (wrong) "user_id (c_lookupUserById conn (p_uid (t_request task)) st) \<noteq> 0"
      "encrypted crc (p_password (t_request task)) \<noteq> password (c_lookupUserById conn (p_uid (t_request task)) st)"
      "lookup_check_pass crc conn task st = (no_user, [SendErrorResponse 403 ERR_CONSTRAINT ''wrong password''])"
  | (ok) "user_id (c_lookupUserById conn (p_uid (t_request task)) st) \<noteq> 0"
      "encrypted crc (p_password (t_request task)) = password (c_lookupUserById conn (p_uid (t_request task)) st)"
      "lookup_check_pass crc conn task st = (c_lookupUserById conn (p_uid (t_request task)) st, [])"
proof -
  let ?u = "c_lookupUserById conn (p_uid (t_request task)) st"
  consider "user_id ?u = 0" | "user_id ?u \<noteq> 0" "encrypted crc (p_password (t_request task)) \<noteq> password ?u"
    | "user_id ?u \<noteq> 0" "encrypted crc (p_password (t_request task)) = password ?u" by blast
  then show ?thesis
    by cases (auto simp: lookup_check_pass_def intro: that)
qed

lemma no_user_id [simp]: "user_id no_user = 0" and no_chat_id [simp]: "chat_id no_chat = 0"
  by (simp_all add: no_user_def no_chat_def)

text \<open>The commands that need the password of the user with the given id.\<close>

definition needs_uid :: "cmd_t \<Rightarrow> bool" where
  "needs_uid c \<longleftrightarrow> c \<in> {IDLE, USER_STATUS, USER_HISTORY, MESSAGE_SEND, CHAT_CREATE, CHAT_ADDUSER, MESSAGE_SEND_CHAT}"

lemma rejected_task:
  assumes "lookup_check_pass crc conn task st = (no_user, acts)" "needs_uid (t_cmd task)"
  shows "process_task crc srt now conn task st = Some (st, acts)"
  using assms by (auto simp: process_task_def needs_uid_def task_defs)

section \<open>Facts on a consistent connection\<close>

context lookups
begin

lemma by_name_check_cases:
  assumes "inv st"
  obtains (none) "lookup_check_pass_by_name crc conn name task b st =
      (no_user, [SendErrorResponse 404 ERR_NOT_FOUND ''user does not exist''])"
    "c_lookupUserByName conn name st = []"
  | (wrong) u where "lookup_check_pass_by_name crc conn name task b st =
      (no_user, [SendErrorResponse 403 ERR_CONSTRAINT ''wrong password''])" "b"
    "c_lookupUserByName conn name st = [u]"
    "encrypted crc (p_password (t_request task)) \<noteq> password u"
  | (ok) u where "lookup_check_pass_by_name crc conn name task b st = (u, [])"
    "c_lookupUserByName conn name st = [u]" "user_name u = name" "user_id u \<noteq> 0"
    "b \<Longrightarrow> encrypted crc (p_password (t_request task)) = password u"
  using assms
proof (cases rule: by_name_cases [where n = name])
  case none
  then show ?thesis by (intro that(1)) (simp_all add: lookup_check_pass_by_name_def)
next
  case (one u)
  then show ?thesis
    by (cases "b \<and> encrypted crc (p_password (t_request task)) \<noteq> password u")
      (auto simp: lookup_check_pass_by_name_def intro: that)
qed

text \<open>Every request but the long poll is answered exactly once.\<close>

lemma one_answer:
  assumes inv: "inv st"
    and cmd: "t_cmd task \<in> {USER_STATUS, USER_HISTORY, MESSAGE_SEND, USER_CREATE, USER_LOGIN, CHAT_CREATE,
      CHAT_ADDUSER, MESSAGE_SEND_CHAT}"
    and run: "process_task crc srt now conn task st = Some (st', acts)"
  shows "length acts = 1"
proof -
  have name: "length acts = Suc 0"
    if "inv s" "lookup_check_pass_by_name crc conn n task b s = (u, acts)" "user_id u = 0" for n b u acts s
    by (rule by_name_check_cases [OF that(1), of crc n task b]) (use that in auto)
  have uid: "length acts = Suc 0"
    if "lookup_check_pass crc conn task s = (u, acts)" "user_id u = 0" for u acts s
    by (rule check_pass_cases [of conn task s crc]) (use that in auto)
  show ?thesis
    using run cmd inv
    by (auto simp: process_task_def task_defs ok_body_user_text ok_body_chat_text Let_def
        split: prod.splits list.splits if_splits intro: name uid)
qed

end

context consistent
begin

lemma idle_loop_inv: "inv st \<Longrightarrow> inv (snd (idle_loop conn t cs batch st))"
proof (induction cs arbitrary: batch st)
  case (Cons chat cs)
  show ?case
    using Cons.IH getMessages_inv [OF Cons.prems, of "chat_id chat" "default_opt\<lparr>opt_ts := t\<rparr>"]
    by (cases "c_getMessages conn (chat_id chat) (default_opt\<lparr>opt_ts := t\<rparr>) st") simp
qed simp

lemma checked_user_known:
  assumes "inv st" "lookup_check_pass crc conn task st = (u, acts)" "user_id u \<noteq> 0"
  shows "user_id u = p_uid (t_request task)" "knows_user st (p_uid (t_request task))"
  using assms known_id [OF assms(1), of "p_uid (t_request task)"] by_id_known [OF assms(1), of "p_uid (t_request task)"]
  by (auto simp: lookup_check_pass_def Let_def split: if_splits)

lemma named_user_known:
  assumes "inv st" "lookup_check_pass_by_name crc conn name task b st = (u, acts)" "user_id u \<noteq> 0"
  shows "knows_user st (user_id u)"
  by (rule by_name_check_cases [OF assms(1), of crc name task b])
    (use assms known_name [OF assms(1), of u name] in auto)

text \<open>A task keeps the consistency of the storage, whatever the request holds.\<close>

lemma process_task_inv:
  assumes inv: "inv st" and room: "room st"
    and run: "process_task crc srt now conn task st = Some (st', acts)"
  shows "inv st'"
proof -
  have kc: "knows_chat st (chat_id c)" if "c_lookupChatByName conn n st = [c]" for c n
    using known_chat [OF inv, of c n] that by simp
  have kn: "knows_chat st (self_chat_id u)" if "c_lookupUserByName conn n st = [u]" for u n
    using known_name [OF inv, of u n] that by simp
  have ku: "knows_user st (user_id u)" if "lookup_check_pass crc conn task st = (u, as)" "user_id u \<noteq> 0" for u as
    using checked_user_known [OF inv that] by simp
  show ?thesis
  proof (cases "t_cmd task")
  case IDLE
  have "inv (snd (idle_loop conn t cs b (c_updateUserHeartBit conn u now st)))" for t cs b u
    using inv by (intro idle_loop_inv heartbit_inv)
  from this[of "p_ts (t_request task)" _ "[]"] show ?thesis
    using run inv IDLE by (auto simp: process_task_def do_idle_def Let_def split: prod.splits if_splits) (metis snd_conv)+
next
  case USER_CREATE
  then show ?thesis
    using run createUser_inv [OF inv room, of "p_user (t_request task)"
      "encrypted crc (p_password (t_request task))" "t_storage task"]
    by (auto simp: process_task_def do_user_create_def ok_body_user_text split: prod.splits if_splits)
next
  case CHAT_CREATE
  obtain u as where chk: "lookup_check_pass crc conn task st = (u, as)" by (cases "lookup_check_pass crc conn task st")
  have "inv (snd (c_createChat conn n (p_uid (t_request task)) st))" if "user_id u \<noteq> 0" for n
    using createChat_inv [OF inv room checked_user_known(2) [OF inv chk that]] .
  from this[of "p_chat_name (t_request task)"] show ?thesis
    using run inv chk CHAT_CREATE
    by (auto simp: process_task_def do_chat_create_def ok_body_chat_text split: prod.splits if_splits)
next
  case CHAT_ADDUSER
  then show ?thesis
    using run inv
    by (auto simp: process_task_def do_chat_adduser_def ok_body_chat_text Let_def
        split: prod.splits if_splits list.splits intro!: addUser_inv intro: kc named_user_known)
next
  case MESSAGE_SEND
  then show ?thesis
    using run inv
    by (auto simp: process_task_def do_message_send_def mk_message_def Let_def
        split: prod.splits if_splits list.splits intro!: save_inv intro: kn ku)
next
  case MESSAGE_SEND_CHAT
  then show ?thesis
    using run inv
    by (auto simp: process_task_def do_message_send_chat_def mk_message_def Let_def
        split: prod.splits if_splits list.splits intro!: save_inv intro: kc ku)
qed (use run inv in \<open>auto simp: process_task_def task_defs ok_body_user_text Let_def split: prod.splits if_splits\<close>)
qed

end

section \<open>The queue on the in-memory database\<close>

lemma idle_loop_frame:
  "users (snd (idle_loop InMemoryConnection t cs batch st)) = users st \<and>
   chats (snd (idle_loop InMemoryConnection t cs batch st)) = chats st \<and>
   chatuser (snd (idle_loop InMemoryConnection t cs batch st)) = chatuser st \<and>
   chat_autoincrement (snd (idle_loop InMemoryConnection t cs batch st)) = chat_autoincrement st"
proof (induction cs arbitrary: batch st)
  case (Cons chat cs)
  show ?case
    using Cons.IH getMessages_frame [of "chat_id chat" "default_opt\<lparr>opt_ts := t\<rparr>" st]
    by (cases "getMessages (chat_id chat) (default_opt\<lparr>opt_ts := t\<rparr>) st") simp
qed simp

lemma ops_autoincrement [simp]:
  "chat_autoincrement (updateUserHeartBit u t st) = chat_autoincrement st"
  "chat_autoincrement (saveMessage m st) = chat_autoincrement st"
  "chat_autoincrement (addUserToChat c u st) = chat_autoincrement st"
  by (simp_all add: updateUserHeartBit_def saveMessage_def addUserToChat_def)

lemma create_autoincrement:
  "chat_autoincrement (snd (createUser n p s st)) \<in> {chat_autoincrement st, chat_autoincrement st + 1}"
  "chat_autoincrement (snd (createChat n i st)) \<in> {chat_autoincrement st, chat_autoincrement st + 1}"
  by (simp_all add: createUser_def createChat_def Let_def)

lemma process_task_autoincrement:
  assumes "process_task crc srt now InMemoryConnection task st = Some (st', acts)"
  shows "chat_autoincrement st' \<in> {chat_autoincrement st, chat_autoincrement st + 1}"
proof (cases "t_cmd task")
  case IDLE
  have "chat_autoincrement st2 = chat_autoincrement st"
    if "idle_loop InMemoryConnection t cs b (updateUserHeartBit u now st) = (batch, st2)" for t cs b u batch st2
    using idle_loop_frame [of t cs b "updateUserHeartBit u now st"] that by simp
  with assms IDLE show ?thesis
    by (auto simp: process_task_def do_idle_def Let_def split: prod.splits if_splits)
next
  case USER_CREATE
  with assms create_autoincrement(1) [of "p_user (t_request task)"
    "encrypted crc (p_password (t_request task))" "t_storage task" st] show ?thesis
    by (auto simp: process_task_def do_user_create_def ok_body_user_text split: prod.splits if_splits)
next
  case CHAT_CREATE
  with assms create_autoincrement(2) [of "p_chat_name (t_request task)" "p_uid (t_request task)" st] show ?thesis
    by (auto simp: process_task_def do_chat_create_def ok_body_chat_text split: prod.splits if_splits)
qed (use assms in \<open>auto simp: process_task_def task_defs ok_body_user_text ok_body_chat_text Let_def
  split: prod.splits if_splits list.splits\<close>)

text \<open>\<open>chat_room k\<close>: row numbers for \<open>k\<close> more chats.\<close>

definition chat_room :: "nat \<Rightarrow> storage \<Rightarrow> bool" where
  "chat_room k st \<longleftrightarrow> unat (chat_autoincrement st) + k < 2 ^ 64"

lemma chat_room_step:
  assumes "chat_room (Suc k) st" "chat_autoincrement st' \<in> {chat_autoincrement st, chat_autoincrement st + 1}"
  shows "chat_room k st'"
  using assms unat_Suc_u64 [of "chat_autoincrement st"] by (auto simp: chat_room_def)

lemma chat_room_has_room: "chat_room (Suc k) st \<Longrightarrow> has_room st"
  by (simp add: chat_room_def has_room_def)

lemma round_cases:
  obtains (idle) "m_Queue (w_queue w) = []" "processQueue_round crc srt conn now w = Some w"
  | (task) task ts st acts where "m_Queue (w_queue w) = task # ts"
      "process_task crc srt now conn task (w_db w) = Some (st, acts)"
      "processQueue_round crc srt conn now w =
        Some (w\<lparr>w_queue := \<lparr>m_Queue = ts\<rparr>, w_db := st, w_sent := w_sent w @ map (Pair (t_client task)) acts\<rparr>)"
proof (cases "getTask (w_queue w)")
  case None
  then have "m_Queue (w_queue w) = []" by (simp only: lq.deq_None)
  with None show ?thesis by (intro idle) (simp_all add: processQueue_round_def)
next
  case (Some r)
  obtain t q where r: "r = (t, q)" by (cases r)
  obtain st acts where run: "process_task crc srt now conn t (w_db w) = Some (st, acts)"
    by (rule process_task_total)
  have "q = \<lparr>m_Queue = m_Queue q\<rparr>" by (cases q) simp
  moreover have "m_Queue (w_queue w) = t # m_Queue q" using Some r lq.deq_Some by simp
  ultimately show ?thesis
    using Some r run by (intro task[of t "m_Queue q" st acts]) (simp_all add: processQueue_round_def)
qed

lemma processQueue_mem:
  assumes "storage_inv (w_db w)" "chat_room (length clock) (w_db w)"
  shows "\<exists>w'. processQueue crc srt InMemoryConnection clock w = Some w' \<and> storage_inv (w_db w') \<and>
    m_Queue (w_queue w') = drop (length clock) (m_Queue (w_queue w))"
  using assms
proof (induction clock arbitrary: w)
  case (Cons now clock)
  have room: "has_room (w_db w)" using Cons.prems(2) by (auto intro: chat_room_has_room)
  show ?case
  proof (cases rule: round_cases [of w crc srt InMemoryConnection now])
    case idle
    with Cons.IH [of w] Cons.prems show ?thesis by (auto simp: chat_room_def)
  next
    case (task t ts st acts)
    have "storage_inv st" by (rule mem.process_task_inv [OF Cons.prems(1) room task(2)])
    moreover have "chat_room (length clock) st"
      using chat_room_step [OF _ process_task_autoincrement [OF task(2)]] Cons.prems(2) by simp
    ultimately show ?thesis
      using Cons.IH [of "w\<lparr>w_queue := \<lparr>m_Queue = ts\<rparr>, w_db := st, w_sent := w_sent w @ map (Pair (t_client t)) acts\<rparr>"]
      using task by auto
  qed
qed simp

definition answered :: "cmd_t \<Rightarrow> bool" where
  "answered c \<longleftrightarrow> c \<in> {USER_STATUS, USER_HISTORY, MESSAGE_SEND, USER_CREATE, USER_LOGIN, CHAT_CREATE,
      CHAT_ADDUSER, MESSAGE_SEND_CHAT}"

lemma processQueue_answers:
  assumes "storage_inv (w_db w)" "chat_room (length clock) (w_db w)"
    "\<forall>t \<in> set (m_Queue (w_queue w)). answered (t_cmd t)"
    "processQueue crc srt InMemoryConnection clock w = Some w'"
  shows "map fst (w_sent w') = map fst (w_sent w) @ map t_client (take (length clock) (m_Queue (w_queue w)))"
  using assms
proof (induction clock arbitrary: w)
  case (Cons now clock)
  have room: "has_room (w_db w)" using Cons.prems(2) by (auto intro: chat_room_has_room)
  show ?case
  proof (cases rule: round_cases [of w crc srt InMemoryConnection now])
    case idle
    with Cons.IH [of w] Cons.prems show ?thesis by (auto simp: chat_room_def)
  next
    case (task t ts st acts)
    let ?w = "w\<lparr>w_queue := \<lparr>m_Queue = ts\<rparr>, w_db := st, w_sent := w_sent w @ map (Pair (t_client t)) acts\<rparr>"
    have "storage_inv st" by (rule mem.process_task_inv [OF Cons.prems(1) room task(2)])
    moreover have "chat_room (length clock) st"
      using chat_room_step [OF _ process_task_autoincrement [OF task(2)]] Cons.prems(2) by simp
    moreover have "length acts = 1"
      using Cons.prems(3) task by (intro mem.one_answer [OF Cons.prems(1) _ task(2)]) (simp add: answered_def)
    then obtain a where "acts = [a]" by (cases acts) auto
    ultimately show ?thesis
      using Cons.IH [of ?w] Cons.prems task by auto
  qed
qed simp

end
