(* ===== verification/Api_Client.thy ===== *)
theory Api_Client
  imports Http_Messages Db_Worker
begin

text \<open>
  The connection of one client on the server, \<open>ApiClient\<close> of \<open>server/src/apiclient.cpp\<close>: its
  members, the router, the handlers and the timer of the long poll. What a method starts is an
  effect of the model: a write with the handler that runs when it is done, the read of the
  next request, a task for the workers, the timer. Arguments: \<open>self\<close>, the client a task
  answers to; \<open>pass_len\<close>, the option of the configuration; \<open>now\<close>, \<open>time(NULL)\<close>. A result
  \<open>None\<close> is a failed \<open>RAPIDJSON_ASSERT\<close>.
\<close>

section \<open>State and effects\<close>

text \<open>\<open>RequestDetails\<close> without the two members that only the log reads.\<close>

record request_details =
  d_params :: params
  d_command :: cmd_t
  d_resource :: string
  d_method :: string

record api_client =
  m_HttpCode :: int
  m_NewestMsgTimestamp :: u64
  m_LastClientPing :: u64
  m_RequestDetails :: request_details

text \<open>A new connection; \<open>command\<close> has no initialiser, so its first value is an argument.\<close>

definition new_api_client :: "cmd_t \<Rightarrow> api_client" where
  "new_api_client c = \<lparr>m_HttpCode = 200, m_NewestMsgTimestamp = 0, m_LastClientPing = 0,
     m_RequestDetails = \<lparr>d_params = no_params, d_command = c, d_resource = [], d_method = []\<rparr>\<rparr>"

text \<open>The handlers of \<open>asyncRequest\<close>: the three lambdas of the file.\<close>

datatype write_handler = ResponseWrote | IdleWrote u64 | IdleAckWrote

datatype 'c effect =
    AsyncWrite string write_handler
  | ReadCmd
  | PutTask "'c task"
  | StartTimer
  | CancelTimer
  | CancelSocket

type_synonym 'c handled = "(api_client \<times> 'c effect list) option"

section \<open>Answers\<close>

definition sendOkResponse :: "string \<Rightarrow> api_client \<Rightarrow> 'c handled" where
  "sendOkResponse body a = Some (a, [AsyncWrite (buildApiOkResponse body) ResponseWrote])"

definition sendMessages :: "u64 \<Rightarrow> api_message list \<Rightarrow> api_client \<Rightarrow> 'c handled" where
  "sendMessages now msgs a =
     map_option (\<lambda>body. (a, [AsyncWrite (buildApiOkResponse body) ResponseWrote])) (ok_body_msgs now msgs)"

definition sendMessagesToIdleConn :: "u64 \<Rightarrow> api_message list \<Rightarrow> api_client \<Rightarrow> 'c handled" where
  "sendMessagesToIdleConn now msgs a =
     map_option (\<lambda>body. (a, [AsyncWrite (buildApiOkResponse body) (IdleWrote (max_timestamp msgs))]))
       (ok_body_msgs now msgs)"

definition sendOkResponseAndStartIdle :: "u64 \<Rightarrow> api_client \<Rightarrow> 'c handled" where
  "sendOkResponseAndStartIdle now a =
     map_option (\<lambda>body. (a, [AsyncWrite (buildApiOkResponse body) IdleAckWrote, StartTimer]))
       (ok_body_cmd now (d_command (m_RequestDetails a)))"

definition sendErrorResponse :: "int \<Rightarrow> ApiStatusCode \<Rightarrow> string \<Rightarrow> api_client \<Rightarrow> 'c handled" where
  "sendErrorResponse http_code c desc a =
     map_option (\<lambda>response. (a\<lparr>m_HttpCode := http_code\<rparr>, [AsyncWrite response ResponseWrote]))
       (build_api_error_rsponse http_code c desc)"

text \<open>What a worker calls, by the action of its task.\<close>

definition answer_handler :: "u64 \<Rightarrow> action \<Rightarrow> api_client \<Rightarrow> 'c handled" where
  "answer_handler now act a =
     (case act of
        SendErrorResponse http_code c desc \<Rightarrow> sendErrorResponse http_code c desc a
      | SendOkResponse body \<Rightarrow> sendOkResponse body a
      | SendMessagesToIdleConn msgs \<Rightarrow> sendMessagesToIdleConn now msgs a
      | SendMessages msgs \<Rightarrow> sendMessages now msgs a)"

section \<open>Requests\<close>

definition set_params :: "params \<Rightarrow> api_client \<Rightarrow> api_client" where
  "set_params p a = a\<lparr>m_RequestDetails := (m_RequestDetails a)\<lparr>d_params := p\<rparr>\<rparr>"

definition set_command :: "cmd_t \<Rightarrow> api_client \<Rightarrow> api_client" where
  "set_command c a = a\<lparr>m_RequestDetails := (m_RequestDetails a)\<lparr>d_command := c\<rparr>\<rparr>"

text \<open>\<open>db::Task task(m_RequestDetails); task.client = shared_from_this()\<close>\<close>

definition new_task :: "'c \<Rightarrow> request_details \<Rightarrow> 'c task" where
  "new_task self d = \<lparr>t_ping = False, t_cmd = d_command d, t_request = d_params d, t_client = self, t_storage = []\<rparr>"

definition handler_impl :: "'c \<Rightarrow> int \<Rightarrow> http_reply \<Rightarrow> cmd_t \<Rightarrow> api_client \<Rightarrow> 'c handled" where
  "handler_impl self pass_len req command a =
     (let content_type = getHeader req ''Content-Type''
      in if starts_with content_type ''text/plain'' \<or> starts_with content_type ''application/json'' then
           (case parse_meta pass_len (d_params (m_RequestDetails a)) (h_body req) command of
              None \<Rightarrow> None
            | Some (p, err) \<Rightarrow>
                let a = set_params p a in
                if err \<noteq> [] then sendErrorResponse 400 ERR_BAD_REQUEST err a
                else
                  let task = new_task self (m_RequestDetails a);
                      task = (if command = USER_CREATE then task\<lparr>t_storage := ''localhost:3306''\<rparr> else task)
                  in Some (a, [PutTask task]))
         else sendErrorResponse 400 ERR_BAD_REQUEST ''not allowed content type'' a)"

definition v1_handler :: "'c \<Rightarrow> int \<Rightarrow> http_reply \<Rightarrow> cmd_t \<Rightarrow> api_client \<Rightarrow> 'c handled" where
  "v1_handler self pass_len req cmd a = handler_impl self pass_len req cmd (set_command cmd a)"

text \<open>The if-chain of the router after \<open>/v1/idle\<close>, which is no task of its own.\<close>

definition route :: "string \<Rightarrow> cmd_t option" where
  "route resource =
     (if resource = ''/v1/message/send'' then Some MESSAGE_SEND
      else if resource = ''/v1/message/sendchat'' then Some MESSAGE_SEND_CHAT
      else if resource = ''/v1/user/login'' then Some USER_LOGIN
      else if resource = ''/v1/user/create'' then Some USER_CREATE
      else if resource = ''/v1/chat/create'' then Some CHAT_CREATE
      else if resource = ''/v1/user/history'' then Some USER_HISTORY
      else if resource = ''/v1/group/history'' then Some CHAT_HISTORY
      else if resource = ''/v1/user/status'' then Some USER_STATUS
      else if resource = ''/v1/chat/adduser'' then Some CHAT_ADDUSER
      else None)"

definition requestFromClientReadHandler :: "'c \<Rightarrow> int \<Rightarrow> u64 \<Rightarrow> http_result \<Rightarrow> api_client \<Rightarrow> 'c handled" where
  "requestFromClientReadHandler self pass_len now res a =
     (case res of (error, reply) \<Rightarrow>
        if error \<noteq> None then Some (a, [])
        else
          (let a = a\<lparr>m_RequestDetails := (m_RequestDetails a)\<lparr>
                       d_resource := lowercased (h_resource reply), d_method := h_method reply\<rparr>\<rparr>;
               resource = d_resource (m_RequestDetails a)
           in if resource = ''/v1/idle'' then
                (let a = set_command IDLE a
                 in case parse_meta pass_len (d_params (m_RequestDetails a)) (h_body reply) IDLE of
                      None \<Rightarrow> None
                    | Some (p, err) \<Rightarrow>
                        let a = set_params p a in
                        if err \<noteq> [] then sendErrorResponse 400 ERR_BAD_REQUEST err a
                        else sendOkResponseAndStartIdle now a)
              else
                (case route resource of
                   Some cmd \<Rightarrow> v1_handler self pass_len reply cmd a
                 | None \<Rightarrow> sendErrorResponse 404 ERR_NOT_FOUND ''bad request'' a)))"

section \<open>The other handlers\<close>

text \<open>After the handshake: read the first request, or drop the connection.\<close>

definition processClientRequest :: "'c \<Rightarrow> int \<Rightarrow> u64 \<Rightarrow> conn_error option \<Rightarrow> api_client \<Rightarrow> 'c handled" where
  "processClientRequest self pass_len now error a =
     (if error \<noteq> None then requestFromClientReadHandler self pass_len now (error, no_reply) a
      else Some (a, [ReadCmd]))"

definition responseToClientWroteHandler :: "api_client \<Rightarrow> api_client \<times> 'c effect list" where
  "responseToClientWroteHandler a = (a\<lparr>m_HttpCode := 200\<rparr>, [ReadCmd])"

definition write_done :: "write_handler \<Rightarrow> bool \<Rightarrow> api_client \<Rightarrow> api_client \<times> 'c effect list" where
  "write_done h failed a =
     (case h of
        ResponseWrote \<Rightarrow> responseToClientWroteHandler a
      | IdleWrote max_ts \<Rightarrow>
          if failed then (a, [CancelTimer, CancelSocket]) else (a\<lparr>m_NewestMsgTimestamp := max_ts\<rparr>, [])
      | IdleAckWrote \<Rightarrow> (a, []))"

text \<open>\<open>time(NULL) - m_LastClientPing\<close> is unsigned.\<close>

definition timerWaitTaskResultHandler :: "'c \<Rightarrow> u64 \<Rightarrow> bool \<Rightarrow> api_client \<Rightarrow> api_client \<times> 'c effect list" where
  "timerWaitTaskResultHandler self now aborted a =
     (if aborted then (a, [])
      else
        let p = d_params (m_RequestDetails a);
            a = (if m_NewestMsgTimestamp a > p_ts p then set_params (p\<lparr>p_ts := m_NewestMsgTimestamp a\<rparr>) a else a);
            task = new_task self (m_RequestDetails a);
            (a, task) = (if now - m_LastClientPing a > 5
              then (a\<lparr>m_LastClientPing := now\<rparr>, task\<lparr>t_ping := True\<rparr>) else (a, task))
        in (a, [PutTask task, StartTimer]))"

end
