(* ===== verification/Session.thy ===== *)
theory Session
  imports Api_Client
begin

text \<open>
  One connection as a reactor: the pending read of \<open>AsyncHttpClient\<close> with the bytes received,
  the writes in flight and the timer, driven by the events that the network, the clock and the
  workers produce. An event runs the handler of \<open>Api_Client\<close> it belongs to and starts the
  effects the handler returns. \<open>s_overlap\<close> records that a second operation was started
  while one of its kind was in flight, which the socket does not allow: \<open>BasicTcpClient\<close> has
  one write buffer and one read buffer.
\<close>

section \<open>Events\<close>

record session =
  s_api :: api_client
  s_read :: "http_state option"
  s_buf :: string
  s_writes :: "(string \<times> write_handler) list"
  s_timer :: bool
  s_out :: string
  s_overlap :: bool

datatype session_event =
    Received string
  | ReadFailed
  | WriteDone bool
  | TimerExpired
  | Answer action

definition new_session :: "cmd_t \<Rightarrow> session" where
  "new_session c = \<lparr>s_api = new_api_client c, s_read = Some AwaitHeaders, s_buf = [], s_writes = [],
     s_timer = False, s_out = [], s_overlap = False\<rparr>"

text \<open>Starting an effect; the second component collects the tasks for the workers.\<close>

fun apply_effect :: "'c effect \<Rightarrow> session \<times> 'c task list \<Rightarrow> session \<times> 'c task list" where
  "apply_effect (AsyncWrite r h) (s, tq) =
     (s\<lparr>s_overlap := s_overlap s \<or> s_writes s \<noteq> [], s_writes := s_writes s @ [(r, h)]\<rparr>, tq)"
| "apply_effect ReadCmd (s, tq) =
     (s\<lparr>s_overlap := s_overlap s \<or> s_read s \<noteq> None, s_read := Some AwaitHeaders\<rparr>, tq)"
| "apply_effect (PutTask t) (s, tq) = (s, tq @ [t])"
| "apply_effect StartTimer (s, tq) = (s\<lparr>s_timer := True\<rparr>, tq)"
| "apply_effect CancelTimer (s, tq) = (s\<lparr>s_timer := False\<rparr>, tq)"
| "apply_effect CancelSocket (s, tq) = (s\<lparr>s_read := None\<rparr>, tq)"

definition apply_effects :: "session \<Rightarrow> api_client \<times> 'c effect list \<Rightarrow> session \<times> 'c task list" where
  "apply_effects s r = (case r of (a, es) \<Rightarrow> fold apply_effect es (s\<lparr>s_api := a\<rparr>, []))"

text \<open>
  The handlers of the read that can run on the bytes received; the last of them is
  \<open>requestFromClientReadHandler\<close>, which starts no read.
\<close>

definition read_ready ::
  "'c \<Rightarrow> int \<Rightarrow> (string \<Rightarrow> string option) \<Rightarrow> u64 \<Rightarrow> session \<Rightarrow> (session \<times> 'c task list) option" where
  "read_ready self pass_len inflate now s =
     (case s_read s of
        None \<Rightarrow> Some (s, [])
      | Some h \<Rightarrow>
          (case http_run inflate h (s_buf s) of
             (Finished res, buf) \<Rightarrow>
               map_option (apply_effects (s\<lparr>s_read := None, s_buf := buf\<rparr>))
                 (requestFromClientReadHandler self pass_len now res (s_api s))
           | (h', buf) \<Rightarrow> Some (s\<lparr>s_read := Some h', s_buf := buf\<rparr>, [])))"

definition session_event ::
  "'c \<Rightarrow> int \<Rightarrow> (string \<Rightarrow> string option) \<Rightarrow> u64 \<Rightarrow> session_event \<Rightarrow> session \<Rightarrow> (session \<times> 'c task list) option" where
  "session_event self pass_len inflate now e s =
     (case e of
        Received bytes \<Rightarrow> read_ready self pass_len inflate now (s\<lparr>s_buf := s_buf s @ bytes\<rparr>)
      | ReadFailed \<Rightarrow>
          (case s_read s of
             None \<Rightarrow> Some (s, [])
           | Some h \<Rightarrow>
               (case http_fail h of
                  Finished res \<Rightarrow>
                    map_option (apply_effects (s\<lparr>s_read := None\<rparr>))
                      (requestFromClientReadHandler self pass_len now res (s_api s))
                | _ \<Rightarrow> Some (s, [])))
      | WriteDone failed \<Rightarrow>
          (case s_writes s of
             [] \<Rightarrow> Some (s, [])
           | (r, h) # ws \<Rightarrow>
               (case apply_effects (s\<lparr>s_writes := ws, s_out := if failed then s_out s else s_out s @ r\<rparr>)
                       (write_done h failed (s_api s)) of
                  (s, tq) \<Rightarrow> map_option (apsnd (\<lambda>tr. tq @ tr)) (read_ready self pass_len inflate now s)))
      | TimerExpired \<Rightarrow>
          if s_timer s then
            Some (apply_effects (s\<lparr>s_timer := False\<rparr>) (timerWaitTaskResultHandler self now False (s_api s)))
          else Some (s, [])
      | Answer act \<Rightarrow> map_option (apply_effects s) (answer_handler now act (s_api s)))"

section \<open>What one request leads to\<close>

definition routed :: "cmd_t \<Rightarrow> bool" where
  "routed c \<longleftrightarrow> c \<in> {MESSAGE_SEND, MESSAGE_SEND_CHAT, USER_LOGIN, USER_CREATE, CHAT_CREATE, USER_HISTORY,
     CHAT_HISTORY, USER_STATUS, CHAT_ADDUSER}"

lemma route_Some: "route r = Some c \<longleftrightarrow> r = cmd2string c \<and> routed c"
  by (cases c) (auto simp: route_def routed_def)

lemma route_cmd2string [simp]: "routed c \<Longrightarrow> route (cmd2string c) = Some c"
  by (simp add: route_Some)

lemma not_idle_path: "routed c \<Longrightarrow> cmd2string c \<noteq> ''/v1/idle''"
  by (cases c) (auto simp: routed_def)

lemma error_response_Some: "\<exists>resp. build_api_error_rsponse st c desc = Some resp"
  by (simp add: build_api_error_rsponse_def make_api_error_text)

lemma sendErrorResponse_cases:
  obtains resp where "build_api_error_rsponse st c desc = Some resp"
    "sendErrorResponse st c desc a = Some (a\<lparr>m_HttpCode := st\<rparr>, [AsyncWrite resp ResponseWrote])"
  using error_response_Some [of st c desc] by (auto simp: sendErrorResponse_def)

text \<open>A request starts one thing: a task, the answer, or the long poll with its acknowledgement.\<close>

lemma handler_impl_cases:
  assumes "handler_impl self n req c a = Some (a', es)"
  obtains (task) t where "es = [PutTask t]" "t_client t = self" "t_cmd t = d_command (m_RequestDetails a)" "\<not> t_ping t"
    | (answer) resp where "es = [AsyncWrite resp ResponseWrote]"
proof -
  have "(\<exists>t. es = [PutTask t] \<and> t_client t = self \<and> t_cmd t = d_command (m_RequestDetails a) \<and> \<not> t_ping t) \<or>
      (\<exists>resp. es = [AsyncWrite resp ResponseWrote])"
    using assms
    by (auto simp: handler_impl_def sendErrorResponse_def new_task_def set_params_def Let_def
        split: if_splits option.splits prod.splits)
  with that show ?thesis by blast
qed

lemma request_cases:
  assumes "requestFromClientReadHandler self n now res a = Some (a', es)"
  obtains (failed) "fst res \<noteq> None" "a' = a" "es = []"
    | (task) t where "fst res = None" "es = [PutTask t]" "t_client t = self" "routed (t_cmd t)" "\<not> t_ping t"
    | (answer) resp where "fst res = None" "es = [AsyncWrite resp ResponseWrote]"
    | (idle) resp where "fst res = None" "lowercased (h_resource (snd res)) = ''/v1/idle''"
        "es = [AsyncWrite resp IdleAckWrote, StartTimer]"
proof (cases "fst res = None")
  case False
  with assms have "a' = a" "es = []" by (auto simp: requestFromClientReadHandler_def split: prod.splits)
  with False show ?thesis by (rule failed)
next
  case True
  then obtain r where res: "res = (None, r)" by (cases res) simp
  let ?a = "a\<lparr>m_RequestDetails := (m_RequestDetails a)\<lparr>d_resource := lowercased (h_resource r), d_method := h_method r\<rparr>\<rparr>"
  show ?thesis
  proof (cases "lowercased (h_resource r) = ''/v1/idle''")
    case idle_path: True
    then have "(\<exists>resp. es = [AsyncWrite resp ResponseWrote]) \<or> (\<exists>resp. es = [AsyncWrite resp IdleAckWrote, StartTimer])"
      using assms res
      by (auto simp: requestFromClientReadHandler_def sendErrorResponse_def sendOkResponseAndStartIdle_def Let_def
          split: if_splits option.splits prod.splits)
    with True idle_path res answer idle show ?thesis by fastforce
  next
    case not_idle: False
    show ?thesis
    proof (cases "route (lowercased (h_resource r))")
      case None
      with assms res not_idle True answer show ?thesis
        by (auto simp: requestFromClientReadHandler_def sendErrorResponse_def Let_def)
    next
      case (Some c)
      with assms res not_idle have "handler_impl self n r c (set_command c ?a) = Some (a', es)"
        by (simp add: requestFromClientReadHandler_def v1_handler_def Let_def)
      then show ?thesis
      proof (cases rule: handler_impl_cases)
        case (task t)
        with Some True that(2) show ?thesis by (auto simp: set_command_def route_Some)
      qed (use True answer in blast)
    qed
  qed
qed

section \<open>One operation at a time\<close>

text \<open>
  What a connection waits for: the next request, the end of a write, or \<open>n\<close> answers of the
  workers. Outside the long poll this is at most one thing, and no operation overlaps another.
\<close>

definition in_flight :: "session \<Rightarrow> nat \<Rightarrow> nat" where
  "in_flight s n = (if s_read s = None then 0 else 1) + length (s_writes s) + n"

definition alternating :: "session \<Rightarrow> nat \<Rightarrow> bool" where
  "alternating s n \<longleftrightarrow> in_flight s n \<le> 1 \<and> \<not> s_overlap s \<and> \<not> s_timer s \<and>
     (\<forall>w \<in> set (s_writes s). snd w = ResponseWrote)"

definition closed :: "session \<Rightarrow> nat \<Rightarrow> bool" where
  "closed s n \<longleftrightarrow> in_flight s n = 0"

lemma new_session_alternating: "alternating (new_session c) 0" "in_flight (new_session c) 0 = 1"
  by (simp_all add: alternating_def in_flight_def new_session_def)

lemma request_alternating:
  assumes a: "alternating s n" "s_read s \<noteq> None"
    and req: "requestFromClientReadHandler self len now res (s_api s) = Some (a', es)"
    and out: "apply_effects (s\<lparr>s_read := None, s_buf := buf\<rparr>) (a', es) = (s', tq)" and t: "\<not> s_timer s'"
  shows "alternating s' (n + length tq)"
  using req
  by (cases rule: request_cases)
    (use a t out in \<open>auto simp: apply_effects_def alternating_def in_flight_def\<close>)

lemma read_ready_alternating:
  assumes a: "alternating s n" and run: "read_ready self len inflate now s = Some (s', tq)" and t: "\<not> s_timer s'"
  shows "alternating s' (n + length tq)"
proof (cases "s_read s")
  case None
  with a run show ?thesis by (simp add: read_ready_def)
next
  case (Some h)
  obtain h' buf where h: "http_run inflate h (s_buf s) = (h', buf)" by fastforce
  show ?thesis
  proof (cases h')
    case (Finished res)
    obtain a' es where req: "requestFromClientReadHandler self len now res (s_api s) = Some (a', es)"
      and out: "apply_effects (s\<lparr>s_read := None, s_buf := buf\<rparr>) (a', es) = (s', tq)"
      using run Some h Finished by (auto simp: read_ready_def)
    from request_alternating [OF a _ req out t] Some show ?thesis by simp
  qed (use a run t Some h in \<open>auto simp: read_ready_def alternating_def in_flight_def\<close>)
qed

text \<open>The answers to every command but \<open>IDLE\<close>.\<close>

definition plain_answer :: "action \<Rightarrow> bool" where
  "plain_answer act \<longleftrightarrow> (case act of SendMessagesToIdleConn _ \<Rightarrow> False | _ \<Rightarrow> True)"

lemma answer_cases:
  assumes "plain_answer act" "answer_handler now act a = Some (a', es)"
  obtains resp where "es = [AsyncWrite resp ResponseWrote]"
  using assms
  by (cases act)
    (auto simp: plain_answer_def answer_handler_def sendErrorResponse_def sendOkResponse_def sendMessages_def)

lemma session_alternates:
  assumes a: "alternating s n" and run: "session_event self len inflate now e s = Some (s', tq)"
    and e: "\<And>act. e = Answer act \<Longrightarrow> 0 < n \<and> plain_answer act" and t: "\<not> s_timer s'"
  shows "alternating s' (n - (case e of Answer _ \<Rightarrow> 1 | _ \<Rightarrow> 0) + length tq)"
proof (cases e)
  case (Received bytes)
  have "alternating (s\<lparr>s_buf := s_buf s @ bytes\<rparr>) n" using a by (simp add: alternating_def in_flight_def)
  from read_ready_alternating [OF this _ t] run Received show ?thesis by (simp add: session_event_def)
next
  case ReadFailed
  show ?thesis
  proof (cases "s_read s")
    case None
    with a run ReadFailed show ?thesis by (simp add: session_event_def)
  next
    case (Some h)
    obtain res where h: "http_fail h = Finished res" by (cases h) (auto simp: http_fail_def)
    obtain a' es where req: "requestFromClientReadHandler self len now res (s_api s) = Some (a', es)"
      and out: "apply_effects (s\<lparr>s_read := None, s_buf := s_buf s\<rparr>) (a', es) = (s', tq)"
      using run Some h ReadFailed by (auto simp: session_event_def)
    from request_alternating [OF a _ req out t] Some ReadFailed show ?thesis by simp
  qed
next
  case (WriteDone failed)
  show ?thesis
  proof (cases "s_writes s")
    case Nil
    with a run WriteDone show ?thesis by (simp add: session_event_def)
  next
    case (Cons w ws)
    then obtain r where w: "w = (r, ResponseWrote)" using a by (cases w) (auto simp: alternating_def)
    have ws: "ws = []" "n = 0" "s_read s = None" using a Cons by (auto simp: alternating_def in_flight_def split: if_splits)
    let ?s = "s\<lparr>s_writes := [], s_out := if failed then s_out s else s_out s @ r,
        s_api := (s_api s)\<lparr>m_HttpCode := 200\<rparr>, s_read := Some AwaitHeaders\<rparr>"
    have alt: "alternating ?s 0" using a Cons ws by (auto simp: alternating_def in_flight_def)
    have "read_ready self len inflate now ?s = Some (s', tq)"
      using run WriteDone Cons w ws a
      by (auto simp: session_event_def write_done_def responseToClientWroteHandler_def apply_effects_def
          alternating_def)
    from read_ready_alternating [OF alt this t] WriteDone ws show ?thesis by simp
  qed
next
  case TimerExpired
  with a run show ?thesis by (simp add: session_event_def alternating_def)
next
  case (Answer act)
  with e have n: "0 < n" "plain_answer act" by auto
  obtain a' es where h: "answer_handler now act (s_api s) = Some (a', es)"
    and out: "(s', tq) = apply_effects s (a', es)"
    using run Answer by (auto simp: session_event_def)
  obtain resp where "es = [AsyncWrite resp ResponseWrote]" by (rule answer_cases [OF n(2) h])
  moreover have "length (s_writes s) = 0"
    using a n unfolding alternating_def in_flight_def by linarith
  then have "s_writes s = []" by simp
  ultimately show ?thesis
    using out a n Answer
    by (auto simp: apply_effects_def alternating_def in_flight_def split: if_splits)
qed

section \<open>When the server aborts\<close>

lemma FindMember_None: "FindMember k doc = None \<longleftrightarrow> \<not> IsObject doc"
  by (cases doc) (simp_all add: FindMember_def IsObject_def)

lemma find_param_None:
  "find_required_string_param doc k = None \<longleftrightarrow> \<not> IsObject doc"
  "find_required_uint_param doc k = None \<longleftrightarrow> \<not> IsObject doc"
  using FindMember_None [of k doc]
  by (cases "FindMember k doc";
      auto simp: find_required_string_param_def find_required_uint_param_def split: option.splits)+

lemma required_not_None: "x \<noteq> None \<Longrightarrow> (\<And>v. k v \<noteq> None) \<Longrightarrow> required x p k \<noteq> None"
  by (auto simp: required_def split: sum.split)

lemma if_not_None: "(b \<Longrightarrow> x \<noteq> None) \<Longrightarrow> (\<not> b \<Longrightarrow> y \<noteq> None) \<Longrightarrow> (if b then x else y) \<noteq> None"
  by simp

lemma parse_parts_not_None:
  assumes "IsObject doc"
  shows "parse_user n p doc c \<noteq> None" "parse_chat p doc c \<noteq> None" "parse_idle p doc \<noteq> None"
    "parse_history p doc \<noteq> None" "parse_message p doc c \<noteq> None"
proof -
  have f: "find_required_string_param doc k \<noteq> None" "find_required_uint_param doc k \<noteq> None" for k
    using assms by (simp_all add: find_param_None)
  note step = required_not_None f if_not_None option.distinct(2)
  show "parse_user n p doc c \<noteq> None" unfolding parse_user_def Let_def by (intro step)
  show "parse_idle p doc \<noteq> None" using f(2) [of "''heartbit''"] by (auto simp: parse_idle_def split: sum.split)
  show "parse_chat p doc c \<noteq> None" unfolding parse_chat_def Let_def by (intro step)
  show "parse_message p doc c \<noteq> None" unfolding parse_message_def Let_def by (intro step)
  show "parse_history p doc \<noteq> None" unfolding parse_history_def Let_def
    using f(2) [of "''count''"] by (intro required_not_None f) (auto split: sum.split)
qed

lemma parse_meta_None: "parse_meta n p body c = None \<longleftrightarrow> (\<exists>v. Parse body = Inr v \<and> \<not> IsObject v)"
proof (cases "Parse body")
  case (Inr doc)
  show ?thesis
  proof (cases "IsObject doc")
    case True
    then have f: "find_required_string_param doc k \<noteq> None" "find_required_uint_param doc k \<noteq> None" for k
      by (simp_all add: find_param_None)
    have "parse_meta n p body c \<noteq> None"
      unfolding parse_meta_def Inr sum.case Let_def
      by (intro required_not_None f if_not_None option.distinct(2) parse_parts_not_None [OF True])
    with Inr True show ?thesis by simp
  next
    case False
    then have "find_required_string_param doc ''password'' = None" by (simp add: find_param_None)
    then show ?thesis using Inr False by (simp add: parse_meta_def required_def)
  qed
qed (simp add: parse_meta_def)

definition api_type :: "string \<Rightarrow> bool" where
  "api_type t \<longleftrightarrow> starts_with t ''text/plain'' \<or> starts_with t ''application/json''"

lemma sendErrorResponse_Some [simp]:
  "\<exists>a' es. sendErrorResponse st c d a = Some (a', es)" "sendErrorResponse st c d a \<noteq> None"
  using error_response_Some [of st c d] by (auto simp: sendErrorResponse_def)

lemma handler_impl_None:
  "handler_impl self n r c a = None \<longleftrightarrow>
     api_type (getHeader r ''Content-Type'') \<and> (\<exists>v. Parse (h_body r) = Inr v \<and> \<not> IsObject v)"
  by (cases "parse_meta n (d_params (m_RequestDetails a)) (h_body r) c")
    (auto simp: handler_impl_def api_type_def Let_def
      parse_meta_None [of n "d_params (m_RequestDetails a)" _ c, symmetric])

text \<open>
  (C12) A request aborts the server process exactly when its body is valid JSON that is not an
  object and its path leads to parse_meta: the long poll, or a routed path with an allowed
  content type.
\<close>

theorem request_abort:
  "requestFromClientReadHandler self n now (err, r) a = None \<longleftrightarrow>
     err = None \<and> (\<exists>v. Parse (h_body r) = Inr v \<and> \<not> IsObject v) \<and>
     (lowercased (h_resource r) = ''/v1/idle'' \<or>
      (\<exists>c. routed c \<and> lowercased (h_resource r) = cmd2string c) \<and> api_type (getHeader r ''Content-Type''))"
proof (cases "lowercased (h_resource r) = ''/v1/idle''")
  case True
  then show ?thesis
    by (cases "parse_meta n (d_params (m_RequestDetails a)) (h_body r) IDLE")
      (auto simp: requestFromClientReadHandler_def set_command_def sendOkResponseAndStartIdle_def ok_body_cmd_text Let_def
        parse_meta_None [of n "d_params (m_RequestDetails a)" _ IDLE, symmetric])
next
  case False
  show ?thesis
  proof (cases "route (lowercased (h_resource r))")
    case None
    then have "\<not> (\<exists>c. routed c \<and> lowercased (h_resource r) = cmd2string c)" using route_Some by fastforce
    with None False error_response_Some [of 404 ERR_NOT_FOUND "''bad request''"] show ?thesis
      by (auto simp: requestFromClientReadHandler_def sendErrorResponse_def Let_def)
  next
    case (Some c)
    then have "routed c \<and> lowercased (h_resource r) = cmd2string c" by (simp add: route_Some)
    with Some False show ?thesis
      by (auto simp: requestFromClientReadHandler_def v1_handler_def handler_impl_None Let_def)
  qed
qed

text \<open>
  The router maps exactly the paths of nine commands to their commands; the paths of
  CHAT_STATUS and MESSAGE_RECENT lead nowhere.
\<close>

theorem router_paths: "route r = Some c \<longleftrightarrow> r = cmd2string c \<and> c \<notin> {IDLE, CHAT_STATUS, MESSAGE_RECENT, CMD_LAST}"
  unfolding route_Some by (cases c) (simp_all add: routed_def)

end
