(* ===== verification/System.thy ===== *)
theory System
  imports Session
begin

text \<open>
  The running server: the connections, the queue of tasks, the workers and the storage, under
  the events of the network, the clock and the scheduler, in any order. It composes
  \<open>ApiClient\<close> (theory \<open>Session\<close>) with \<open>DatabaseWorker\<close> (theory \<open>Db_Worker\<close>) the way the server
  does: a handler puts a task into the queue, a worker takes it and calls the method of the
  \<open>ApiClient\<close> the task points to. A connection is named by a client id and is never
  forgotten, as the \<open>shared_ptr\<close> of a task keeps the object.
\<close>

section \<open>States and events\<close>

record env =
  e_pass_len :: int
  e_inflate :: "string \<Rightarrow> string option"
  e_crc :: "string \<Rightarrow> u32"
  e_sort :: "db_message list \<Rightarrow> db_message list"
  e_command :: cmd_t

record 'c system =
  y_sessions :: "'c \<rightharpoonup> session"
  y_workers :: "('c, storage) workers"

definition empty_system :: "'c system" where
  "empty_system = \<lparr>y_sessions = Map.empty, y_workers = \<lparr>w_queue = \<lparr>m_Queue = []\<rparr>, w_db = empty_storage, w_sent = []\<rparr>\<rparr>"

datatype 'c system_event =
    Accept 'c
  | At 'c session_event
  | WorkerRound

text \<open>An event of one connection; the tasks it makes go to the queue.\<close>

definition at_session :: "env \<Rightarrow> u64 \<Rightarrow> 'c \<Rightarrow> session_event \<Rightarrow> 'c system \<Rightarrow> 'c system option" where
  "at_session env now c e y =
     (case y_sessions y c of
        None \<Rightarrow> Some y
      | Some s \<Rightarrow>
          map_option (\<lambda>(s', tq). \<lparr>y_sessions = (y_sessions y)(c \<mapsto> s'), y_workers = fold putTask tq (y_workers y)\<rparr>)
            (session_event c (e_pass_len env) (e_inflate env) now e s))"

text \<open>The calls a worker makes for one task.\<close>

fun deliver :: "env \<Rightarrow> u64 \<Rightarrow> ('c \<times> action) list \<Rightarrow> 'c system \<Rightarrow> 'c system option" where
  "deliver env now [] y = Some y"
| "deliver env now ((c, act) # as) y = Option.bind (at_session env now c (Answer act) y) (deliver env now as)"

definition worker_round :: "env \<Rightarrow> u64 \<Rightarrow> 'c system \<Rightarrow> 'c system option" where
  "worker_round env now y =
     (case processQueue_round (e_crc env) (e_sort env) InMemoryConnection now ((y_workers y)\<lparr>w_sent := []\<rparr>) of
        None \<Rightarrow> None
      | Some w \<Rightarrow> deliver env now (w_sent w) (y\<lparr>y_workers := w\<lparr>w_sent := []\<rparr>\<rparr>))"

text \<open>Answers come from the workers only, and a client id names one connection.\<close>

definition system_event :: "env \<Rightarrow> u64 \<Rightarrow> 'c system_event \<Rightarrow> 'c system \<Rightarrow> 'c system option" where
  "system_event env now e y =
     (case e of
        Accept c \<Rightarrow>
          (case y_sessions y c of
             None \<Rightarrow> Some (y\<lparr>y_sessions := (y_sessions y)(c \<mapsto> new_session (e_command env))\<rparr>)
           | Some _ \<Rightarrow> Some y)
      | At c (Answer _) \<Rightarrow> Some y
      | At c se \<Rightarrow> at_session env now c se y
      | WorkerRound \<Rightarrow> worker_round env now y)"

fun system_run :: "env \<Rightarrow> (u64 \<times> 'c system_event) list \<Rightarrow> 'c system \<Rightarrow> 'c system option" where
  "system_run env [] y = Some y"
| "system_run env ((now, e) # es) y = Option.bind (system_event env now e y) (system_run env es)"

text \<open>The same as a relation, and the states the server can be in after \<open>n\<close> events.\<close>

inductive system_step :: "env \<Rightarrow> 'c system \<Rightarrow> 'c system \<Rightarrow> bool" for env where
  accept: "system_step env y (y\<lparr>y_sessions := (y_sessions y)(c \<mapsto> new_session (e_command env))\<rparr>)"
    if "y_sessions y c = None"
| event: "system_step env y y'" if "\<And>act. e \<noteq> Answer act" "at_session env now c e y = Some y'"
| round: "system_step env y y'" if "worker_round env now y = Some y'"
| stay: "system_step env y y"

inductive_cases system_stepE: "system_step env y y'"

inductive reachable :: "env \<Rightarrow> nat \<Rightarrow> 'c system \<Rightarrow> bool" for env where
  start: "reachable env 0 empty_system"
| step: "reachable env (Suc n) y'" if "reachable env n y" "system_step env y y'"

lemma system_event_step: "system_event env now e y = Some y' \<Longrightarrow> system_step env y y'"
proof (cases e)
  case (At c se)
  assume "system_event env now e y = Some y'"
  with At show ?thesis
    by (cases se) (auto simp: system_event_def intro: system_step.event system_step.stay)
qed (auto simp: system_event_def intro: system_step.intros split: option.splits)

lemma system_run_reachable:
  "reachable env n y \<Longrightarrow> system_run env es y = Some y' \<Longrightarrow> reachable env (n + length es) y'"
proof (induction es arbitrary: n y)
  case (Cons e es)
  obtain now ev where e: "e = (now, ev)" by (cases e)
  with Cons.prems(2) obtain y1 where y1: "system_event env now ev y = Some y1" "system_run env es y1 = Some y'"
    by (auto split: bind_splits)
  from Cons.IH [OF reachable.step [OF Cons.prems(1) system_event_step [OF y1(1)]] y1(2)] show ?case by simp
qed simp

lemma system_run_append: "system_run env (es @ fs) y = Option.bind (system_run env es y) (system_run env fs)"
  by (induction env es y rule: system_run.induct) (auto split: bind_splits)

section \<open>The storage\<close>

lemma putTask_fold [simp]:
  "w_db (fold putTask tq w) = w_db w" "w_sent (fold putTask tq w) = w_sent w"
  "m_Queue (w_queue (fold putTask tq w)) = m_Queue (w_queue w) @ tq"
  by (induction tq arbitrary: w) (simp_all add: putTask_def push_def)

lemma at_session_db: "at_session env now c e y = Some y' \<Longrightarrow> w_db (y_workers y') = w_db (y_workers y)"
  by (auto simp: at_session_def split: option.splits)

lemma deliver_db: "deliver env now as y = Some y' \<Longrightarrow> w_db (y_workers y') = w_db (y_workers y)"
  by (induction env now as y rule: deliver.induct) (auto simp: at_session_db split: bind_splits)

text \<open>One event of the server is at most one task on the storage.\<close>

lemma step_db:
  fixes y :: "'c system"
  assumes "system_step env y y'"
  shows "w_db (y_workers y') = w_db (y_workers y) \<or>
    (\<exists>(task :: 'c task) now acts. process_task (e_crc env) (e_sort env) now InMemoryConnection task (w_db (y_workers y)) =
      Some (w_db (y_workers y'), acts))"
  using assms
proof cases
  case (round now)
  obtain w where w: "processQueue_round (e_crc env) (e_sort env) InMemoryConnection now ((y_workers y)\<lparr>w_sent := []\<rparr>) = Some w"
    "deliver env now (w_sent w) (y\<lparr>y_workers := w\<lparr>w_sent := []\<rparr>\<rparr>) = Some y'"
    using round by (auto simp: worker_round_def split: option.splits)
  have "w_db (y_workers y') = w_db w" using deliver_db [OF w(2)] by simp
  with w(1) show ?thesis
    by (cases rule: round_cases [of "(y_workers y)\<lparr>w_sent := []\<rparr>" "e_crc env" "e_sort env" InMemoryConnection now]) auto
qed (use at_session_db in auto)

definition db_ok :: "nat \<Rightarrow> storage \<Rightarrow> bool" where
  "db_ok n st \<longleftrightarrow> storage_inv st \<and> unat (chat_autoincrement st) \<le> Suc n"

lemma reachable_db_ok:
  fixes y :: "'c system"
  shows "reachable env n y \<Longrightarrow> n < 2 ^ 64 - 2 \<Longrightarrow> db_ok n (w_db (y_workers y))"
proof (induction rule: reachable.induct)
  case start
  then show ?case by (simp add: db_ok_def empty_system_def empty_storage_inv) (simp add: empty_storage_def)
next
  case (step n y y')
  then have ok: "db_ok n (w_db (y_workers y))" by simp
  then have room: "has_room (w_db (y_workers y))"
    using step.prems by (simp add: has_room_def db_ok_def)
  from step_db [OF step.hyps(2)] show ?case
  proof (elim disjE exE)
    fix task :: "'c task" and now acts
    assume run: "process_task (e_crc env) (e_sort env) now InMemoryConnection task (w_db (y_workers y)) =
      Some (w_db (y_workers y'), acts)"
    have "unat (chat_autoincrement (w_db (y_workers y)) + 1) = Suc (unat (chat_autoincrement (w_db (y_workers y))))"
      using ok step.prems by (intro unat_Suc_u64) (simp add: db_ok_def)
    then show ?thesis
      using mem.process_task_inv [OF _ room run] process_task_autoincrement [OF run] ok by (auto simp: db_ok_def)
  qed (use ok in \<open>simp add: db_ok_def\<close>)
qed

section \<open>One request at a time\<close>

definition pending :: "'c \<Rightarrow> 'c system \<Rightarrow> nat" where
  "pending c y = length (filter (\<lambda>t. t_client t = c) (m_Queue (w_queue (y_workers y))))"

text \<open>The states reached as long as no connection has started the long poll.\<close>

definition no_poll :: "'c system \<Rightarrow> bool" where
  "no_poll y \<longleftrightarrow> (\<forall>c s. y_sessions y c = Some s \<longrightarrow> \<not> s_timer s)"

inductive calm :: "env \<Rightarrow> nat \<Rightarrow> 'c system \<Rightarrow> bool" for env where
  start: "calm env 0 empty_system"
| step: "calm env (Suc n) y'" if "calm env n y" "system_step env y y'" "no_poll y'"

lemma calm_reachable: "calm env n y \<Longrightarrow> reachable env n y"
  by (induction rule: calm.induct) (auto intro: reachable.intros)

lemma calm_no_poll: "calm env n y \<Longrightarrow> no_poll y"
  by (cases rule: calm.cases) (auto simp: no_poll_def empty_system_def)

definition one_at_a_time :: "'c system \<Rightarrow> bool" where
  "one_at_a_time y \<longleftrightarrow>
     (\<forall>c s. y_sessions y c = Some s \<longrightarrow> alternating s (pending c y)) \<and>
     (\<forall>t \<in> set (m_Queue (w_queue (y_workers y))). routed (t_cmd t) \<and> y_sessions y (t_client t) \<noteq> None)"

lemma apply_effects_tasks:
  assumes "apply_effects s (a, es) = (s', tq)"
  shows "t \<in> set tq \<Longrightarrow> PutTask t \<in> set es"
proof -
  have "set (snd (fold apply_effect es (s0, tr))) \<subseteq> set tr \<union> {t. PutTask t \<in> set es}" for s0 tr
  proof (induction es arbitrary: s0 tr)
    case (Cons e es)
    obtain s1 t1 where e: "apply_effect e (s0, tr) = (s1, t1)" by fastforce
    then have "set t1 \<subseteq> set tr \<union> {t. e = PutTask t}" by (cases e) auto
    with Cons [of s1 t1] e show ?case by auto
  qed simp
  from this [of "s\<lparr>s_api := a\<rparr>" "[]"] assms show "t \<in> set tq \<Longrightarrow> PutTask t \<in> set es"
    by (auto simp: apply_effects_def)
qed

lemma request_tasks:
  assumes "requestFromClientReadHandler self n now res a = Some r" "apply_effects s r = (s', tq)" "t \<in> set tq"
  shows "t_client t = self \<and> routed (t_cmd t)"
proof -
  obtain a' es where r: "r = (a', es)" by (cases r)
  with assms(2,3) have "PutTask t \<in> set es" by (auto dest: apply_effects_tasks)
  moreover have "requestFromClientReadHandler self n now res a = Some (a', es)" using assms(1) r by simp
  ultimately show ?thesis by (auto elim: request_cases)
qed

lemma read_ready_tasks:
  "read_ready self n inflate now s = Some (s', tq) \<Longrightarrow> t \<in> set tq \<Longrightarrow> t_client t = self \<and> routed (t_cmd t)"
  by (auto simp: read_ready_def split: option.splits prod.splits http_state.splits dest: request_tasks)

lemma session_tasks:
  assumes "session_event self n inflate now e s = Some (s', tq)" "\<not> s_timer s" "t \<in> set tq"
  shows "t_client t = self \<and> routed (t_cmd t)"
proof (cases e)
  case (Received bytes)
  with assms show ?thesis by (auto simp: session_event_def dest: read_ready_tasks)
next
  case ReadFailed
  with assms show ?thesis
    by (auto simp: session_event_def split: option.splits http_state.splits dest: request_tasks)
next
  case (WriteDone failed)
  show ?thesis
  proof (cases "s_writes s")
    case Nil
    with assms WriteDone show ?thesis by (simp add: session_event_def)
  next
    case (Cons w ws)
    obtain r h where w: "w = (r, h)" by (cases w)
    let ?s = "s\<lparr>s_writes := ws, s_out := if failed then s_out s else s_out s @ r\<rparr>"
    obtain a es where wd: "write_done h failed (s_api s) = (a, es :: 'a effect list)" by fastforce
    obtain s1 t1 where ae: "apply_effects ?s (a, es) = (s1, t1)" by fastforce
    have "PutTask t' \<notin> set es" for t'
      using wd by (auto simp: write_done_def responseToClientWroteHandler_def split: write_handler.splits if_splits)
    then have "t1 = []" using apply_effects_tasks [OF ae] by (cases t1) auto
    with assms WriteDone Cons w wd ae show ?thesis
      by (auto simp: session_event_def dest: read_ready_tasks)
  qed
next
  case TimerExpired
  with assms show ?thesis by (simp add: session_event_def)
next
  case (Answer act)
  obtain r where r: "answer_handler now act (s_api s) = Some r" "apply_effects s r = (s', tq)"
    using assms Answer by (auto simp: session_event_def)
  obtain a es where "r = (a, es)" by (cases r)
  moreover have "PutTask t' \<notin> set es" for t'
    using r(1) calculation
    by (cases act) (auto simp: answer_handler_def sendErrorResponse_def sendOkResponse_def sendMessages_def
        sendMessagesToIdleConn_def)
  ultimately show ?thesis using r(2) apply_effects_tasks assms(3) by blast
qed

lemma plain_answer_simps [simp]:
  "plain_answer (SendErrorResponse st c d)" "plain_answer (SendOkResponse b)" "plain_answer (SendMessages ms)"
  "\<not> plain_answer (SendMessagesToIdleConn ms)"
  by (simp_all add: plain_answer_def)

lemma process_task_plain:
  assumes "process_task crc srt now conn task st = Some (st', acts)" "t_cmd task \<noteq> IDLE" "act \<in> set acts"
  shows "plain_answer act"
proof -
  have u: "plain_answer act" if "lookup_check_pass crc conn task st = (u, acts)" "act \<in> set acts" for u
    using that by (auto simp: lookup_check_pass_def plain_answer_def Let_def split: if_splits)
  have n: "plain_answer act" if "lookup_check_pass_by_name crc conn m task b st = (u, acts)" "act \<in> set acts" for u m b
    using that by (auto simp: lookup_check_pass_by_name_def plain_answer_def split: if_splits list.splits)
  show ?thesis
    using assms
    by (auto simp: process_task_def task_defs ok_body_user_text ok_body_chat_text Let_def
        split: cmd_t.splits prod.splits list.splits if_splits intro: u n)
qed

lemma alternating_less: "alternating s (Suc n) \<Longrightarrow> alternating s n"
  by (simp add: alternating_def in_flight_def)

lemma one_at_a_timeD:
  assumes "one_at_a_time y"
  shows "y_sessions y c = Some s \<Longrightarrow> alternating s (pending c y)"
    and "t \<in> set (m_Queue (w_queue (y_workers y))) \<Longrightarrow> routed (t_cmd t) \<and> y_sessions y (t_client t) \<noteq> None"
  using assms by (simp_all add: one_at_a_time_def)

text \<open>An event of connection \<open>c\<close>, which may be one of the answers that \<open>k\<close> tasks owe it.\<close>

lemma at_session_one:
  assumes sess: "\<And>c' s. y_sessions y c' = Some s \<Longrightarrow> alternating s (pending c' y + (if c' = c then k else 0))"
    and tasks: "\<forall>t \<in> set (m_Queue (w_queue (y_workers y))). routed (t_cmd t) \<and> y_sessions y (t_client t) \<noteq> None"
    and run: "at_session env now c e y = Some y'" and calm: "no_poll y'" "no_poll y"
    and e: "(case e of Answer act \<Rightarrow> k = 1 \<and> plain_answer act | _ \<Rightarrow> k = 0)"
  shows "one_at_a_time y'"
proof (cases "y_sessions y c")
  case None
  then have "y' = y" using run by (simp add: at_session_def)
  moreover have "pending c y = 0" using tasks None by (auto simp: pending_def filter_empty_conv)
  moreover have "alternating s (pending c' y)" if "y_sessions y c' = Some s" for c' s
    using sess [OF that] None that by (cases "c' = c") auto
  ultimately show ?thesis using tasks by (simp add: one_at_a_time_def)
next
  case (Some s)
  obtain s' tq where r: "session_event c (e_pass_len env) (e_inflate env) now e s = Some (s', tq)"
    and y': "y' = \<lparr>y_sessions = (y_sessions y)(c \<mapsto> s'), y_workers = fold putTask tq (y_workers y)\<rparr>"
    using run Some by (auto simp: at_session_def)
  have quiet: "\<not> s_timer s" "\<not> s_timer s'"
    using calm(2) Some calm(1) [unfolded no_poll_def, rule_format, of c s'] by (simp_all add: no_poll_def y')
  have tq: "t_client t = c \<and> routed (t_cmd t)" if "t \<in> set tq" for t
    using session_tasks [OF r quiet(1) that] .
  have "filter (\<lambda>t. t_client t = c) tq = tq" using tq by (simp add: filter_id_conv)
  then have pend: "pending c y' = pending c y + length tq" by (simp add: pending_def y')
  have other: "pending c' y' = pending c' y" if "c' \<noteq> c" for c'
    using tq that by (auto simp: pending_def y' filter_empty_conv)
  have "alternating s (pending c y + k)" using sess [OF Some] by simp
  from session_alternates [OF this r _ quiet(2)] e
  have "alternating s' (pending c y')" by (cases e) (auto simp: pend)
  moreover have "alternating s (pending c' y')" if "c' \<noteq> c" "y_sessions y c' = Some s" for c' s
    using sess [OF that(2)] other [OF that(1)] that(1) by simp
  ultimately show ?thesis
    using tasks tq y' by (auto simp: one_at_a_time_def)
qed

lemma one_at_a_time_step:
  assumes inv: "one_at_a_time y" and step: "system_step env y y'" and calm: "no_poll y" "no_poll y'"
    and db: "storage_inv (w_db (y_workers y))"
  shows "one_at_a_time y'"
  using step
proof cases
  case (accept c)
  have "pending c y = 0"
    using one_at_a_timeD(2) [OF inv] accept(2) by (fastforce simp: pending_def filter_empty_conv)
  then show ?thesis
    using inv accept new_session_alternating(1) by (auto simp: one_at_a_time_def pending_def)
next
  case (event e now c)
  then have e: "case e of Answer act \<Rightarrow> (0 :: nat) = 1 \<and> plain_answer act | _ \<Rightarrow> (0 :: nat) = 0" by (cases e) auto
  from at_session_one [OF _ _ event(2) calm(2,1) e] inv show ?thesis by (simp add: one_at_a_time_def)
next
  case stay
  with inv show ?thesis by simp
next
  case (round now)
  let ?w = "(y_workers y)\<lparr>w_sent := []\<rparr>"
  obtain w where w: "processQueue_round (e_crc env) (e_sort env) InMemoryConnection now ?w = Some w"
    "deliver env now (w_sent w) (y\<lparr>y_workers := w\<lparr>w_sent := []\<rparr>\<rparr>) = Some y'"
    using round by (auto simp: worker_round_def split: option.splits)
  show ?thesis
  proof (cases rule: round_cases [of ?w "e_crc env" "e_sort env" InMemoryConnection now])
    case idle
    then have "y' = y\<lparr>y_workers := ?w\<rparr>" using w by simp
    then show ?thesis using inv by (simp add: one_at_a_time_def pending_def)
  next
    case (task t tr st acts)
    let ?y = "y\<lparr>y_workers := (y_workers y)\<lparr>w_queue := \<lparr>m_Queue = tr\<rparr>, w_db := st, w_sent := []\<rparr>\<rparr>"
    have w': "w_sent w = map (Pair (t_client t)) acts"
      "y\<lparr>y_workers := w\<lparr>w_sent := []\<rparr>\<rparr> = ?y" using w(1) task(3) by auto
    have t: "routed (t_cmd t)" using one_at_a_timeD(2) [OF inv] task(1) by simp
    have rest: "\<forall>t \<in> set (m_Queue (w_queue (y_workers ?y))). routed (t_cmd t) \<and> y_sessions ?y (t_client t) \<noteq> None"
      using one_at_a_timeD(2) [OF inv] task(1) by simp
    have owed: "alternating s (pending c ?y + (if c = t_client t then 1 else 0))"
      if "y_sessions ?y c = Some s" for c s
      using one_at_a_timeD(1) [OF inv, of c s] that task(1) by (auto simp: pending_def)
    have calm_y: "no_poll ?y" using calm(1) by (simp add: no_poll_def)
    consider "acts = []" | act where "acts = [act]" "plain_answer act"
    proof (cases "t_cmd t = CHAT_HISTORY")
      case True
      with task(2) that(1) show ?thesis by (simp add: process_task_def)
    next
      case False
      with t have "t_cmd t \<in> {USER_STATUS, USER_HISTORY, MESSAGE_SEND, USER_CREATE, USER_LOGIN, CHAT_CREATE,
          CHAT_ADDUSER, MESSAGE_SEND_CHAT}" by (auto simp: routed_def)
      from mem.one_answer [OF _ this task(2)] db obtain act where a: "acts = [act]" by (cases acts) auto
      have "t_cmd t \<noteq> IDLE" using t by (auto simp: routed_def)
      from process_task_plain [OF task(2) this, of act] a that(2) show ?thesis by simp
    qed
    then show ?thesis
    proof cases
      case 1
      then have "y' = ?y" using w(2) unfolding w' by simp
      moreover have "alternating s (pending c ?y)" if "y_sessions ?y c = Some s" for c s
        using owed [OF that] alternating_less by (cases "c = t_client t") auto
      ultimately show ?thesis using rest by (simp only: one_at_a_time_def) blast
    next
      case (2 act)
      then have "at_session env now (t_client t) (Answer act) ?y = Some y'"
        using w(2) unfolding w' by (simp split: bind_splits)
      from at_session_one [OF owed rest this calm(2) calm_y] 2(2) show ?thesis by simp
    qed
  qed
qed

lemma calm_one_at_a_time:
  "calm env n y \<Longrightarrow> n < 2 ^ 64 - 2 \<Longrightarrow> one_at_a_time y"
proof (induction rule: calm.induct)
  case start
  then show ?case by (simp add: one_at_a_time_def empty_system_def)
next
  case (step n y y')
  have "storage_inv (w_db (y_workers y))"
    using reachable_db_ok [OF calm_reachable [OF step.hyps(1)]] step.prems by (simp add: db_ok_def)
  with one_at_a_time_step [OF _ step.hyps(2) calm_no_poll [OF step.hyps(1)] step.hyps(3)] step.IH step.prems
  show ?case by simp
qed

end
