(* ===== verification/Server_Spec.thy ===== *)
theory Server_Spec
  imports Db_Worker
begin

text \<open>
  What the server does with a request, on the in-memory database: authentication,
  registration and login, sending, history, the long poll, group membership. The
  properties are stated on \<open>process_task\<close> and \<open>processQueue\<close> of \<open>Db_Worker\<close>.
\<close>

section \<open>The newest of two logs\<close>

abbreviation newest_first :: "db_message list \<Rightarrow> bool" where
  "newest_first ms \<equiv> sorted_wrt (\<lambda>a b. ts a \<ge> ts b) ms"

lemma sorted_take_ge:
  fixes k :: "'a \<Rightarrow> 'b :: linorder"
  assumes "sorted_wrt (\<lambda>a b. k a \<ge> k b) X" "c \<le> length (filter (\<lambda>x. k x \<ge> v) X)" "h \<in> set (take c X)"
  shows "v \<le> k h"
proof (rule ccontr)
  assume "\<not> v \<le> k h"
  obtain i where i: "i < c" "i < length X" "X ! i = h"
    using assms(3) by (auto simp: in_set_conv_nth)
  have "filter (\<lambda>x. k x \<ge> v) (drop i X) = []"
  proof -
    have "k x \<le> k h" if "x \<in> set (drop i X)" for x
    proof -
      from that obtain j where "j < length (drop i X)" "drop i X ! j = x"
        unfolding in_set_conv_nth by blast
      then have "j < length X - i" "x = X ! (i + j)" using i(2) by auto
      with i assms(1) show ?thesis
        by (cases "j = 0") (auto simp: sorted_wrt_iff_nth_less)
    qed
    with \<open>\<not> v \<le> k h\<close> show ?thesis by (fastforce simp: filter_empty_conv)
  qed
  then have "filter (\<lambda>x. k x \<ge> v) X = filter (\<lambda>x. k x \<ge> v) (take i X)"
    by (metis append_Nil2 append_take_drop_id filter_append)
  then have "length (filter (\<lambda>x. k x \<ge> v) X) \<le> i"
    using length_filter_le [of "\<lambda>x. k x \<ge> v" "take i X"] i by simp
  with assms(2) i show False by simp
qed

lemma sorted_drop_le:
  fixes k :: "'a \<Rightarrow> 'b :: linorder"
  assumes "sorted_wrt (\<lambda>a b. k a \<ge> k b) X" "h \<in> set (take c X)" "m \<in> set (drop c X)"
  shows "k m \<le> k h"
  using assms sorted_wrt_append [of "\<lambda>a b. k a \<ge> k b" "take c X" "drop c X"] by simp

text \<open>
  The \<open>c\<close> largest of two descending lists, computed from their prefixes of length \<open>n\<close>.
\<close>

lemma merge_top:
  fixes k :: "'a \<Rightarrow> 'b :: linorder"
  assumes A: "sorted_wrt (\<lambda>a b. k a \<ge> k b) A" and B: "sorted_wrt (\<lambda>a b. k a \<ge> k b) B"
    and X: "sorted_wrt (\<lambda>a b. k a \<ge> k b) X" "mset X = mset (take n A @ take n B)" and c: "c \<le> n"
  shows "length (take c X) = min c (length A + length B)"
    and "mset A + mset B = mset (take c X) + (mset (drop c X) + (mset (drop n A) + mset (drop n B)))"
    and "m \<in> set (drop c X) \<union> set (drop n A) \<union> set (drop n B) \<Longrightarrow> h \<in> set (take c X) \<Longrightarrow> k m \<le> k h"
proof -
  have "length X = min n (length A) + min n (length B)"
    using X(2) by (metis length_append length_take mset_eq_length min.commute)
  then show "length (take c X) = min c (length A + length B)" using c by auto
  have "mset L = mset (take i L) + mset (drop i L)" for L :: "'a list" and i
    by (metis append_take_drop_id mset_append)
  from this[of A n] this[of B n] this[of X c]
  show "mset A + mset B = mset (take c X) + (mset (drop c X) + (mset (drop n A) + mset (drop n B)))"
    using X(2) by (simp add: ac_simps)
  have big: "k m \<le> k h"
    if h: "h \<in> set (take c X)" and L: "sorted_wrt (\<lambda>a b. k a \<ge> k b) L" "m \<in> set (drop n L)"
      "mset (take n L) \<subseteq># mset X" for L
  proof -
    have "filter (\<lambda>x. k x \<ge> k m) (take n L) = take n L"
      using sorted_drop_le [OF L(1) _ L(2)] by (simp add: filter_id_conv)
    moreover have "length (take n L) = n" using L(2) by (cases "n \<le> length L") auto
    ultimately have "n = size (filter_mset (\<lambda>x. k x \<ge> k m) (mset (take n L)))"
      by (metis mset_filter size_mset)
    also have "\<dots> \<le> size (filter_mset (\<lambda>x. k x \<ge> k m) (mset X))"
      by (intro size_mset_mono multiset_filter_mono L(3))
    also have "\<dots> = length (filter (\<lambda>x. k x \<ge> k m) X)" by (metis mset_filter size_mset)
    finally show ?thesis using sorted_take_ge [OF X(1) _ h] c by simp
  qed
  show "k m \<le> k h" if "m \<in> set (drop c X) \<union> set (drop n A) \<union> set (drop n B)" "h \<in> set (take c X)"
    using that sorted_drop_le [OF X(1)] big [OF that(2) A] big [OF that(2) B] by (auto simp: X(2))
qed

section \<open>Authentication\<close>

text \<open>A request whose user id and password the server accepts.\<close>

definition authentic :: "(string \<Rightarrow> u32) \<Rightarrow> 'c task \<Rightarrow> storage \<Rightarrow> db_user \<Rightarrow> bool" where
  "authentic crc task st u \<longleftrightarrow>
     u \<in> set (users st) \<and> user_id u = p_uid (t_request task) \<and>
     encrypted crc (p_password (t_request task)) = password u"

lemma lookupUserById_known:
  assumes "storage_inv st" "u \<in> set (users st)"
  shows "lookupUserById (user_id u) st = u"
  using find_Some_distinct [OF ids_ok_user_distinct [OF storage_invD(1) [OF assms(1)]] assms(2) refl]
  by (simp add: lookupUserById_def)

lemma lookupChatById_known:
  assumes "storage_inv st" "c \<in> set (chats st)"
  shows "lookupChatById (chat_id c) st = c"
  using find_Some_distinct [OF ids_ok_chat_distinct [OF storage_invD(1) [OF assms(1)]] assms(2) refl]
  by (simp add: lookupChatById_def)

lemma lookupUserByName_known:
  assumes "storage_inv st" "u \<in> set (users st)"
  shows "lookupUserByName (user_name u) st = [u]"
  using filter_eq_single [of user_name "users st" u] assms
  by (simp add: lookupUserByName_def storage_inv_def users_ok_def)

lemma authentic_check:
  assumes "storage_inv st" "authentic crc task st u"
  shows "lookup_check_pass crc InMemoryConnection task st = (u, [])" "user_id u \<noteq> 0"
  using lookupUserById_known [OF assms(1), of u] user_id_nonzero [OF storage_invD(1) [OF assms(1)], of u] assms(2)
  by (auto simp: authentic_def lookup_check_pass_def)

lemma named_check:
  assumes "storage_inv st" "u \<in> set (users st)" "user_name u = n"
  shows "lookup_check_pass_by_name crc InMemoryConnection n task False st = (u, [])"
  using lookupUserByName_known [OF assms(1,2)] assms(3) by (simp add: lookup_check_pass_by_name_def)

lemma unauthentic_run:
  assumes "storage_inv st" "needs_uid (t_cmd task)" "\<forall>u. \<not> authentic crc task st u"
  shows "process_task crc srt now InMemoryConnection task st =
    Some (st, [if \<exists>u \<in> set (users st). user_id u = p_uid (t_request task)
               then SendErrorResponse 403 ERR_CONSTRAINT ''wrong password''
               else SendErrorResponse 409 ERR_CONSTRAINT ''user does not exist''])"
proof (cases rule: lookupUserById_cases [of "p_uid (t_request task)" st])
  case none
  then have "lookup_check_pass crc InMemoryConnection task st =
      (no_user, [SendErrorResponse 409 ERR_CONSTRAINT ''user does not exist''])"
    by (simp add: lookup_check_pass_def)
  from rejected_task [OF this assms(2)] none(2) show ?thesis by auto
next
  case (some u)
  then have "lookup_check_pass crc InMemoryConnection task st =
      (no_user, [SendErrorResponse 403 ERR_CONSTRAINT ''wrong password''])"
    using assms(3) user_id_nonzero [OF storage_invD(1) [OF assms(1)] some(1)]
    by (auto simp: lookup_check_pass_def authentic_def)
  from rejected_task [OF this assms(2)] some show ?thesis by auto
qed

text \<open>
  (C20) A request for a command that needs a user id, sent with an unknown id or a wrong
  password, changes nothing and is answered with the error alone: 409 for an unknown id, 403
  for a wrong password.
\<close>

theorem unauthentic_rejected:
  assumes "storage_inv st" "needs_uid (t_cmd task)" "\<forall>u. \<not> authentic crc task st u"
  shows "process_task crc srt now InMemoryConnection task st =
    Some (st, [if \<exists>u \<in> set (users st). user_id u = p_uid (t_request task)
               then SendErrorResponse 403 ERR_CONSTRAINT ''wrong password''
               else SendErrorResponse 409 ERR_CONSTRAINT ''user does not exist''])"
  using assms by (rule unauthentic_run)

section \<open>History\<close>

text \<open>The messages two users sent each other.\<close>

definition between :: "db_user \<Rightarrow> db_user \<Rightarrow> db_message \<Rightarrow> bool" where
  "between u v m \<longleftrightarrow> user_from m = user_id u \<and> chat_to m = self_chat_id v \<or>
     user_from m = user_id v \<and> chat_to m = self_chat_id u"

lemma sorted_filter_rev:
  "sorted (map ts ms) \<Longrightarrow> newest_first (filter P (rev ms))"
  by (intro sorted_wrt_filter) (simp add: sorted_wrt_rev sorted_map)

lemma between_split:
  assumes "user_id u \<noteq> user_id v"
  shows "filter_mset (between u v) (mset ms) =
    mset (filter (\<lambda>m. user_from m = user_id v \<and> chat_to m = self_chat_id u) ms) +
    mset (filter (\<lambda>m. user_from m = user_id u \<and> chat_to m = self_chat_id v) ms)"
  using assms by (induction ms) (auto simp: between_def)

lemma limit_exact: "0 < unat n \<Longrightarrow> unat n * 2 < 2 ^ 32 \<Longrightarrow> unat (ucast (n * 2 :: u64) :: u32) = 2 * unat n"
  by (simp add: unsigned_ucast_eq unsigned_take_bit_eq take_bit_nat_eq_self unat_mult_lem [THEN iffD1])

lemma history_run:
  assumes inv: "storage_inv st" and auth: "authentic crc task st u" and cmd: "t_cmd task = USER_HISTORY"
    and v: "v \<in> set (users st)" "user_name v = p_user (t_request task)"
  shows "process_task crc srt now InMemoryConnection task st =
    Some (st, [SendMessages (to_api_format InMemoryConnection st
      (mix_from_and_to_messages srt
        (take_max (unat (ucast (p_count (t_request task) * 2) :: u32))
          (filter (\<lambda>m. user_from m = user_id v \<and> chat_to m = self_chat_id u) (rev (messages st))))
        (take_max (unat (ucast (p_count (t_request task) * 2) :: u32))
          (filter (\<lambda>m. user_from m = user_id u \<and> chat_to m = self_chat_id v) (rev (messages st))))
        (p_count (t_request task))))])"
  using authentic_check [OF inv auth] named_check [OF inv v, of crc task] user_id_nonzero [OF storage_invD(1) [OF inv] v(1)] cmd
  by (simp add: process_task_def do_user_history_def selectMessages_eq Let_def)

lemma mix_take: "mix_from_and_to_messages srt a b n = take (unat n) (srt (a @ b))"
  by (simp add: mix_from_and_to_messages_def Let_def)

text \<open>
  (C15) History: with the log in the order of time and a count from 1 to 2^31 - 1,
  USER_HISTORY returns exactly the count most recent messages the two different users sent
  each other (all of them when there are fewer), newest first, whatever order std::sort gives
  to equal times; the rest of the conversation is not newer than any message returned.
\<close>

theorem history_latest:
  assumes inv: "storage_inv st" and auth: "authentic crc task st u" and cmd: "t_cmd task = USER_HISTORY"
    and v: "v \<in> set (users st)" "user_name v = p_user (t_request task)" "user_id u \<noteq> user_id v"
    and log: "sorted (map ts (messages st))" and srt: "sorts_newest_first srt"
    and count: "0 < unat (p_count (t_request task))" "unat (p_count (t_request task)) * 2 < 2 ^ 32"
  shows "\<exists>hist rest.
    process_task crc srt now InMemoryConnection task st =
      Some (st, [SendMessages (to_api_format InMemoryConnection st hist)]) \<and>
    filter_mset (between u v) (mset (messages st)) = mset hist + rest \<and>
    length hist = min (unat (p_count (t_request task))) (size (filter_mset (between u v) (mset (messages st)))) \<and>
    newest_first hist \<and> (\<forall>m \<in># rest. \<forall>h \<in> set hist. ts m \<le> ts h)"
proof -
  let ?n = "unat (p_count (t_request task))"
  let ?A = "filter (\<lambda>m. user_from m = user_id v \<and> chat_to m = self_chat_id u) (rev (messages st))"
  let ?B = "filter (\<lambda>m. user_from m = user_id u \<and> chat_to m = self_chat_id v) (rev (messages st))"
  let ?X = "srt (take (2 * ?n) ?A @ take (2 * ?n) ?B)"
  have X: "newest_first ?X" "mset ?X = mset (take (2 * ?n) ?A @ take (2 * ?n) ?B)"
    using srt by (simp_all add: sorts_newest_first_def)
  have run: "process_task crc srt now InMemoryConnection task st =
      Some (st, [SendMessages (to_api_format InMemoryConnection st (take ?n ?X))])"
    using history_run [OF inv auth cmd v(1,2)] count
    by (simp add: limit_exact [OF count] mix_take take_max_def)
  note M = merge_top [OF sorted_filter_rev [OF log] sorted_filter_rev [OF log] X, of ?n]
  have all: "filter_mset (between u v) (mset (messages st)) = mset ?A + mset ?B"
    using between_split [OF v(3), of "rev (messages st)"] by simp
  show ?thesis
  proof (intro exI conjI)
    show "filter_mset (between u v) (mset (messages st)) = mset (take ?n ?X) +
        (mset (drop ?n ?X) + (mset (drop (2 * ?n) ?A) + mset (drop (2 * ?n) ?B)))"
      unfolding all by (rule M(2)) simp
    show "length (take ?n ?X) = min ?n (size (filter_mset (between u v) (mset (messages st))))"
      unfolding all size_union size_mset by (rule M(1)) simp
    show "newest_first (take ?n ?X)" using X(1) by (rule sorted_wrt_take)
    show "\<forall>m \<in># mset (drop ?n ?X) + (mset (drop (2 * ?n) ?A) + mset (drop (2 * ?n) ?B)).
        \<forall>h \<in> set (take ?n ?X). ts m \<le> ts h"
      using M(3) by auto
  qed (rule run)
qed

section \<open>Accounts: a refinement\<close>

text \<open>
  Seen from outside, the table of users is a map from names to encrypted passwords.
  Registration adds a name that is not there; nothing else changes the map; login asks it.
\<close>

definition accounts :: "storage \<Rightarrow> string \<rightharpoonup> string" where
  "accounts st = map_of (map (\<lambda>u. (user_name u, password u)) (users st))"

definition account_spec :: "(string \<Rightarrow> u32) \<Rightarrow> 'c task \<Rightarrow> (string \<rightharpoonup> string) \<Rightarrow> (string \<rightharpoonup> string)" where
  "account_spec crc task acc =
     (if t_cmd task = USER_CREATE \<and> p_user (t_request task) \<notin> dom acc
      then acc(p_user (t_request task) \<mapsto> encrypted crc (p_password (t_request task)))
      else acc)"

lemma dom_accounts: "dom (accounts st) = user_name ` set (users st)"
  by (simp add: accounts_def dom_map_of_conv_image_fst image_image)

lemma accounts_lookup:
  assumes "storage_inv st" "u \<in> set (users st)"
  shows "accounts st (user_name u) = Some (password u)"
proof -
  have "distinct (map fst (map (\<lambda>u. (user_name u, password u)) (users st)))"
    using assms(1) by (simp add: storage_inv_def users_ok_def comp_def)
  with assms(2) show ?thesis
    unfolding accounts_def by (intro map_of_is_SomeI) auto
qed

lemma accounts_None: "accounts st n = None \<longleftrightarrow> lookupUserByName n st = []"
proof -
  have "accounts st n = None \<longleftrightarrow> n \<notin> user_name ` set (users st)"
    using dom_accounts by (metis domIff)
  then show ?thesis by (auto simp: lookupUserByName_def filter_empty_conv)
qed

lemma accounts_same_users:
  "map (\<lambda>u. (user_name u, password u)) (users st') = map (\<lambda>u. (user_name u, password u)) (users st) \<Longrightarrow>
   accounts st' = accounts st"
  by (simp add: accounts_def)

lemma heartbit_accounts [simp]: "accounts (updateUserHeartBit u t st) = accounts st"
  by (rule accounts_same_users) (simp add: updateUserHeartBit_def set_heartbit_map)

lemma other_accounts [simp]:
  "accounts (saveMessage m st) = accounts st" "accounts (addUserToChat c u st) = accounts st"
  "accounts (snd (createChat n i st)) = accounts st"
  "accounts (snd (idle_loop InMemoryConnection t cs b st)) = accounts st"
  using idle_loop_frame [of t cs b st]
  by (simp_all add: accounts_def saveMessage_def addUserToChat_def createChat_def Let_def)

lemma map_of_snoc_fresh: "k \<notin> fst ` set xs \<Longrightarrow> map_of (xs @ [(k, v)]) = (map_of xs)(k \<mapsto> v)"
  by (induction xs) auto

lemma createUser_accounts:
  "accounts (snd (createUser n p s st)) = (if n \<in> dom (accounts st) then accounts st else (accounts st)(n \<mapsto> p))"
proof (cases rule: createUser_cases [of st n p s])
  case taken
  then show ?thesis by (auto simp: dom_accounts)
next
  case fresh
  then have "n \<notin> dom (accounts st)" by (auto simp: dom_accounts)
  moreover have "n \<notin> fst ` set (map (\<lambda>u. (user_name u, password u)) (users st))"
    using fresh(1) by auto
  ultimately show ?thesis
    unfolding fresh(2) by (simp add: accounts_def map_of_snoc_fresh del: map_of_append)
qed

text \<open>
  (C21) Seen as a map from names to encrypted passwords, the table of users changes by
  registration of a new name and by nothing else, for every task.
\<close>

theorem accounts_refined:
  assumes "process_task crc srt now InMemoryConnection task st = Some (st', acts)"
  shows "accounts st' = account_spec crc task (accounts st)"
proof (cases "t_cmd task")
  case IDLE
  have "accounts st2 = accounts st"
    if "idle_loop InMemoryConnection t cs b (updateUserHeartBit u now st) = (batch, st2)" for t cs b u batch st2
    using other_accounts(4) [of t cs b "updateUserHeartBit u now st"] that by simp
  with assms IDLE show ?thesis
    by (auto simp: process_task_def do_idle_def account_spec_def Let_def split: prod.splits if_splits)
next
  case USER_CREATE
  with assms createUser_accounts [of "p_user (t_request task)" "encrypted crc (p_password (t_request task))"
    "t_storage task" st] show ?thesis
    by (auto simp: process_task_def do_user_create_def ok_body_user_text account_spec_def
        split: prod.splits if_splits)
next
  case CHAT_CREATE
  have "accounts st2 = accounts st" if "createChat n i st = (c, st2)" for n i c st2
    using other_accounts(3) [of n i st] that by simp
  with assms CHAT_CREATE show ?thesis
    by (auto simp: process_task_def do_chat_create_def ok_body_chat_text account_spec_def
        split: prod.splits if_splits)
qed (use assms in \<open>auto simp: process_task_def task_defs ok_body_user_text ok_body_chat_text Let_def account_spec_def
  split: prod.splits if_splits list.splits\<close>)

text \<open>
  (C22) Login is a lookup in the map of accounts: 404 for a name that is not there, 403 for
  another password, and otherwise the record of the user of that name; the storage is
  unchanged.
\<close>

theorem login_refined:
  assumes inv: "storage_inv st" and cmd: "t_cmd task = USER_LOGIN"
  shows "\<exists>u b. ok_body_user now u = Some b \<and>
    process_task crc srt now InMemoryConnection task st = Some (st,
      [case accounts st (p_user (t_request task)) of
         None \<Rightarrow> SendErrorResponse 404 ERR_NOT_FOUND ''user does not exist''
       | Some pw \<Rightarrow>
           if encrypted crc (p_password (t_request task)) = pw then SendOkResponse b
           else SendErrorResponse 403 ERR_CONSTRAINT ''wrong password'']) \<and>
    (accounts st (p_user (t_request task)) \<noteq> None \<longrightarrow>
       u \<in> set (users st) \<and> user_name u = p_user (t_request task))"
proof (cases "accounts st (p_user (t_request task))")
  case None
  then have "lookupUserByName (p_user (t_request task)) st = []" by (simp add: accounts_None)
  with None cmd show ?thesis
    by (simp add: process_task_def do_user_login_def lookup_check_pass_by_name_def ok_body_user_text)
next
  case (Some pw)
  then have "p_user (t_request task) \<in> dom (accounts st)" by blast
  then obtain u where u: "u \<in> set (users st)" "user_name u = p_user (t_request task)"
    by (auto simp: dom_accounts)
  with Some accounts_lookup [OF inv u(1)] have "pw = password u" by simp
  moreover have "user_id u \<noteq> 0" by (rule user_id_nonzero [OF storage_invD(1) [OF inv] u(1)])
  ultimately show ?thesis
    using Some cmd u lookupUserByName_known [OF inv u(1)]
    by (intro exI [of _ u])
      (auto simp: process_task_def do_user_login_def lookup_check_pass_by_name_def ok_body_user_text)
qed

text \<open>
  Registration of a new name adds one user, its own chat of the same name and its
  membership, and answers with the record of the user; a name that is taken is answered with
  409 and changes nothing.
\<close>

theorem register_answer:
  assumes inv: "storage_inv st" and room: "has_room st" and cmd: "t_cmd task = USER_CREATE"
  shows "if p_user (t_request task) \<in> dom (accounts st)
    then process_task crc srt now InMemoryConnection task st =
      Some (st, [SendErrorResponse 409 ERR_CONSTRAINT ''user already exists''])
    else \<exists>u b st'. ok_body_user now u = Some b \<and>
      process_task crc srt now InMemoryConnection task st = Some (st', [SendOkResponse b]) \<and>
      users st' = users st @ [u] \<and> user_name u = p_user (t_request task) \<and>
      chats st' = chats st @ [mk_chat (self_chat_id u) (user_name u)] \<and>
      chatuser st' = chatuser st @ [mk_chatuser (self_chat_id u) (user_id u)] \<and>
      messages st' = messages st"
proof (cases rule: createUser_cases [of st "p_user (t_request task)" "encrypted crc (p_password (t_request task))"
    "t_storage task"])
  case taken
  then have "p_user (t_request task) \<in> dom (accounts st)" by (metis dom_accounts imageI)
  with taken cmd show ?thesis by (simp add: process_task_def do_user_create_def)
next
  case fresh
  then have "p_user (t_request task) \<notin> dom (accounts st)" by (auto simp: dom_accounts)
  moreover have "user_autoincrement st \<noteq> 0"
    using storage_invD(1) [OF inv] by (auto simp: ids_ok_def)
  ultimately show ?thesis
    using fresh(2) cmd by (simp add: process_task_def do_user_create_def ok_body_user_text)
qed

section \<open>The message log: a refinement\<close>

text \<open>The log seen as a list of entries, without the read flags.\<close>

definition log_entry :: "db_message \<Rightarrow> u64 \<times> u64 \<times> u64 \<times> string" where
  "log_entry m = (user_from m, chat_to m, ts m, message m)"

definition sent_entries ::
  "(string \<Rightarrow> u32) \<Rightarrow> u64 \<Rightarrow> 'c task \<Rightarrow> storage \<Rightarrow> (u64 \<times> u64 \<times> u64 \<times> string) list" where
  "sent_entries crc now task st =
     (if (\<exists>u \<in> set (users st). authentic crc task st u) then
        map (\<lambda>chat. (p_uid (t_request task), chat, now, p_message (t_request task)))
          (if t_cmd task = MESSAGE_SEND then
             map self_chat_id (lookupUserByName (p_to_user (t_request task)) st)
           else if t_cmd task = MESSAGE_SEND_CHAT \<and>
               length (lookupChatByName (p_chat_name (t_request task)) st) = 1 then
             map chat_id (lookupChatByName (p_chat_name (t_request task)) st)
           else [])
      else [])"

lemma log_entry_unflag: "map log_entry ms = map log_entry (map unflag ms)"
  by (simp add: log_entry_def unflag_def)

lemma idle_loop_log:
  "map unflag (messages (snd (idle_loop InMemoryConnection t cs batch st))) = map unflag (messages st)"
proof (induction cs arbitrary: batch st)
  case (Cons chat cs)
  show ?case
    using Cons.IH getMessages_unflag [of "chat_id chat" "default_opt\<lparr>opt_ts := t\<rparr>" st]
    by (cases "getMessages (chat_id chat) (default_opt\<lparr>opt_ts := t\<rparr>) st") simp
qed simp

lemma create_log [simp]:
  "messages (snd (createUser n p s st)) = messages st" "messages (snd (createChat n i st)) = messages st"
  "messages (updateUserHeartBit u t st) = messages st" "messages (addUserToChat c v st) = messages st"
  by (simp_all add: createUser_def createChat_def updateUserHeartBit_def addUserToChat_def Let_def)

lemma authentic_dest: "authentic crc task st u \<Longrightarrow> \<exists>u \<in> set (users st). authentic crc task st u"
  by (auto simp: authentic_def)

lemma checked_authentic:
  assumes "lookup_check_pass crc InMemoryConnection task st = (u, acts)" "user_id u \<noteq> 0"
  shows "authentic crc task st u"
proof (cases rule: lookupUserById_cases [of "p_uid (t_request task)" st])
  case none
  with assms show ?thesis by (auto simp: lookup_check_pass_def)
next
  case (some v)
  with assms show ?thesis by (auto simp: lookup_check_pass_def authentic_def Let_def split: if_splits)
qed

lemma rejected_not_authentic:
  assumes "storage_inv st" "lookup_check_pass crc InMemoryConnection task st = (u, acts)" "user_id u = 0"
  shows "\<not> authentic crc task st v"
  using authentic_check [OF assms(1), of crc task v] assms(2,3) by auto

text \<open>
  (C23) Seen as a list of entries (sender, chat, time, text), the message log is append-only:
  a task appends the one entry that an authenticated send to an existing user or a uniquely
  named chat calls for, and every other task leaves it as it is.
\<close>

theorem log_refined:
  assumes inv: "storage_inv st" and run: "process_task crc srt now InMemoryConnection task st = Some (st', acts)"
  shows "map log_entry (messages st') = map log_entry (messages st) @ sent_entries crc now task st"
proof (cases "t_cmd task")
  case IDLE
  have "map log_entry (messages st2) = map log_entry (messages st)"
    if "idle_loop InMemoryConnection t cs b (updateUserHeartBit u now st) = (batch, st2)" for t cs b u batch st2
    using idle_loop_log [of t cs b "updateUserHeartBit u now st"] that by (metis log_entry_unflag snd_conv create_log(3))
  with run IDLE show ?thesis
    by (auto simp: process_task_def do_idle_def sent_entries_def Let_def split: prod.splits if_splits)
next
  case USER_CREATE
  have "messages st2 = messages st" if "createUser n p s st = (u, st2)" for n p s u st2
    using create_log(1) [of n p s st] that by simp
  with run USER_CREATE show ?thesis
    by (auto simp: process_task_def do_user_create_def ok_body_user_text sent_entries_def split: prod.splits if_splits)
next
  case CHAT_CREATE
  have "messages st2 = messages st" if "createChat n i st = (c, st2)" for n i c st2
    using create_log(2) [of n i st] that by simp
  with run CHAT_CREATE show ?thesis
    by (auto simp: process_task_def do_chat_create_def ok_body_chat_text sent_entries_def split: prod.splits if_splits)
next
  case MESSAGE_SEND
  obtain u as where chk: "lookup_check_pass crc InMemoryConnection task st = (u, as)"
    by (cases "lookup_check_pass crc InMemoryConnection task st")
  show ?thesis
  proof (cases "user_id u = 0")
    case True
    with run MESSAGE_SEND chk rejected_not_authentic [OF inv chk] show ?thesis
      by (auto simp: process_task_def do_message_send_def sent_entries_def)
  next
    case False
    have "\<exists>u \<in> set (users st). authentic crc task st u" "user_id u = p_uid (t_request task)"
      using checked_authentic [OF chk False] authentic_dest by (auto simp: authentic_def)
    with run MESSAGE_SEND chk False show ?thesis
      by (rule_tac mem.by_name_cases [OF inv, of "p_to_user (t_request task)"])
        (auto simp: process_task_def do_message_send_def sent_entries_def saveMessage_def mk_message_def log_entry_def)
  qed
next
  case MESSAGE_SEND_CHAT
  obtain u as where chk: "lookup_check_pass crc InMemoryConnection task st = (u, as)"
    by (cases "lookup_check_pass crc InMemoryConnection task st")
  show ?thesis
  proof (cases "user_id u = 0")
    case True
    with run MESSAGE_SEND_CHAT chk rejected_not_authentic [OF inv chk] show ?thesis
      by (auto simp: process_task_def do_message_send_chat_def sent_entries_def)
  next
    case False
    have "\<exists>u \<in> set (users st). authentic crc task st u" "user_id u = p_uid (t_request task)"
      using checked_authentic [OF chk False] authentic_dest by (auto simp: authentic_def)
    with run MESSAGE_SEND_CHAT chk False show ?thesis
      by (auto simp: process_task_def do_message_send_chat_def sent_entries_def saveMessage_def mk_message_def
          log_entry_def split: list.splits)
  qed
qed (use run in \<open>auto simp: process_task_def task_defs ok_body_user_text ok_body_chat_text Let_def sent_entries_def
  split: prod.splits if_splits list.splits\<close>)

section \<open>The long poll\<close>

text \<open>The messages of a chat newer than \<open>t\<close>, newest first, at most the default limit of three.\<close>

definition unseen :: "u64 \<Rightarrow> storage \<Rightarrow> db_chat \<Rightarrow> db_message list" where
  "unseen t st chat =
     take 3 (filter (wanted (chat_id chat) (default_opt\<lparr>opt_ts := t\<rparr>)) (rev (messages st)))"

lemma getMessages_unseen:
  "fst (getMessages (chat_id chat) (default_opt\<lparr>opt_ts := t\<rparr>) st) = unseen t st chat"
  by (simp add: getMessages_fst unseen_def take_max_def default_opt_def)

lemma filter_wanted_unflag:
  "map unflag (filter (wanted c opt) ms) = filter (wanted c opt) (map unflag ms)"
  by (induction ms) (auto simp: wanted_def unflag_def)

lemma unseen_unflag:
  assumes "map unflag (messages st') = map unflag (messages st)"
  shows "map unflag (unseen t st' chat) = map unflag (unseen t st chat)"
proof -
  have "map unflag (rev (messages st')) = map unflag (rev (messages st))"
    using assms by (simp add: rev_map [symmetric])
  then show ?thesis by (simp add: unseen_def take_map [symmetric] filter_wanted_unflag)
qed

lemma idle_loop_batch:
  "map (map unflag) (fst (idle_loop InMemoryConnection t cs batch st)) =
     map (map unflag) batch @ filter (\<lambda>l. l \<noteq> []) (map (\<lambda>c. map unflag (unseen t st c)) cs)"
proof (induction cs arbitrary: batch st)
  case (Cons chat cs)
  obtain msgs st1 where g: "getMessages (chat_id chat) (default_opt\<lparr>opt_ts := t\<rparr>) st = (msgs, st1)"
    by fastforce
  with getMessages_unseen [of chat t st] have m: "msgs = unseen t st chat" by simp
  have "map unflag (messages st1) = map unflag (messages st)"
    using getMessages_unflag [of "chat_id chat" "default_opt\<lparr>opt_ts := t\<rparr>" st] g by simp
  from unseen_unflag [OF this] have "map unflag (unseen t st1 c) = map unflag (unseen t st c)" for c .
  with g m Cons.IH [of "if msgs \<noteq> [] then batch @ [msgs] else batch" st1] show ?case
    by auto
qed simp

lemma find_set_heartbit:
  assumes "\<And>u t. g (u\<lparr>heartbit := t\<rparr>) = g u"
  shows "map_option g (List.find (\<lambda>u. user_id u = i) (set_heartbit j t us)) =
    map_option g (List.find (\<lambda>u. user_id u = i) us)"
  by (induction us) (simp_all add: assms)

lemma lookup_name_heartbit:
  "user_name (lookupUserById i (updateUserHeartBit u t st)) = user_name (lookupUserById i st)"
proof -
  have "map_option user_name (List.find (\<lambda>u. user_id u = i) (set_heartbit (user_id u) t (users st))) =
      map_option user_name (List.find (\<lambda>u. user_id u = i) (users st))"
    by (rule find_set_heartbit) simp
  then show ?thesis
    by (auto simp: lookupUserById_def updateUserHeartBit_def split: option.splits)
qed

lemma to_api_message_cong:
  assumes "users st' = users (updateUserHeartBit u t st)" "chats st' = chats st" "unflag m' = unflag m"
  shows "to_api_message InMemoryConnection st' m' = to_api_message InMemoryConnection st m"
proof -
  have m: "ts m' = ts m" "user_from m' = user_from m" "chat_to m' = chat_to m" "message m' = message m"
    using assms(3) by (cases m; cases m'; simp add: unflag_def)+
  have "lookupUserById (user_from m) st' = lookupUserById (user_from m) (updateUserHeartBit u t st)"
    by (simp add: lookupUserById_def assms(1))
  with lookup_name_heartbit [of "user_from m" u t st] show ?thesis
    by (simp add: to_api_message_def m lookupChatById_def assms(2))
qed

text \<open>The answer to a poll.\<close>

definition poll_answer :: "bool \<Rightarrow> api_message list \<Rightarrow> action list" where
  "poll_answer ping msgs =
     (if msgs \<noteq> [] then [SendMessagesToIdleConn msgs] else if ping then [SendMessagesToIdleConn []] else [])"

lemma map_eq_cong:
  assumes "map f xs = map f ys" and cong: "\<And>x y. f x = f y \<Longrightarrow> g x = h y"
  shows "map g xs = map h ys"
  using assms(1)
proof (induction xs arbitrary: ys)
  case (Cons x xs)
  then obtain y ys' where ys: "ys = y # ys'" "f x = f y" "map f xs = map f ys'" by (cases ys) auto
  from cong [OF ys(2)] Cons.IH [OF ys(3)] show ?case by (simp only: ys list.map)
qed simp

lemma concat_filter_ne: "concat (filter (\<lambda>l. l \<noteq> []) ls) = concat ls"
  by (induction ls) auto

lemma poll_run:
  assumes inv: "storage_inv st" and auth: "authentic crc task st u" and cmd: "t_cmd task = IDLE"
  shows "\<exists>st'. process_task crc srt now InMemoryConnection task st =
      Some (st', poll_answer (t_ping task)
        (concat (map (\<lambda>c. to_api_format InMemoryConnection st (unseen (p_ts (t_request task)) st c))
          (lookupChatsForUserId (user_id u) st)))) \<and>
    users st' = set_heartbit (user_id u) now (users st) \<and>
    chats st' = chats st \<and> chatuser st' = chatuser st \<and>
    map unflag (messages st') = map unflag (messages st)"
proof -
  let ?st1 = "updateUserHeartBit u now st" and ?t = "p_ts (t_request task)"
  let ?cs = "lookupChatsForUserId (user_id u) st"
  have cs: "lookupChatsForUserId (user_id u) ?st1 = ?cs"
    by (simp add: lookupChatsForUserId_def lookupChatById_def updateUserHeartBit_def)
  obtain batch st2 where loop: "idle_loop InMemoryConnection ?t ?cs [] ?st1 = (batch, st2)"
    by fastforce
  have frame: "users st2 = users ?st1" "chats st2 = chats st" "chatuser st2 = chatuser st"
    using idle_loop_frame [of ?t ?cs "[]" ?st1] loop by (simp_all add: updateUserHeartBit_def)
  have log: "map unflag (messages st2) = map unflag (messages st)"
    using idle_loop_log [of ?t ?cs "[]" ?st1] loop by simp
  have unseen1: "unseen ?t ?st1 c = unseen ?t st c" for c by (simp add: unseen_def)
  have batch: "map (map unflag) batch = filter (\<lambda>l. l \<noteq> []) (map (\<lambda>c. map unflag (unseen ?t st c)) ?cs)"
    using idle_loop_batch [of ?t ?cs "[]" ?st1] loop by (simp add: unseen1)
  have "map unflag (concat batch) = map unflag (concat (map (unseen ?t st) ?cs))"
    using arg_cong [OF batch, of concat] by (simp add: concat_filter_ne map_concat comp_def)
  then have "map (to_api_message InMemoryConnection st2) (concat batch) =
      map (to_api_message InMemoryConnection st) (concat (map (unseen ?t st) ?cs))"
    by (rule map_eq_cong) (rule to_api_message_cong [OF frame(1,2)])
  then have conv: "to_api_format_batch InMemoryConnection st2 batch =
      concat (map (\<lambda>c. to_api_format InMemoryConnection st (unseen ?t st c)) ?cs)"
    by (simp add: to_api_format_batch_def to_api_format_def map_concat comp_def)
  have "[] \<notin> set (map (map unflag) batch)" unfolding batch by simp
  then have "to_api_format_batch InMemoryConnection st2 batch = [] \<longleftrightarrow> batch = []"
    by (cases batch) (auto simp: to_api_format_batch_def)
  with authentic_check [OF inv auth] cmd loop cs
  have "process_task crc srt now InMemoryConnection task st =
      Some (st2, poll_answer (t_ping task) (to_api_format_batch InMemoryConnection st2 batch))"
    by (simp add: process_task_def do_idle_def poll_answer_def)
  with frame log show ?thesis
    unfolding conv by (auto simp: updateUserHeartBit_def)
qed

lemma chats_of_user:
  assumes "storage_inv st" "c \<in> set (lookupChatsForUserId i st)"
  shows "c \<in> set (chats st) \<and> mk_chatuser (chat_id c) i \<in> set (chatuser st)"
proof -
  obtain cu where cu: "cu \<in> set (chatuser st)" "cu_uid cu = i" "c = lookupChatById (cu_chatid cu) st"
    using assms(2) by (auto simp: lookupChatsForUserId_def)
  then obtain c' where c': "c' \<in> set (chats st)" "chat_id c' = cu_chatid cu"
    using storage_invD(3) [OF assms(1)] by (fastforce simp: members_ok_def)
  with lookupChatById_known [OF assms(1) c'(1)] cu have "c = c'" by simp
  moreover have "cu = mk_chatuser (cu_chatid cu) i" using cu(2) by (cases cu) (simp add: mk_chatuser_def)
  ultimately show ?thesis using c' cu(1) by simp
qed

lemma self_chat_listed:
  assumes "storage_inv st" "v \<in> set (users st)"
  shows "mk_chat (self_chat_id v) (user_name v) \<in> set (lookupChatsForUserId (user_id v) st)"
proof -
  have row: "mk_chat (self_chat_id v) (user_name v) \<in> set (chats st)"
    "mk_chatuser (self_chat_id v) (user_id v) \<in> set (chatuser st)"
    using storage_invD(2) [OF assms(1)] assms(2) by (auto simp: users_ok_def)
  from lookupChatById_known [OF assms(1) row(1)] row(2) show ?thesis
    by (force simp: lookupChatsForUserId_def image_iff)
qed

text \<open>
  (C24) A long poll discloses only stored messages of chats of which the polling user is a
  member, newer than the time asked for.
\<close>

theorem poll_private:
  assumes inv: "storage_inv st" and auth: "authentic crc task st u" and cmd: "t_cmd task = IDLE"
    and run: "process_task crc srt now InMemoryConnection task st = Some (st', acts)"
    and sent: "SendMessagesToIdleConn msgs \<in> set acts" "a \<in> set msgs"
  shows "\<exists>m \<in> set (messages st). mk_chatuser (chat_to m) (user_id u) \<in> set (chatuser st) \<and>
    ts m > p_ts (t_request task) \<and> a = to_api_message InMemoryConnection st m"
proof -
  let ?new = "concat (map (\<lambda>c. to_api_format InMemoryConnection st (unseen (p_ts (t_request task)) st c))
    (lookupChatsForUserId (user_id u) st))"
  have "acts = poll_answer (t_ping task) ?new"
    using poll_run [OF inv auth cmd, of srt now] run by auto
  with sent have "a \<in> set ?new" by (auto simp: poll_answer_def split: if_splits)
  then obtain c m where c: "c \<in> set (lookupChatsForUserId (user_id u) st)"
    "m \<in> set (unseen (p_ts (t_request task)) st c)" "a = to_api_message InMemoryConnection st m"
    by (auto simp: to_api_format_def)
  from c(2) have "m \<in> set (messages st)" "chat_to m = chat_id c" "ts m > p_ts (t_request task)"
    by (auto simp: unseen_def wanted_def default_opt_def dest: in_set_takeD)
  with chats_of_user [OF inv c(1)] c(3) show ?thesis
    by (intro bexI [of _ m]) simp_all
qed

section \<open>Sending\<close>

lemma send_run:
  assumes inv: "storage_inv st" and auth: "authentic crc task st u" and cmd: "t_cmd task = MESSAGE_SEND"
    and v: "v \<in> set (users st)" "user_name v = p_to_user (t_request task)"
  shows "process_task crc srt now InMemoryConnection task st =
    Some (saveMessage \<lparr>flags = UNREAD, user_from = user_id u, chat_to = self_chat_id v, ts = now,
      message = p_message (t_request task)\<rparr> st, [SendOkResponse status_ok])"
  using authentic_check [OF inv auth] lookupUserByName_known [OF inv v(1)] v(2) cmd
  by (simp add: process_task_def do_message_send_def mk_message_def)

lemma saved_inv:
  assumes "storage_inv st" "u \<in> set (users st)" "v \<in> set (users st)"
    "user_from m = user_id u" "chat_to m = self_chat_id v"
  shows "storage_inv (saveMessage m st)"
  using assms users_self_chat [OF storage_invD(2) [OF assms(1)] assms(3)]
  by (intro saveMessage_inv) auto

lemma send_poll_run:
  assumes inv: "storage_inv st"
    and send: "authentic crc t1 st u" "t_cmd t1 = MESSAGE_SEND"
    and v: "v \<in> set (users st)" "user_name v = p_to_user (t_request t1)"
    and poll: "authentic crc t2 st v" "t_cmd t2 = IDLE" "p_ts (t_request t2) < now"
  shows "\<exists>st1 st2 msgs.
    process_task crc srt now InMemoryConnection t1 st = Some (st1, [SendOkResponse status_ok]) \<and>
    process_task crc srt later InMemoryConnection t2 st1 = Some (st2, [SendMessagesToIdleConn msgs]) \<and>
    \<lparr>am_ts = now, am_from = user_name u, am_to = user_name v, am_msg = p_message (t_request t1)\<rparr> \<in> set msgs"
proof -
  let ?m = "\<lparr>flags = UNREAD, user_from = user_id u, chat_to = self_chat_id v, ts = now,
    message = p_message (t_request t1)\<rparr>"
  let ?st1 = "saveMessage ?m st" and ?c = "mk_chat (self_chat_id v) (user_name v)"
  have u: "u \<in> set (users st)" using send(1) by (simp add: authentic_def)
  have inv1: "storage_inv ?st1" by (rule saved_inv [OF inv u v(1)]) simp_all
  have rows: "users ?st1 = users st" "chats ?st1 = chats st" "messages ?st1 = messages st @ [?m]"
    by (simp_all add: saveMessage_def)
  have auth1: "authentic crc t2 ?st1 v" using poll(1) by (simp add: authentic_def saveMessage_def)
  have "?m \<in> set (unseen (p_ts (t_request t2)) ?st1 ?c)"
    using poll(3) by (simp add: unseen_def rows wanted_def default_opt_def)
  moreover have c: "?c \<in> set (lookupChatsForUserId (user_id v) ?st1)"
    by (rule self_chat_listed [OF inv1]) (simp add: rows v)
  ultimately have new: "to_api_message InMemoryConnection ?st1 ?m \<in>
      set (concat (map (\<lambda>c. to_api_format InMemoryConnection ?st1 (unseen (p_ts (t_request t2)) ?st1 c))
        (lookupChatsForUserId (user_id v) ?st1)))" (is "_ \<in> set ?new")
    by (auto simp: to_api_format_def intro!: bexI [OF _ c])
  have "lookupUserById (user_id u) ?st1 = u"
    by (rule lookupUserById_known [OF inv1]) (simp add: rows u)
  moreover have "lookupChatById (self_chat_id v) ?st1 = ?c"
    using lookupChatById_known [OF inv1, of ?c] chats_of_user [OF inv1 c] by simp
  ultimately have "to_api_message InMemoryConnection ?st1 ?m =
      \<lparr>am_ts = now, am_from = user_name u, am_to = user_name v, am_msg = p_message (t_request t1)\<rparr>"
    by (simp add: to_api_message_def)
  with new have "\<lparr>am_ts = now, am_from = user_name u, am_to = user_name v,
      am_msg = p_message (t_request t1)\<rparr> \<in> set ?new" by (simp only:)
  moreover have "poll_answer (t_ping t2) ?new = [SendMessagesToIdleConn ?new]"
    using list.set_sel(1) new unfolding poll_answer_def by (metis empty_iff list.set(1))
  ultimately show ?thesis
    using send_run [OF inv send v, of srt now] poll_run [OF inv1 auth1 poll(2), of srt later] by auto
qed

text \<open>
  Delivery: a message that an authenticated user sends to another user at time now is in
  the answer to the next long poll of the receiver that asks for messages newer than an
  earlier time, with the name of the sender, the name of the receiver and the text.
\<close>

theorem send_then_poll:
  assumes inv: "storage_inv st"
    and send: "authentic crc t1 st u" "t_cmd t1 = MESSAGE_SEND"
    and v: "v \<in> set (users st)" "user_name v = p_to_user (t_request t1)"
    and poll: "authentic crc t2 st v" "t_cmd t2 = IDLE" "p_ts (t_request t2) < now"
  shows "\<exists>st1 st2 msgs.
    process_task crc srt now InMemoryConnection t1 st = Some (st1, [SendOkResponse status_ok]) \<and>
    process_task crc srt later InMemoryConnection t2 st1 = Some (st2, [SendMessagesToIdleConn msgs]) \<and>
    \<lparr>am_ts = now, am_from = user_name u, am_to = user_name v, am_msg = p_message (t_request t1)\<rparr> \<in> set msgs"
  using assms by (rule send_poll_run)

section \<open>Group chats\<close>

lemma named_chat:
  assumes "lookupChatByName n st = [c]"
  shows "c \<in> set (chats st)" "chat_name c = n"
proof -
  have "c \<in> set (lookupChatByName n st)" using assms by simp
  then show "c \<in> set (chats st)" "chat_name c = n" by (auto simp: lookupChatByName_def)
qed

text \<open>
  CHAT_CREATE with a new name adds one chat that the lookup by name then finds alone,
  with the requester as its member; a name that is taken is answered with 409 and changes
  nothing.
\<close>

theorem chat_create_answer:
  assumes inv: "storage_inv st" and auth: "authentic crc task st u" and cmd: "t_cmd task = CHAT_CREATE"
  shows "if \<exists>c \<in> set (chats st). chat_name c = p_chat_name (t_request task)
    then process_task crc srt now InMemoryConnection task st =
      Some (st, [SendErrorResponse 409 ERR_CONSTRAINT ''chat already exists''])
    else \<exists>c b st'. ok_body_chat now c = Some b \<and>
      process_task crc srt now InMemoryConnection task st = Some (st', [SendOkResponse b]) \<and>
      chat_name c = p_chat_name (t_request task) \<and> lookupChatByName (chat_name c) st' = [c] \<and>
      chats st' = chats st @ [c] \<and> chatuser st' = chatuser st @ [mk_chatuser (chat_id c) (user_id u)] \<and>
      users st' = users st \<and> messages st' = messages st"
proof (cases rule: createChat_cases [of st "p_chat_name (t_request task)" "p_uid (t_request task)"])
  case taken
  with authentic_check [OF inv auth] cmd show ?thesis
    by (simp add: process_task_def do_chat_create_def)
next
  case fresh
  have "chat_autoincrement st \<noteq> 0" using storage_invD(1) [OF inv] by (auto simp: ids_ok_def)
  moreover have "filter (\<lambda>c. chat_name c = p_chat_name (t_request task)) (chats st) = []"
    using fresh(1) by (simp add: filter_empty_conv)
  moreover have "user_id u = p_uid (t_request task)" using auth by (simp add: authentic_def)
  ultimately show ?thesis
    using authentic_check [OF inv auth] fresh cmd
    by (simp add: process_task_def do_chat_create_def ok_body_chat_text lookupChatByName_def word_gt_0)
qed

lemma adduser_run:
  assumes inv: "storage_inv st" and auth: "authentic crc task st u" and cmd: "t_cmd task = CHAT_ADDUSER"
    and v: "v \<in> set (users st)" "user_name v = p_chat_adduser (t_request task)"
  shows "process_task crc srt now InMemoryConnection task st =
    (case lookupChatByName (p_chat_name (t_request task)) st of
       [c] \<Rightarrow> Some (addUserToChat c v st, [SendOkResponse status_ok])
     | _ \<Rightarrow> Some (st, [SendErrorResponse 404 ERR_NOT_FOUND ''chat does not exist'']))"
  using authentic_check [OF inv auth] named_check [OF inv v, of crc task]
    user_id_nonzero [OF storage_invD(1) [OF inv] v(1)] cmd
  by (simp add: process_task_def do_chat_adduser_def ok_body_chat_text split: list.splits)

lemma addUserToChat_member:
  "mk_chatuser (chat_id c) (user_id v) \<in> set (chatuser (addUserToChat c v st))"
  "set (chatuser (addUserToChat c v st)) = insert (mk_chatuser (chat_id c) (user_id v)) (set (chatuser st))"
proof -
  have row: "cu = mk_chatuser (chat_id c) (user_id v)" if "cu_chatid cu = chat_id c \<and> cu_uid cu = user_id v" for cu
    using that by (cases cu) (simp add: mk_chatuser_def)
  show "mk_chatuser (chat_id c) (user_id v) \<in> set (chatuser (addUserToChat c v st))"
  proof (cases "\<exists>cu \<in> set (chatuser st). cu_chatid cu = chat_id c \<and> cu_uid cu = user_id v")
    case True
    then obtain cu where cu: "cu \<in> set (chatuser st)" "cu_chatid cu = chat_id c \<and> cu_uid cu = user_id v"
      by blast
    have "mk_chatuser (chat_id c) (user_id v) \<in> set (chatuser st)"
      using cu(1) unfolding row [OF cu(2)] .
    with True show ?thesis by (simp add: addUserToChat_def)
  next
    case False
    then show ?thesis by (auto simp: addUserToChat_def)
  qed
  then show "set (chatuser (addUserToChat c v st)) = insert (mk_chatuser (chat_id c) (user_id v)) (set (chatuser st))"
    by (auto simp: addUserToChat_def split: if_splits)
qed

text \<open>
  (C30) CHAT_ADDUSER adds the named user to the uniquely named chat and changes nothing else;
  the requester needs no membership of that chat, so also the private chat of another user can
  be joined.
\<close>

theorem adduser_any_chat:
  assumes inv: "storage_inv st" and auth: "authentic crc task st u" and cmd: "t_cmd task = CHAT_ADDUSER"
    and v: "v \<in> set (users st)" "user_name v = p_chat_adduser (t_request task)"
    and c: "lookupChatByName (p_chat_name (t_request task)) st = [c]"
  shows "\<exists>st'. process_task crc srt now InMemoryConnection task st = Some (st', [SendOkResponse status_ok]) \<and>
    set (chatuser st') = insert (mk_chatuser (chat_id c) (user_id v)) (set (chatuser st)) \<and>
    users st' = users st \<and> chats st' = chats st \<and> messages st' = messages st"
  using adduser_run [OF inv auth cmd v, of srt now] c addUserToChat_member(2) [of c v st]
  by (simp add: addUserToChat_def)

lemma sendchat_run:
  assumes inv: "storage_inv st" and auth: "authentic crc task st u" and cmd: "t_cmd task = MESSAGE_SEND_CHAT"
  shows "process_task crc srt now InMemoryConnection task st =
    (case lookupChatByName (p_chat_name (t_request task)) st of
       [c] \<Rightarrow> Some (saveMessage \<lparr>flags = UNREAD, user_from = user_id u, chat_to = chat_id c, ts = now,
            message = p_message (t_request task)\<rparr> st, [SendOkResponse status_ok])
     | _ \<Rightarrow> Some (st, [SendErrorResponse 404 ERR_NOT_FOUND ''chat does not exist'']))"
  using authentic_check [OF inv auth] cmd
  by (simp add: process_task_def do_message_send_chat_def mk_message_def split: list.splits)

text \<open>
  (C25) A message to a group reaches every member who polls for messages older than it: after
  an authenticated send at some time to a uniquely named chat, the next long poll of a member
  returns the message with the name of the group, provided the poll asks for messages newer
  than a time strictly before the time of the sending; a member who has already got a message
  of the same second or a later one asks for newer ones, and the theorem promises nothing to
  him.
\<close>

theorem sendchat_then_poll:
  assumes inv: "storage_inv st"
    and send: "authentic crc t1 st u" "t_cmd t1 = MESSAGE_SEND_CHAT"
    and c: "lookupChatByName (p_chat_name (t_request t1)) st = [c]"
      "mk_chatuser (chat_id c) (user_id v) \<in> set (chatuser st)"
    and poll: "authentic crc t2 st v" "t_cmd t2 = IDLE" "p_ts (t_request t2) < now"
  shows "\<exists>st1 st2 msgs.
    process_task crc srt now InMemoryConnection t1 st = Some (st1, [SendOkResponse status_ok]) \<and>
    process_task crc srt later InMemoryConnection t2 st1 = Some (st2, [SendMessagesToIdleConn msgs]) \<and>
    \<lparr>am_ts = now, am_from = user_name u, am_to = chat_name c, am_msg = p_message (t_request t1)\<rparr> \<in> set msgs"
proof -
  let ?m = "\<lparr>flags = UNREAD, user_from = user_id u, chat_to = chat_id c, ts = now,
    message = p_message (t_request t1)\<rparr>"
  let ?st1 = "saveMessage ?m st"
  have u: "u \<in> set (users st)" using send(1) by (simp add: authentic_def)
  have inv1: "storage_inv ?st1" by (rule saveMessage_inv [OF inv]) (use u named_chat [OF c(1)] in auto)
  have rows: "users ?st1 = users st" "chats ?st1 = chats st" "messages ?st1 = messages st @ [?m]"
    "chatuser ?st1 = chatuser st"
    by (simp_all add: saveMessage_def)
  have auth1: "authentic crc t2 ?st1 v" using poll(1) by (simp add: authentic_def saveMessage_def)
  have cl: "lookupChatById (chat_id c) ?st1 = c"
    by (rule lookupChatById_known [OF inv1]) (simp add: rows named_chat [OF c(1)])
  then have cs: "c \<in> set (lookupChatsForUserId (user_id v) ?st1)"
    using c(2) by (force simp: lookupChatsForUserId_def rows image_iff)
  have "?m \<in> set (unseen (p_ts (t_request t2)) ?st1 c)"
    using poll(3) by (simp add: unseen_def rows wanted_def default_opt_def)
  then have new: "to_api_message InMemoryConnection ?st1 ?m \<in>
      set (concat (map (\<lambda>c. to_api_format InMemoryConnection ?st1 (unseen (p_ts (t_request t2)) ?st1 c))
        (lookupChatsForUserId (user_id v) ?st1)))" (is "_ \<in> set ?new")
    by (auto simp: to_api_format_def intro!: bexI [OF _ cs])
  have "lookupUserById (user_id u) ?st1 = u"
    by (rule lookupUserById_known [OF inv1]) (simp add: rows u)
  with cl have "to_api_message InMemoryConnection ?st1 ?m =
      \<lparr>am_ts = now, am_from = user_name u, am_to = chat_name c, am_msg = p_message (t_request t1)\<rparr>"
    by (simp add: to_api_message_def)
  with new have "\<lparr>am_ts = now, am_from = user_name u, am_to = chat_name c,
      am_msg = p_message (t_request t1)\<rparr> \<in> set ?new" by (simp only:)
  moreover have "poll_answer (t_ping t2) ?new = [SendMessagesToIdleConn ?new]"
    using new unfolding poll_answer_def by (metis empty_iff list.set(1))
  ultimately show ?thesis
    using sendchat_run [OF inv send, of srt now] c(1) poll_run [OF inv1 auth1 poll(2), of srt later] by auto
qed

text \<open>
  Registering a user with the name of an existing group makes the group unusable: later
  sends to it and additions to it are answered with 404 chat does not exist.
\<close>

theorem shadowed_chat:
  assumes inv: "storage_inv st" and room: "has_room st"
    and reg: "t_cmd t1 = USER_CREATE" "p_user (t_request t1) \<notin> dom (accounts st)"
      "c \<in> set (chats st)" "chat_name c = p_user (t_request t1)"
    and task: "t_cmd t2 \<in> {CHAT_ADDUSER, MESSAGE_SEND_CHAT}" "p_chat_name (t_request t2) = chat_name c"
      "authentic crc t2 st u"
      "t_cmd t2 = CHAT_ADDUSER \<Longrightarrow> p_chat_adduser (t_request t2) \<in> dom (accounts st)"
  shows "\<exists>st1 b. process_task crc srt now InMemoryConnection t1 st = Some (st1, [SendOkResponse b]) \<and>
    process_task crc srt later InMemoryConnection t2 st1 =
      Some (st1, [SendErrorResponse 404 ERR_NOT_FOUND ''chat does not exist''])"
proof (cases rule: createUser_cases [of st "p_user (t_request t1)" "encrypted crc (p_password (t_request t1))"
    "t_storage t1"])
  case taken
  then have "p_user (t_request t1) \<in> dom (accounts st)" by (metis dom_accounts imageI)
  with reg(2) show ?thesis by contradiction
next
  case fresh
  let ?w = "mk_user (user_autoincrement st) (chat_autoincrement st) (p_user (t_request t1))
    (encrypted crc (p_password (t_request t1))) (t_storage t1)"
  let ?st1 = "snd (createUser (p_user (t_request t1)) (encrypted crc (p_password (t_request t1))) (t_storage t1) st)"
  have rows: "users ?st1 = users st @ [?w]"
    "chats ?st1 = chats st @ [mk_chat (chat_autoincrement st) (p_user (t_request t1))]"
    by (simp_all add: fresh(2))
  have "user_autoincrement st \<noteq> 0" using storage_invD(1) [OF inv] by (auto simp: ids_ok_def)
  then have reg': "process_task crc srt now InMemoryConnection t1 st =
      Some (?st1, [SendOkResponse (the (ok_body_user now ?w))])"
    using fresh(2) reg(1) by (simp add: process_task_def do_user_create_def ok_body_user_text)
  have inv1: "storage_inv ?st1" by (rule createUser_inv [OF inv room])
  have auth1: "authentic crc t2 ?st1 u" using task(3) by (simp add: authentic_def rows)
  obtain x xs where "filter (\<lambda>d. chat_name d = chat_name c) (chats st) = x # xs"
    using reg(3) by (cases "filter (\<lambda>d. chat_name d = chat_name c) (chats st)") (auto simp: filter_empty_conv)
  then have two: "lookupChatByName (chat_name c) ?st1 = x # xs @ [mk_chat (chat_autoincrement st) (chat_name c)]"
    unfolding lookupChatByName_def rows by (simp add: reg(4))
  have "process_task crc srt later InMemoryConnection t2 ?st1 =
      Some (?st1, [SendErrorResponse 404 ERR_NOT_FOUND ''chat does not exist''])"
  proof (cases "t_cmd t2 = CHAT_ADDUSER")
    case True
    with task(4) obtain v where "v \<in> set (users st)" "user_name v = p_chat_adduser (t_request t2)"
      by (auto simp: dom_accounts)
    with adduser_run [OF inv1 auth1 True, of v srt later] two task(2) show ?thesis
      by (cases xs) (simp_all add: rows)
  next
    case False
    with task(1) have "t_cmd t2 = MESSAGE_SEND_CHAT" by simp
    from sendchat_run [OF inv1 auth1 this, of srt later] two task(2) show ?thesis
      by (cases xs) simp_all
  qed
  with reg' show ?thesis by blast
qed

section \<open>Limits of the long poll and of history\<close>

lemma max_timestamp_ge: "a \<in> set msgs \<Longrightarrow> am_ts a \<le> max_timestamp msgs"
proof -
  let ?f = "\<lambda>msg t. if am_ts msg > t then am_ts msg else t"
  have mono: "t \<le> fold ?f ms t" for t ms
  proof (induction ms arbitrary: t)
    case (Cons m ms)
    have "t \<le> ?f m t" by auto
    also have "\<dots> \<le> fold ?f (m # ms) t" using Cons.IH [of "?f m t"] by simp
    finally show ?case .
  qed simp
  have "am_ts a \<le> fold ?f ms t" if "a \<in> set ms" for t ms
    using that
  proof (induction ms arbitrary: t)
    case (Cons m ms)
    show ?case
    proof (cases "a = m")
      case True
      have "am_ts m \<le> ?f m t" by auto
      also have "\<dots> \<le> fold ?f ms (?f m t)" by (rule mono)
      finally show ?thesis using True by simp
    next
      case False
      with Cons show ?thesis by simp
    qed
  qed simp
  then show "a \<in> set msgs \<Longrightarrow> am_ts a \<le> max_timestamp msgs" by (simp add: max_timestamp_def)
qed

text \<open>Every answer to a poll is newer than the time the poll asks for.\<close>

lemma poll_newer:
  assumes inv: "storage_inv st" and cmd: "t_cmd task = IDLE"
    and run: "process_task crc srt now InMemoryConnection task st = Some (st', acts)"
    and sent: "SendMessagesToIdleConn msgs \<in> set acts" "a \<in> set msgs"
  shows "p_ts (t_request task) < am_ts a"
proof -
  have "\<exists>u. authentic crc task st u"
  proof (rule ccontr)
    assume "\<nexists>u. authentic crc task st u"
    then show False using unauthentic_run [OF inv, of task crc srt now] cmd run sent
      by (auto simp: needs_uid_def split: if_splits)
  qed
  then obtain u where "authentic crc task st u" by blast
  from poll_run [OF inv this cmd, of srt now] run sent show ?thesis
    by (auto simp: poll_answer_def to_api_format_def to_api_message_def unseen_def wanted_def default_opt_def
        dest!: in_set_takeD split: if_splits)
qed

text \<open>Of a chat the poll takes the three newest messages: an older one is left out.\<close>

lemma unseen_newest:
  assumes "messages st = old @ m # newer" "3 \<le> length (filter (wanted (chat_id c) (default_opt\<lparr>opt_ts := t\<rparr>)) newer)"
  shows "set (unseen t st c) \<subseteq> set (filter (wanted (chat_id c) (default_opt\<lparr>opt_ts := t\<rparr>)) newer)" "unseen t st c \<noteq> []"
proof -
  let ?W = "wanted (chat_id c) (default_opt\<lparr>opt_ts := t\<rparr>)"
  have "unseen t st c = take 3 (filter ?W (rev newer))"
    using assms(2) by (simp add: unseen_def assms(1) rev_filter [symmetric])
  then show "set (unseen t st c) \<subseteq> set (filter ?W newer)" "unseen t st c \<noteq> []"
    using assms(2) by (auto dest: in_set_takeD simp: rev_filter [symmetric])
qed

text \<open>
  (C31) When three or more messages follow an unseen message in its chat, all of later times,
  the answer of the server to the poll lacks it, and every message in the answer to any later
  poll, on any storage, that asks for messages newer than those of this answer is newer than
  it: it is never delivered. Chats of the user other than this one have other names, so that
  the message can be told from theirs.
\<close>

theorem poll_backlog_lost:
  assumes inv: "storage_inv st" and auth: "authentic crc task st u" and cmd: "t_cmd task = IDLE"
    and c: "c \<in> set (lookupChatsForUserId (user_id u) st)"
      "\<forall>d \<in> set (lookupChatsForUserId (user_id u) st). chat_name d = chat_name c \<longrightarrow> d = c"
    and log: "messages st = old @ m # newer" "chat_to m = chat_id c" "p_ts (t_request task) < ts m"
      "3 \<le> length (filter (wanted (chat_id c) (default_opt\<lparr>opt_ts := p_ts (t_request task)\<rparr>)) newer)"
      "\<forall>h \<in> set newer. chat_to h = chat_id c \<longrightarrow> ts m < ts h"
  shows "\<exists>st' msgs. process_task crc srt now InMemoryConnection task st = Some (st', [SendMessagesToIdleConn msgs]) \<and>
    to_api_message InMemoryConnection st m \<notin> set msgs \<and>
    (\<forall>task2 st2 later st3 acts msgs2. t_cmd task2 = IDLE \<and> max_timestamp msgs \<le> p_ts (t_request task2) \<and> storage_inv st2 \<and>
       process_task crc srt later InMemoryConnection (task2 :: 'c task) st2 = Some (st3, acts) \<and>
       SendMessagesToIdleConn msgs2 \<in> set acts \<longrightarrow> (\<forall>a \<in> set msgs2. ts m < am_ts a))"
proof -
  let ?t = "p_ts (t_request task)" and ?api = "to_api_message InMemoryConnection st"
  let ?cs = "lookupChatsForUserId (user_id u) st"
  let ?new = "concat (map (\<lambda>c. to_api_format InMemoryConnection st (unseen ?t st c)) ?cs)"
  have newer: "ts m < ts h" if "h \<in> set (unseen ?t st c)" for h
    using that unseen_newest(1) [OF log(1,4)] log(5) by (auto simp: wanted_def)
  have chat: "chat_name (lookupChatById (chat_to h) st) = chat_name d" if "d \<in> set ?cs" "h \<in> set (unseen ?t st d)" for d h
    using that chats_of_user [OF inv that(1)] lookupChatById_known [OF inv, of d]
    by (auto simp: unseen_def wanted_def dest: in_set_takeD)
  have left_out: "?api m \<noteq> a" if a: "a \<in> set ?new" for a
  proof
    assume m: "?api m = a"
    obtain d h where d: "d \<in> set ?cs" "h \<in> set (unseen ?t st d)" "a = ?api h" using a by (auto simp: to_api_format_def)
    have "lookupChatById (chat_id c) st = c" using lookupChatById_known [OF inv] chats_of_user [OF inv c(1)] by blast
    then have "chat_name d = chat_name c"
      using m chat [OF d(1,2)] d(3) log(2) by (simp add: to_api_message_def)
    with c(2) d(1) have "d = c" by blast
    with newer [of h] d(2,3) m show False by (simp add: to_api_message_def)
  qed
  obtain h where h: "h \<in> set (unseen ?t st c)"
    using unseen_newest(2) [OF log(1,4)] by (meson list.set_sel(1))
  then have in_new: "?api h \<in> set ?new" using c(1) by (auto simp: to_api_format_def)
  then have late: "ts m < max_timestamp ?new"
    using newer [OF h] max_timestamp_ge [OF in_new] by (simp add: to_api_message_def)
  have "poll_answer (t_ping task) ?new = [SendMessagesToIdleConn ?new]"
    using in_new unfolding poll_answer_def by (metis empty_iff list.set(1))
  then obtain st' where run: "process_task crc srt now InMemoryConnection task st = Some (st', [SendMessagesToIdleConn ?new])"
    using poll_run [OF inv auth cmd, of srt now] by auto
  have "ts m < am_ts a" if "t_cmd task2 = IDLE" "max_timestamp ?new \<le> p_ts (t_request task2)" "storage_inv st2"
    "process_task crc srt later InMemoryConnection task2 st2 = Some (st3, acts)" "SendMessagesToIdleConn msgs2 \<in> set acts"
    "a \<in> set msgs2" for task2 :: "'c task" and st2 later st3 acts msgs2 a
    using poll_newer [OF that(3,1,4,5,6)] that(2) late by (meson le_less_trans less_trans not_less)
  with run left_out show ?thesis by (intro exI [of _ st'] exI [of _ ?new]) blast
qed

text \<open>
  (C32) The limit of history is doubled in 64 bits and cut to 32 bits: a request for 2^31 + 1
  messages returns at most four.
\<close>

theorem history_count_truncated:
  assumes inv: "storage_inv st" and auth: "authentic crc task st u" and cmd: "t_cmd task = USER_HISTORY"
    and v: "v \<in> set (users st)" "user_name v = p_user (t_request task)"
    and srt: "sorts_newest_first srt"
    and count: "p_count (t_request task) = 2 ^ 31 + 1"
  shows "\<exists>hist. process_task crc srt now InMemoryConnection task st =
    Some (st, [SendMessages (to_api_format InMemoryConnection st hist)]) \<and> length hist \<le> 4"
proof -
  have two: "unat (ucast (p_count (t_request task) * 2 :: u64) :: u32) = 2"
    by (simp add: count unsigned_ucast_eq)
  have len: "length (srt ms) = length ms" for ms
    using srt by (metis sorts_newest_first_def size_mset)
  show ?thesis
    using history_run [OF inv auth cmd v, of srt now]
    by (auto simp: two mix_take len take_max_def)
qed

section \<open>The worker loop\<close>

text \<open>
  From the empty database and for any queue of tasks, the worker loop ends, no task
  aborts the process, the tasks taken are the first ones of the queue, and the storage
  satisfies its invariant: keys number the rows, user names are unique, every user is a member
  of a chat of its own name, and membership and message rows refer to existing rows.
\<close>

theorem workers_keep_storage:
  assumes "length clock < 2 ^ 64 - 1"
  shows "\<exists>w. processQueue crc srt InMemoryConnection clock
      \<lparr>w_queue = fold push tasks queue_new, w_db = empty_storage, w_sent = []\<rparr> = Some w \<and>
    storage_inv (w_db w) \<and> m_Queue (w_queue w) = drop (length clock) tasks"
proof -
  let ?w = "\<lparr>w_queue = fold push tasks queue_new, w_db = empty_storage, w_sent = []\<rparr>"
  have "chat_room (length clock) (w_db ?w)"
    using assms by (simp add: chat_room_def empty_storage_def)
  moreover have "m_Queue (w_queue ?w) = tasks"
    using lq.contents_fold_enq [of tasks queue_new] by (simp add: queue_new_def)
  ultimately show ?thesis
    using processQueue_mem [of ?w clock crc srt] by (simp add: empty_storage_inv)
qed

text \<open>
  Every queued request other than a poll is answered exactly once, and the answers go to
  the clients in the order in which the requests were queued.
\<close>

theorem answers_in_order:
  assumes "storage_inv st" "chat_room (length tasks) st" "\<forall>t \<in> set tasks. answered (t_cmd t)"
    and "length clock = length tasks"
  shows "\<exists>w. processQueue crc srt InMemoryConnection clock
      \<lparr>w_queue = fold push tasks queue_new, w_db = st, w_sent = []\<rparr> = Some w \<and>
    m_Queue (w_queue w) = [] \<and> map fst (w_sent w) = map t_client tasks"
proof -
  let ?w = "\<lparr>w_queue = fold push tasks queue_new, w_db = st, w_sent = []\<rparr>"
  have q: "m_Queue (w_queue ?w) = tasks"
    using lq.contents_fold_enq [of tasks queue_new] by (simp add: queue_new_def)
  from assms processQueue_mem [of ?w clock crc srt] obtain w where
    w: "processQueue crc srt InMemoryConnection clock ?w = Some w" "m_Queue (w_queue w) = []"
    using q by auto
  with processQueue_answers [of ?w clock crc srt w] assms q show ?thesis by auto
qed

end
