(* ===== verification/Wire.thy ===== *)
theory Wire
  imports System Server_Spec
begin

text \<open>
  Requests over the wire: the bytes of a request arrive at a connection in segments of any
  size, a worker runs its task, and the bytes of the answer go out. These lemmas join the
  parsers of \<open>Http_Messages\<close>, the handlers of \<open>Session\<close> and the tasks of \<open>Db_Worker\<close>.
\<close>

section \<open>Segments\<close>

lemma buf_swap:
  "s\<lparr>s_buf := b, s_api := a\<rparr> = s\<lparr>s_api := a, s_buf := b\<rparr>"
  "s\<lparr>s_buf := b, s_read := h\<rparr> = s\<lparr>s_read := h, s_buf := b\<rparr>"
  by simp_all

lemma apply_effects_buf:
  "apply_effects (s\<lparr>s_buf := b\<rparr>) r = (case apply_effects s r of (s', tq) \<Rightarrow> (s'\<lparr>s_buf := b\<rparr>, tq))"
proof -
  have one: "apply_effect e (s0\<lparr>s_buf := b\<rparr>, tr) = (case apply_effect e (s0, tr) of (s', tq) \<Rightarrow> (s'\<lparr>s_buf := b\<rparr>, tq))"
    for e :: "'a effect" and s0 tr by (cases e) simp_all
  have "fold apply_effect es (s0\<lparr>s_buf := b\<rparr>, tr) =
      (case fold apply_effect es (s0, tr) of (s', tq) \<Rightarrow> (s'\<lparr>s_buf := b\<rparr>, tq))" for es :: "'a effect list" and s0 tr
  proof (induction es arbitrary: s0 tr)
    case (Cons e es)
    then show ?case by (cases "apply_effect e (s0, tr)") (simp add: one)
  qed simp
  from this [of "snd r" "s\<lparr>s_api := fst r\<rparr>" "[]"]
  have "fold apply_effect (snd r) (s\<lparr>s_buf := b, s_api := fst r\<rparr>, []) =
      (case fold apply_effect (snd r) (s\<lparr>s_api := fst r\<rparr>, []) of (s', tq) \<Rightarrow> (s'\<lparr>s_buf := b\<rparr>, tq))"
    by (simp add: buf_swap)
  then show ?thesis by (cases r) (simp add: apply_effects_def)
qed

lemma request_no_read:
  assumes "requestFromClientReadHandler self n now res a = Some r" "apply_effects s r = (s', tq)" "s_read s = None"
  shows "s_read s' = None"
proof -
  obtain a' es where r: "r = (a', es)" by (cases r)
  from assms(1) [unfolded r] assms(2,3) r show ?thesis
    by (cases rule: request_cases) (auto simp: apply_effects_def)
qed

lemma no_more_tasks [simp]: "map_option (apsnd ((@) [])) x = x"
  by (cases x) (auto simp: apsnd_def map_prod_def split: prod.split)

lemma received_append:
  "Option.bind (session_event self n inflate now (Received a) s)
     (\<lambda>(s', tq). map_option (apsnd (\<lambda>tr. tq @ tr)) (session_event self n inflate now (Received b) s')) =
   session_event self n inflate now (Received (a @ b)) s"
proof (cases "s_read s")
  case None
  then show ?thesis by (simp add: session_event_def read_ready_def)
next
  case (Some h)
  obtain h' rest where run: "http_run inflate h (s_buf s @ a) = (h', rest)" by fastforce
  have ext: "http_run inflate h (s_buf s @ a @ b) = http_run inflate h' (rest @ b)"
    using http_run_extend [of inflate h "s_buf s @ a" b] run by simp
  show ?thesis
  proof (cases h')
    case (Finished res)
    show ?thesis
    proof (cases "requestFromClientReadHandler self n now res (s_api s)")
      case None
      with Some run ext Finished show ?thesis by (simp add: session_event_def read_ready_def)
    next
      case req: (Some r)
      let ?t = "\<lambda>x. s\<lparr>s_read := None, s_buf := x\<rparr>"
      obtain s1 tq where e1: "apply_effects (?t rest) r = (s1, tq)" by fastforce
      have e2: "apply_effects (?t x) r = (s1\<lparr>s_buf := x\<rparr>, tq)" for x
        using apply_effects_buf [where s = "?t rest" and b = x and r = r] e1 by simp
      have "s1\<lparr>s_buf := rest\<rparr> = s1" using e2 [of rest] e1 by simp
      then have buf: "s_buf s1 = rest" by (metis session.select_convs(3) session.surjective session.update_convs(3))
      have "s_read s1 = None" using request_no_read [OF req e1] by simp
      then show ?thesis
        using Some run ext Finished req e1 e2 [of "rest @ b"] buf
        by (simp add: session_event_def read_ready_def buf_swap)
    qed
  qed (use Some run ext in \<open>auto simp: session_event_def read_ready_def split: prod.split http_state.split\<close>)
qed

lemma putTask_fold_append: "fold putTask (tq @ tr) w = fold putTask tr (fold putTask tq w)"
  by simp

lemma at_received_append:
  "Option.bind (at_session env now c (Received a) y) (at_session env now c (Received b)) =
   at_session env now c (Received (a @ b)) y"
proof (cases "y_sessions y c")
  case None
  then show ?thesis by (simp add: at_session_def)
next
  case (Some s)
  let ?e = "\<lambda>x. session_event c (e_pass_len env) (e_inflate env) now (Received x)"
  note app = received_append [of c "e_pass_len env" "e_inflate env" now a s b]
  show ?thesis
  proof (cases "?e a s")
    case None
    with Some app show ?thesis by (simp add: at_session_def)
  next
    case ra: (Some r)
    obtain s1 tq where "r = (s1, tq)" by (cases r)
    with ra Some app show ?thesis
      by (cases "?e b s1") (auto simp: at_session_def apsnd_def map_prod_def simp flip: app split: prod.split)
  qed
qed

definition segments :: "u64 \<Rightarrow> 'c \<Rightarrow> string list \<Rightarrow> (u64 \<times> 'c system_event) list" where
  "segments now c segs = map (\<lambda>seg. (now, At c (Received seg))) segs"

lemma run_segments:
  "segs \<noteq> [] \<Longrightarrow> system_run env (segments now c segs) y = at_session env now c (Received (concat segs)) y"
proof (induction segs arbitrary: y)
  case (Cons seg segs)
  show ?case
  proof (cases "segs = []")
    case True
    then show ?thesis by (simp add: segments_def system_event_def) (cases "at_session env now c (Received seg) y"; simp)
  next
    case False
    have "system_run env (segments now c (seg # segs)) y =
        Option.bind (at_session env now c (Received seg) y) (system_run env (segments now c segs))"
      by (simp add: segments_def system_event_def)
    also have "system_run env (segments now c segs) = at_session env now c (Received (concat segs))"
      using Cons.IH [OF False] by (intro ext)
    finally show ?thesis by (simp add: at_received_append)
  qed
qed simp

section \<open>One request\<close>

text \<open>A connection that waits for a request, with nothing received yet.\<close>

definition ready :: "session \<Rightarrow> bool" where
  "ready s \<longleftrightarrow> s_read s = Some AwaitHeaders \<and> s_buf s = [] \<and> s_writes s = []"

lemma cmd_path:
  "lowercased (cmd2string c) = cmd2string c" "CHR '' '' \<notin> set (cmd2string c)" "CHR 0x0D \<notin> set (cmd2string c)"
proof -
  show "CHR '' '' \<notin> set (cmd2string c)" "CHR 0x0D \<notin> set (cmd2string c)" by (cases c; simp)+
  show "lowercased (cmd2string c) = cmd2string c"
    by (cases c) (simp_all add: lowercased_def tolower_def isupper_def)
qed

definition json_type :: "string \<Rightarrow> bool" where
  "json_type t \<longleftrightarrow> plain_value t \<and> CHR 0x0D \<notin> set t \<and>
     (starts_with t ''text/plain'' \<or> starts_with t ''application/json'')"

lemma json_type_json [simp]: "json_type ''application/json''"
  unfolding json_type_def by code_simp

definition request_task :: "'c \<Rightarrow> cmd_t \<Rightarrow> params \<Rightarrow> 'c task" where
  "request_task c cmd p = \<lparr>t_ping = False, t_cmd = cmd, t_request = p, t_client = c,
     t_storage = if cmd = USER_CREATE then ''localhost:3306'' else []\<rparr>"

lemma request_task_simps [simp]:
  "t_cmd (request_task c cmd p) = cmd" "t_request (request_task c cmd p) = p" "t_client (request_task c cmd p) = c"
  "t_ping (request_task c cmd p) = False"
  by (simp_all add: request_task_def)

text \<open>The members of the connection after a request that was parsed.\<close>

definition after_request :: "cmd_t \<Rightarrow> params \<Rightarrow> api_client \<Rightarrow> api_client" where
  "after_request cmd p a = a\<lparr>m_RequestDetails :=
     \<lparr>d_params = p, d_command = cmd, d_resource = cmd2string cmd, d_method = ''post''\<rparr>\<rparr>"

lemma routed_request:
  assumes "routed cmd" "h_resource r = cmd2string cmd" "h_method r = ''post''" "h_body r = body"
    "getHeader r ''Content-Type'' = t" "json_type t"
    "parse_meta n (d_params (m_RequestDetails a)) body cmd = Some (p, [])"
  shows "requestFromClientReadHandler c n now (None, r) a = Some (after_request cmd p a, [PutTask (request_task c cmd p)])"
  using assms not_idle_path [OF assms(1)]
  by (auto simp: requestFromClientReadHandler_def v1_handler_def handler_impl_def json_type_def cmd_path
      Let_def set_params_def set_command_def new_task_def request_task_def after_request_def)

lemma session_request:
  assumes s: "ready s" and cmd: "routed cmd" "json_type t" "length body < 2 ^ 64"
    and meta: "parse_meta n (d_params (m_RequestDetails (s_api s))) body cmd = Some (p, [])"
  shows "session_event c n inflate now (Received (build_request (cmd2string cmd) t body)) s =
    Some (s\<lparr>s_read := None, s_api := after_request cmd p (s_api s)\<rparr>, [request_task c cmd p])"
proof -
  let ?r = "\<lparr>h_status = 0, h_headers = join (request_lines (cmd2string cmd) t (length body)) crlf,
       h_body = body, h_method = ''post'', h_resource = cmd2string cmd, h_parsed = request_headers (length body) t\<rparr>"
  have t: "CHR 0x0D \<notin> set t" "plain_value t" using cmd(2) by (auto simp: json_type_def)
  have run: "http_run inflate AwaitHeaders (build_request (cmd2string cmd) t body) = (Finished (None, ?r), [])"
    using request_received [OF cmd_path(2,3) t cmd(3), of inflate cmd "[]"] by simp
  have req: "requestFromClientReadHandler c n now (None, ?r) (s_api s) =
      Some (after_request cmd p (s_api s), [PutTask (request_task c cmd p)])"
    by (rule routed_request [OF cmd(1) _ _ _ _ cmd(2) meta])
      (simp_all add: getHeader_def request_headers_def)
  show ?thesis
    using s by (simp add: session_event_def read_ready_def ready_def run req apply_effects_def) (simp add: ready_def)?
qed

text \<open>The bytes of an answer to anything but the long poll.\<close>

definition action_text :: "u64 \<Rightarrow> action \<Rightarrow> string option" where
  "action_text now act =
     (case act of
        SendErrorResponse http_code c desc \<Rightarrow> build_api_error_rsponse http_code c desc
      | SendOkResponse body \<Rightarrow> Some (buildApiOkResponse body)
      | SendMessages msgs \<Rightarrow> map_option buildApiOkResponse (ok_body_msgs now msgs)
      | SendMessagesToIdleConn msgs \<Rightarrow> None)"

lemma answer_written:
  assumes "action_text now act = Some resp"
  shows "\<exists>a'. answer_handler now act a = Some (a', [AsyncWrite resp ResponseWrote]) \<and>
    m_RequestDetails a' = m_RequestDetails a"
  using assms
  by (cases act)
    (auto simp: action_text_def answer_handler_def sendErrorResponse_def sendOkResponse_def sendMessages_def)

lemma session_answer:
  assumes "action_text now act = Some resp"
  shows "\<exists>s'. session_event c n inflate now (Answer act) s = Some (s', []) \<and>
    s_writes s' = s_writes s @ [(resp, ResponseWrote)] \<and> s_buf s' = s_buf s \<and> s_out s' = s_out s \<and>
    m_RequestDetails (s_api s') = m_RequestDetails (s_api s)"
proof -
  obtain a' where "answer_handler now act (s_api s) = Some (a', [AsyncWrite resp ResponseWrote :: 'a effect])"
    "m_RequestDetails a' = m_RequestDetails (s_api s)"
    using answer_written [OF assms] by blast
  then show ?thesis by (simp add: session_event_def apply_effects_def)
qed

lemma http_run_empty: "http_run inflate AwaitHeaders [] = (AwaitHeaders, [])"
  by (subst http_run.simps) (simp add: http_step_def read_until_def crlf_def)

lemma session_written:
  assumes "s_writes s = [(resp, ResponseWrote)]" "s_buf s = []"
  shows "\<exists>s'. session_event c n inflate now (WriteDone False) s = Some (s', []) \<and> ready s' \<and>
    s_out s' = s_out s @ resp \<and> m_RequestDetails (s_api s') = m_RequestDetails (s_api s)"
  using assms
  by (simp add: session_event_def write_done_def responseToClientWroteHandler_def apply_effects_def
      read_ready_def http_run_empty ready_def)

definition exchange :: "u64 \<Rightarrow> u64 \<Rightarrow> u64 \<Rightarrow> 'c \<Rightarrow> string list \<Rightarrow> (u64 \<times> 'c system_event) list" where
  "exchange t1 t2 t3 c segs = segments t1 c segs @ [(t2, WorkerRound), (t3, At c (WriteDone False))]"

lemma request_served:
  assumes s: "y_sessions y c = Some s" "ready s" and queue: "m_Queue (w_queue (y_workers y)) = []"
    and cmd: "routed cmd" "json_type t" "length body < 2 ^ 64"
    and segs: "concat segs = build_request (cmd2string cmd) t body"
    and meta: "parse_meta (e_pass_len env) (d_params (m_RequestDetails (s_api s))) body cmd = Some (p, [])"
    and task: "process_task (e_crc env) (e_sort env) t2 InMemoryConnection (request_task c cmd p)
      (w_db (y_workers y)) = Some (db', [act])"
    and ans: "action_text t2 act = Some resp"
  shows "\<exists>y' s'. system_run env (exchange t1 t2 t3 c segs) y = Some y' \<and> y_sessions y' = (y_sessions y)(c \<mapsto> s') \<and>
    ready s' \<and> s_out s' = s_out s @ resp \<and> d_params (m_RequestDetails (s_api s')) = p \<and>
    w_db (y_workers y') = db' \<and> m_Queue (w_queue (y_workers y')) = []"
proof -
  let ?n = "e_pass_len env" and ?i = "e_inflate env"
  let ?a = "after_request cmd p (s_api s)"
  let ?s1 = "s\<lparr>s_read := None, s_api := ?a\<rparr>" and ?task = "request_task c cmd p"
  let ?y1 = "\<lparr>y_sessions = (y_sessions y)(c \<mapsto> ?s1), y_workers = putTask ?task (y_workers y)\<rparr>"
  have "segs \<noteq> []" using segs by (auto simp: build_request_def)
  then have y1: "system_run env (segments t1 c segs) y = Some ?y1"
    using run_segments [of segs env t1 c y] s(1) session_request [OF s(2) cmd meta, of c ?i t1]
    by (simp add: segs at_session_def)
  have "m_Queue (w_queue (putTask ?task (y_workers y))) = [?task]" using queue by (simp add: putTask_def push_def)
  moreover have "w_db (putTask ?task (y_workers y)) = w_db (y_workers y)" by (simp add: putTask_def)
  ultimately obtain w where w: "processQueue_round (e_crc env) (e_sort env) InMemoryConnection t2
        ((putTask ?task (y_workers y))\<lparr>w_sent := []\<rparr>) = Some w" "w_sent w = [(c, act)]" "w_db w = db'"
      "m_Queue (w_queue w) = []"
    using task
    by (cases rule: round_cases [of "(putTask ?task (y_workers y))\<lparr>w_sent := []\<rparr>" "e_crc env" "e_sort env"
          InMemoryConnection t2]) auto
  obtain s2 where s2: "session_event c ?n ?i t2 (Answer act) ?s1 = Some (s2, [])"
    "s_writes s2 = [(resp, ResponseWrote)]" "s_buf s2 = []" "s_out s2 = s_out s"
    "m_RequestDetails (s_api s2) = m_RequestDetails ?a"
    using session_answer [OF ans, of c ?n ?i ?s1] s(2) by (auto simp: ready_def)
  let ?y2 = "\<lparr>y_sessions = (y_sessions y)(c \<mapsto> s2), y_workers = w\<lparr>w_sent := []\<rparr>\<rparr>"
  have y2: "system_event env t2 WorkerRound ?y1 = Some ?y2"
    by (simp add: system_event_def worker_round_def w at_session_def s2(1))
  obtain s3 where
    s3: "session_event c ?n ?i t3 (WriteDone False) s2 = Some (s3, [])" "ready s3" "s_out s3 = s_out s @ resp"
      "m_RequestDetails (s_api s3) = m_RequestDetails ?a"
    using session_written [OF s2(2,3), of c ?n ?i t3] s2(4,5) by auto
  let ?y3 = "\<lparr>y_sessions = (y_sessions y)(c \<mapsto> s3), y_workers = w\<lparr>w_sent := []\<rparr>\<rparr>"
  have y3: "system_event env t3 (At c (WriteDone False)) ?y2 = Some ?y3"
    by (simp add: system_event_def at_session_def s3(1))
  have "system_run env (exchange t1 t2 t3 c segs) y = Some ?y3"
    by (simp only: exchange_def system_run_append y1 bind.bind_lunit system_run.simps y2 y3)
  then show ?thesis
    using s3 w by (intro exI [of _ ?y3] exI [of _ s3]) (simp add: after_request_def)
qed

section \<open>Sizes\<close>

lemma length_show_nat: "n < 10 ^ Suc k \<Longrightarrow> length (show_nat n) \<le> Suc k"
proof (induction k arbitrary: n)
  case 0
  then show ?case by (subst show_nat.simps) simp
next
  case (Suc k)
  show ?case
  proof (cases "n < 10")
    case True
    then show ?thesis by (subst show_nat.simps) simp
  next
    case False
    have "n div 10 < 10 ^ Suc k" using Suc.prems by (simp add: div_less_iff_less_mult mult.commute)
    from Suc.IH [OF this] False show ?thesis by (subst show_nat.simps) simp
  qed
qed

lemma length_show_u64: "length (show_nat (unat (u :: u64))) \<le> 20"
proof -
  have "unat u < 10 ^ Suc 19" by (rule order.strict_trans [OF unat_less_u64]) simp
  from length_show_nat [OF this] show ?thesis by simp
qed

lemma length_write_char: "length (write_char c) \<le> 6"
  by (simp add: write_char_def split: option.split)

lemma length_WriteString: "length (WriteString s) \<le> 2 + 6 * length s"
proof -
  have "sum_list (map (\<lambda>c. length (write_char c)) s) \<le> 6 * length s"
  proof (induction s)
    case (Cons c s)
    with length_write_char [of c] show ?case by simp
  qed simp
  then show ?thesis by (simp add: WriteString_def length_concat comp_def)
qed

lemma length_c_str: "length (c_str s) \<le> length s"
  by (simp add: c_str_def length_takeWhile_le)

lemma ok_body_user_length:
  assumes "ok_body_user now u = Some b"
  shows "length b \<le> 300 + 6 * length (user_name u)"
proof -
  note l = length_WriteString [of "''id''"] length_WriteString [of "''chatid''"] length_WriteString [of "''heartbit''"]
    length_WriteString [of "''name''"] length_WriteString [of "''server_ts''"]
    length_WriteString [of "c_str (user_name u)"] length_c_str [of "user_name u"]
    length_show_u64 [of "user_id u"] length_show_u64 [of "self_chat_id u"] length_show_u64 [of "heartbit u"]
    length_show_u64 [of now]
  have "length b = 11 + length (WriteString ''id'') + length (WriteString ''chatid'') + length (WriteString ''heartbit'')
      + length (WriteString ''name'') + length (WriteString ''server_ts'') + length (WriteString (c_str (user_name u)))
      + length (show_nat (unat (user_id u))) + length (show_nat (unat (self_chat_id u)))
      + length (show_nat (unat (heartbit u))) + length (show_nat (unat now))"
    using assms by (auto simp: ok_body_user_text serialize.simps serialize_members.simps show_int_def)
  with l show ?thesis by simp
qed

section \<open>What the client reads\<close>

text \<open>\<open>sent\<close> is one response, in whatever segments it arrives, with this status and body.\<close>

definition client_reads :: "(string \<Rightarrow> string option) \<Rightarrow> string \<Rightarrow> int \<Rightarrow> string \<Rightarrow> bool" where
  "client_reads inflate sent st body \<longleftrightarrow>
     (\<forall>segs. concat segs = sent \<longrightarrow>
       (\<exists>r. fold (http_feed inflate) segs (AwaitHeaders, []) = (Finished (None, r), []) \<and>
          h_status r = st \<and> h_body r = body))"

lemma client_reads_ok: "length body < 2 ^ 64 \<Longrightarrow> client_reads inflate (buildApiOkResponse body) 200 body"
  using responses_run(1) [of body] by (simp add: client_reads_def)

lemma register_run:
  assumes inv: "storage_inv st" and cmd: "t_cmd task = USER_CREATE"
    and fresh: "p_user (t_request task) \<notin> dom (accounts st)"
  shows "\<exists>u b st'. ok_body_user now u = Some b \<and>
      process_task crc srt now InMemoryConnection task st = Some (st', [SendOkResponse b]) \<and>
      users st' = users st @ [u] \<and> user_name u = p_user (t_request task) \<and>
      password u = encrypted crc (p_password (t_request task))"
proof (cases rule: createUser_cases [of st "p_user (t_request task)" "encrypted crc (p_password (t_request task))"
    "t_storage task"])
  case taken
  then have "p_user (t_request task) \<in> dom (accounts st)" by (metis dom_accounts imageI)
  with fresh show ?thesis by simp
next
  case f: fresh
  have "user_autoincrement st \<noteq> 0" using storage_invD(1) [OF inv] by (auto simp: ids_ok_def)
  then show ?thesis
    using f(2) cmd by (simp add: process_task_def do_user_create_def ok_body_user_text)
qed

text \<open>
  (C3) Registration, end to end: the request of the client for a new name, in any segments,
  ends with the user stored and with a 200 response that the client, again in any segments,
  parses into the id, the chat and the times of the stored user; the connection waits for the
  next request.
\<close>

theorem register_over_the_wire:
  assumes inv: "storage_inv (w_db (y_workers y))"
    and s: "y_sessions y c = Some s" "ready s" and queue: "m_Queue (w_queue (y_workers y)) = []"
    and user: "NUL \<notin> set user" "user \<noteq> []" "user \<notin> dom (accounts (w_db (y_workers y)))" "length user < 2 ^ 60"
    and pass: "NUL \<notin> set pass" "pass \<noteq> []"
      "password_check pass (if e_pass_len env < 0 then 8 else nat (e_pass_len env))"
    and body: "build_user_pass_body user pass = Some body" "length body < 2 ^ 64"
    and segs: "concat segs = build_request (cmd2string USER_CREATE) ''application/json'' body"
  shows "\<exists>y' s' u sent answer. system_run env (exchange t1 t2 t3 c segs) y = Some y' \<and>
    users (w_db (y_workers y')) = users (w_db (y_workers y)) @ [u] \<and>
    user_name u = user \<and> password u = encrypted (e_crc env) pass \<and>
    y_sessions y' = (y_sessions y)(c \<mapsto> s') \<and> ready s' \<and> s_out s' = s_out s @ sent \<and>
    client_reads inflate sent 200 answer \<and>
    parse_response_aswer answer no_response =
      Some (\<lparr>r_uid = user_id u, r_chatid = self_chat_id u, r_heartbit = heartbit u, r_server_ts = t2\<rparr>, [])"
proof -
  let ?old = "d_params (m_RequestDetails (s_api s))"
  let ?p = "?old\<lparr>p_password := pass, p_user := user\<rparr>"
  have cs: "c_str user = user" "c_str pass = pass" using user(1) pass(1) by (simp_all add: c_str_id)
  have meta: "parse_meta (e_pass_len env) ?old body USER_CREATE = Some (?p, [])"
    using register_request_read [of user pass "e_pass_len env" ?old] user pass body(1) cs by simp
  let ?t = "request_task c USER_CREATE ?p"
  obtain u b st' where run: "ok_body_user t2 u = Some b"
      "process_task (e_crc env) (e_sort env) t2 InMemoryConnection ?t (w_db (y_workers y)) = Some (st', [SendOkResponse b])"
      "users st' = users (w_db (y_workers y)) @ [u]" "user_name u = user" "password u = encrypted (e_crc env) pass"
    using register_run [OF inv, of ?t t2 "e_crc env" "e_sort env"] user(3) by auto
  have "length b < 2 ^ 64" using ok_body_user_length [OF run(1)] run(4) user(4) by simp
  then have reads: "client_reads inflate (buildApiOkResponse b) 200 b" by (rule client_reads_ok)
  have "routed USER_CREATE" by (simp add: routed_def)
  from request_served [OF s queue this json_type_json body(2) segs meta run(2), of "buildApiOkResponse b" t1 t3]
    run reads user_answer_read [of t2 u no_response]
  show ?thesis by (fastforce simp: action_text_def)
qed

section \<open>Answers of moderate size\<close>

text \<open>Bounds that keep the length of every answer below \<open>2 ^ 64\<close>.\<close>

definition small_storage :: "storage \<Rightarrow> bool" where
  "small_storage st \<longleftrightarrow> length (chatuser st) < 2 ^ 20 \<and>
     (\<forall>u \<in> set (users st). length (user_name u) < 2 ^ 20) \<and>
     (\<forall>c \<in> set (chats st). length (chat_name c) < 2 ^ 20) \<and>
     (\<forall>m \<in> set (messages st). length (message m) < 2 ^ 30)"

definition small_message :: "api_message \<Rightarrow> bool" where
  "small_message a \<longleftrightarrow> length (am_from a) < 2 ^ 20 \<and> length (am_to a) < 2 ^ 20 \<and> length (am_msg a) < 2 ^ 30"

lemma find_in: "List.find P xs = Some x \<Longrightarrow> x \<in> set xs"
  by (induction xs) (auto split: if_splits)

lemma to_api_message_small:
  assumes "small_storage st" "m \<in> set (messages st)"
  shows "small_message (to_api_message InMemoryConnection st m)"
  using assms
  by (auto simp: small_message_def small_storage_def to_api_message_def lookupUserById_def lookupChatById_def
      no_user_def no_chat_def mk_user_def mk_chat_def dest: find_in split: option.split)

lemma poll_small:
  assumes inv: "storage_inv st" and auth: "authentic crc task st u" and cmd: "t_cmd task = IDLE"
    and run: "process_task crc srt now InMemoryConnection task st = Some (st', [SendMessagesToIdleConn msgs])"
    and small: "small_storage st"
  shows "length msgs < 2 ^ 22" "\<forall>a \<in> set msgs. small_message a"
proof -
  let ?cs = "lookupChatsForUserId (user_id u) st" and ?t = "p_ts (t_request task)"
  let ?new = "concat (map (\<lambda>c. to_api_format InMemoryConnection st (unseen ?t st c)) ?cs)"
  have "poll_answer (t_ping task) ?new = [SendMessagesToIdleConn msgs]"
    using poll_run [OF inv auth cmd, of srt now] run by auto
  then have msgs: "msgs = ?new" by (auto simp: poll_answer_def split: if_splits)
  have "length (to_api_format InMemoryConnection st (unseen ?t st c)) \<le> 3" for c
    by (simp add: to_api_format_def unseen_def)
  then have "length (concat (map (\<lambda>c. to_api_format InMemoryConnection st (unseen ?t st c)) cs)) \<le> 3 * length cs" for cs
    by (induction cs) (simp_all add: le_SucI add_le_mono)
  from this [of ?cs] have "length msgs \<le> 3 * length ?cs" by (simp add: msgs)
  also have "length ?cs \<le> length (chatuser st)" by (simp add: lookupChatsForUserId_def)
  finally show "length msgs < 2 ^ 22" using small by (simp add: small_storage_def)
  show "\<forall>a \<in> set msgs. small_message a"
    using to_api_message_small [OF small]
    by (auto simp: msgs to_api_format_def unseen_def dest!: in_set_takeD)
qed

lemma ok_body_msgs_length:
  assumes "ok_body_msgs now msgs = Some b" "length msgs < 2 ^ 22" "\<forall>a \<in> set msgs. small_message a"
  shows "length b < 2 ^ 64"
proof -
  note k = length_WriteString [of "''ts''"] length_WriteString [of "''to''"] length_WriteString [of "''from''"]
    length_WriteString [of "''message''"] length_WriteString [of "''server_ts''"] length_WriteString [of "''msgs''"]
    length_show_u64 [of now]
  have one: "length (serialize (message_json a)) \<le> 2 ^ 34" if "small_message a" for a
    using that k length_WriteString [of "c_str (am_from a)"] length_c_str [of "am_from a"]
      length_WriteString [of "c_str (am_to a)"] length_c_str [of "am_to a"]
      length_WriteString [of "c_str (am_msg a)"] length_c_str [of "am_msg a"] length_show_u64 [of "am_ts a"]
    by (simp add: message_json_def small_message_def serialize.simps serialize_members.simps show_int_def)
  have "length (serialize_elements (map message_json ms)) \<le> length ms * (2 ^ 34 + 1)"
    if "\<forall>a \<in> set ms. small_message a" for ms
    using that
  proof (induction ms)
    case (Cons a ms)
    then show ?case using one [of a] by (simp add: serialize_elements.simps)
  qed (simp add: serialize_elements.simps)
  from this [OF assms(3)] assms(2) k assms(1) show ?thesis
    by (auto simp: ok_body_msgs_text serialize.simps serialize_members.simps show_int_def)
qed

lemma send_small:
  assumes "storage_inv st" "authentic crc task st u" "t_cmd task = MESSAGE_SEND"
    "v \<in> set (users st)" "user_name v = p_to_user (t_request task)"
    "process_task crc srt now InMemoryConnection task st = Some (st', acts)"
    "small_storage st" "length (p_message (t_request task)) < 2 ^ 30"
  shows "small_storage st'"
  using send_run [OF assms(1-5), of srt now] assms(6-8) by (auto simp: small_storage_def saveMessage_def)

section \<open>The long poll\<close>

text \<open>A connection in the long poll, between two ticks of its timer.\<close>

definition polling :: "session \<Rightarrow> bool" where
  "polling s \<longleftrightarrow> s_timer s \<and> s_read s = None \<and> s_writes s = [] \<and> d_command (m_RequestDetails (s_api s)) = IDLE"

text \<open>The time the next poll asks for.\<close>

definition poll_ts :: "api_client \<Rightarrow> u64" where
  "poll_ts a = (let t = p_ts (d_params (m_RequestDetails a)) in if m_NewestMsgTimestamp a > t then m_NewestMsgTimestamp a else t)"

definition poll_task :: "'c \<Rightarrow> u64 \<Rightarrow> api_client \<Rightarrow> 'c task" where
  "poll_task c now a = \<lparr>t_ping = now - m_LastClientPing a > 5, t_cmd = IDLE,
     t_request = (d_params (m_RequestDetails a))\<lparr>p_ts := poll_ts a\<rparr>, t_client = c, t_storage = []\<rparr>"

lemma poll_task_simps [simp]:
  "t_cmd (poll_task c now a) = IDLE" "t_client (poll_task c now a) = c"
  "t_request (poll_task c now a) = (d_params (m_RequestDetails a))\<lparr>p_ts := poll_ts a\<rparr>"
  "t_ping (poll_task c now a) = (now - m_LastClientPing a > 5)"
  by (simp_all add: poll_task_def)

lemma session_tick:
  assumes "s_timer s" "d_command (m_RequestDetails (s_api s)) = IDLE"
  shows "\<exists>a. session_event c n inflate now TimerExpired s = Some (s\<lparr>s_api := a\<rparr>, [poll_task c now (s_api s)]) \<and>
    m_RequestDetails a = (m_RequestDetails (s_api s))\<lparr>d_params :=
      (d_params (m_RequestDetails (s_api s)))\<lparr>p_ts := poll_ts (s_api s)\<rparr>\<rparr> \<and>
    m_NewestMsgTimestamp a = m_NewestMsgTimestamp (s_api s)"
  using assms
  by (cases s)
    (auto simp: session_event_def timerWaitTaskResultHandler_def apply_effects_def poll_task_def
      poll_ts_def new_task_def set_params_def Let_def)

lemma session_push:
  assumes "ok_body_msgs now msgs = Some b"
  shows "session_event c n inflate now (Answer (SendMessagesToIdleConn msgs)) s =
    Some (s\<lparr>s_overlap := s_overlap s \<or> s_writes s \<noteq> [],
      s_writes := s_writes s @ [(buildApiOkResponse b, IdleWrote (max_timestamp msgs))]\<rparr>, [])"
  using assms by (simp add: session_event_def answer_handler_def sendMessagesToIdleConn_def apply_effects_def)

lemma session_pushed:
  assumes "s_writes s = [(resp, IdleWrote t)]" "s_read s = None"
  shows "session_event c n inflate now (WriteDone False) s =
    Some (s\<lparr>s_writes := [], s_out := s_out s @ resp, s_api := (s_api s)\<lparr>m_NewestMsgTimestamp := t\<rparr>\<rparr>, [])"
  using assms by (simp add: session_event_def write_done_def apply_effects_def read_ready_def)

definition tick :: "u64 \<Rightarrow> u64 \<Rightarrow> u64 \<Rightarrow> 'c \<Rightarrow> (u64 \<times> 'c system_event) list" where
  "tick t1 t2 t3 c = [(t1, At c TimerExpired), (t2, WorkerRound), (t3, At c (WriteDone False))]"

text \<open>What a worker does with the only task of the queue.\<close>

lemma single_task_round:
  assumes "m_Queue (w_queue w) = []" "process_task crc srt now InMemoryConnection task (w_db w) = Some (st, acts)"
  obtains w' where "processQueue_round crc srt InMemoryConnection now ((putTask task w)\<lparr>w_sent := []\<rparr>) = Some w'"
    "w_sent w' = map (Pair (t_client task)) acts" "w_db w' = st" "m_Queue (w_queue w') = []"
proof -
  have q: "m_Queue (w_queue (putTask task w)) = [task]" "w_db (putTask task w) = w_db w"
    using assms(1) by (simp_all add: putTask_def push_def)
  show ?thesis
    by (cases rule: round_cases [of "(putTask task w)\<lparr>w_sent := []\<rparr>" crc srt InMemoryConnection now])
      (use q assms(2) that in auto)
qed

lemma poll_served:
  assumes s: "y_sessions y c = Some s" "polling s" and queue: "m_Queue (w_queue (y_workers y)) = []"
    and task: "process_task (e_crc env) (e_sort env) t2 InMemoryConnection (poll_task c t1 (s_api s))
      (w_db (y_workers y)) = Some (db', [SendMessagesToIdleConn msgs])"
    and body: "ok_body_msgs t2 msgs = Some b"
  shows "\<exists>y' s'. system_run env (tick t1 t2 t3 c) y = Some y' \<and> y_sessions y' = (y_sessions y)(c \<mapsto> s') \<and>
    polling s' \<and> s_out s' = s_out s @ buildApiOkResponse b \<and> s_overlap s' = s_overlap s \<and>
    m_NewestMsgTimestamp (s_api s') = max_timestamp msgs \<and> w_db (y_workers y') = db' \<and>
    m_Queue (w_queue (y_workers y')) = []"
proof -
  let ?n = "e_pass_len env" and ?i = "e_inflate env" and ?task = "poll_task c t1 (s_api s)"
  obtain a where a: "session_event c ?n ?i t1 TimerExpired s = Some (s\<lparr>s_api := a\<rparr>, [?task])"
    "d_command (m_RequestDetails a) = IDLE"
    using session_tick [of s c ?n ?i t1] s(2) by (auto simp: polling_def)
  let ?s1 = "s\<lparr>s_api := a\<rparr>"
  let ?y1 = "\<lparr>y_sessions = (y_sessions y)(c \<mapsto> ?s1), y_workers = putTask ?task (y_workers y)\<rparr>"
  have y1: "system_event env t1 (At c TimerExpired) y = Some ?y1"
    using s(1) a by (simp add: system_event_def at_session_def)
  obtain w where w: "processQueue_round (e_crc env) (e_sort env) InMemoryConnection t2
        ((putTask ?task (y_workers y))\<lparr>w_sent := []\<rparr>) = Some w"
      "w_sent w = [(c, SendMessagesToIdleConn msgs)]" "w_db w = db'" "m_Queue (w_queue w) = []"
    using single_task_round [OF queue task] by auto
  let ?s2 = "?s1\<lparr>s_overlap := s_overlap s, s_writes := [(buildApiOkResponse b, IdleWrote (max_timestamp msgs))]\<rparr>"
  have "session_event c ?n ?i t2 (Answer (SendMessagesToIdleConn msgs)) ?s1 = Some (?s2, [])"
    using session_push [OF body, of c ?n ?i ?s1] s(2) by (simp add: polling_def)
  then have y2: "system_event env t2 WorkerRound ?y1 =
      Some \<lparr>y_sessions = (y_sessions y)(c \<mapsto> ?s2), y_workers = w\<lparr>w_sent := []\<rparr>\<rparr>" (is "_ = Some ?y2")
    by (simp add: system_event_def worker_round_def w at_session_def)
  let ?s3 = "?s2\<lparr>s_writes := [], s_out := s_out s @ buildApiOkResponse b,
      s_api := a\<lparr>m_NewestMsgTimestamp := max_timestamp msgs\<rparr>\<rparr>"
  have "session_event c ?n ?i t3 (WriteDone False) ?s2 = Some (?s3, [])"
    using session_pushed [of ?s2 "buildApiOkResponse b" "max_timestamp msgs" c ?n ?i t3] s(2) by (simp add: polling_def)
  then have y3: "system_event env t3 (At c (WriteDone False)) ?y2 =
      Some \<lparr>y_sessions = (y_sessions y)(c \<mapsto> ?s3), y_workers = w\<lparr>w_sent := []\<rparr>\<rparr>" (is "_ = Some ?y3")
    by (simp add: system_event_def at_session_def)
  have "system_run env (tick t1 t2 t3 c) y = Some ?y3"
    by (simp only: tick_def system_run.simps y1 y2 y3 bind.bind_lunit)
  then show ?thesis
    using w s(2) a(2) by (intro exI [of _ ?y3] exI [of _ ?s3]) (simp add: polling_def)
qed

section \<open>Logging in\<close>

lemma login_run:
  assumes inv: "storage_inv st" and u: "u \<in> set (users st)" "user_name u = p_user (t_request task)"
    and pw: "encrypted crc (p_password (t_request task)) = password u" and cmd: "t_cmd task = USER_LOGIN"
  shows "\<exists>b. ok_body_user now u = Some b \<and>
    process_task crc srt now InMemoryConnection task st = Some (st, [SendOkResponse b])"
  using lookupUserByName_known [OF inv u(1)] u(2) pw cmd user_id_nonzero [OF storage_invD(1) [OF inv] u(1)]
  by (simp add: process_task_def do_user_login_def lookup_check_pass_by_name_def ok_body_user_text)

text \<open>The request that starts the long poll: it is acknowledged and the timer runs.\<close>

lemma idle_request:
  assumes s: "ready s" and len: "length body < 2 ^ 64"
    and meta: "parse_meta n (d_params (m_RequestDetails (s_api s))) body IDLE = Some (p, [])"
    and ack: "ok_body_cmd now IDLE = Some ack"
  shows "session_event c n inflate now (Received (build_request (cmd2string IDLE) ''application/json'' body)) s =
    Some (s\<lparr>s_read := None, s_api := after_request IDLE p (s_api s), s_timer := True,
      s_writes := [(buildApiOkResponse ack, IdleAckWrote)]\<rparr>, [])"
proof -
  let ?t = "''application/json''"
  let ?r = "\<lparr>h_status = 0, h_headers = join (request_lines (cmd2string IDLE) ?t (length body)) crlf,
       h_body = body, h_method = ''post'', h_resource = cmd2string IDLE, h_parsed = request_headers (length body) ?t\<rparr>"
  have "plain_value ?t" using json_type_json unfolding json_type_def by blast
  moreover have "CHR 0x0D \<notin> set ?t" by simp
  ultimately have run: "http_run inflate AwaitHeaders (build_request (cmd2string IDLE) ?t body) = (Finished (None, ?r), [])"
    using request_received [OF cmd_path(2,3) _ _ len, of ?t inflate IDLE "[]"] by simp
  have req: "requestFromClientReadHandler c n now (None, ?r) (s_api s) =
      Some (after_request IDLE p (s_api s), [AsyncWrite (buildApiOkResponse ack) IdleAckWrote, StartTimer])"
    using meta ack cmd_path(1) [of IDLE]
    by (simp add: requestFromClientReadHandler_def sendOkResponseAndStartIdle_def set_params_def set_command_def
        after_request_def)
  show ?thesis
    using s by (simp add: session_event_def read_ready_def ready_def run req apply_effects_def del: cmd2string.simps)
qed

lemma idle_started:
  assumes y: "y_sessions y c = Some s" "ready s" and len: "length body < 2 ^ 64"
    and meta: "parse_meta (e_pass_len env) (d_params (m_RequestDetails (s_api s))) body IDLE = Some (p, [])"
    and segs: "concat segs = build_request (cmd2string IDLE) ''application/json'' body"
  shows "\<exists>y' s' ack. system_run env (segments t1 c segs @ [(t2, At c (WriteDone False))]) y = Some y' \<and>
    y_sessions y' = (y_sessions y)(c \<mapsto> s') \<and> y_workers y' = y_workers y \<and> polling s' \<and>
    d_params (m_RequestDetails (s_api s')) = p \<and> m_NewestMsgTimestamp (s_api s') = m_NewestMsgTimestamp (s_api s) \<and>
    s_out s' = s_out s @ buildApiOkResponse ack \<and> ok_body_cmd t1 IDLE = Some ack"
proof -
  obtain ack where ack: "ok_body_cmd t1 IDLE = Some ack" by (simp add: ok_body_cmd_text)
  let ?a = "after_request IDLE p (s_api s)"
  let ?s1 = "s\<lparr>s_read := None, s_api := ?a, s_timer := True, s_writes := [(buildApiOkResponse ack, IdleAckWrote)]\<rparr>"
  let ?y1 = "\<lparr>y_sessions = (y_sessions y)(c \<mapsto> ?s1), y_workers = y_workers y\<rparr>"
  have "segs \<noteq> []" using segs by (auto simp: build_request_def)
  then have y1: "system_run env (segments t1 c segs) y = Some ?y1"
    using run_segments [of segs env t1 c y] y(1) idle_request [OF y(2) len meta ack, of c "e_inflate env"]
    by (simp add: segs at_session_def)
  let ?s2 = "?s1\<lparr>s_writes := [], s_out := s_out s @ buildApiOkResponse ack\<rparr>"
  have "session_event c (e_pass_len env) (e_inflate env) t2 (WriteDone False) ?s1 = Some (?s2, [])"
    by (simp add: session_event_def write_done_def apply_effects_def read_ready_def)
  then have "system_event env t2 (At c (WriteDone False)) ?y1 =
      Some \<lparr>y_sessions = (y_sessions y)(c \<mapsto> ?s2), y_workers = y_workers y\<rparr>" (is "_ = Some ?y2")
    by (simp add: system_event_def at_session_def)
  then have "system_run env (segments t1 c segs @ [(t2, At c (WriteDone False))]) y = Some ?y2"
    by (simp add: system_run_append y1)
  then show ?thesis
    using ack by (intro exI [of _ ?y2] exI [of _ ?s2] exI [of _ ack]) (simp add: polling_def after_request_def)
qed

section \<open>A message\<close>

text \<open>A message on its way through the server.\<close>

lemma message_over_the_wire:
  assumes inv: "storage_inv (w_db (y_workers y))" and queue: "m_Queue (w_queue (y_workers y)) = []"
    and c1: "y_sessions y c1 = Some s1" "ready s1" and c2: "y_sessions y c2 = Some s2" "polling s2" "c1 \<noteq> c2"
    and u: "u \<in> set (users (w_db (y_workers y)))" "user_id u < 2 ^ 32" "encrypted (e_crc env) pass = password u"
      "NUL \<notin> set pass" "pass \<noteq> []"
    and v: "v \<in> set (users (w_db (y_workers y)))" "NUL \<notin> set (user_name v)" "user_name v \<noteq> []"
      "p_uid (d_params (m_RequestDetails (s_api s2))) = user_id v"
      "encrypted (e_crc env) (p_password (d_params (m_RequestDetails (s_api s2)))) = password v"
      "poll_ts (s_api s2) < t2"
    and msg: "NUL \<notin> set msg" "msg \<noteq> []" "length msg < 2 ^ 30" and small: "small_storage (w_db (y_workers y))"
    and body: "build_user_send_msg_body (user_id u) hb (user_name v) msg pass = Some body" "length body < 2 ^ 64"
    and segs: "concat segs = build_request (cmd2string MESSAGE_SEND) ''application/json'' body"
  shows "\<exists>y' s2' sent answer msgs. system_run env (exchange t1 t2 t3 c1 segs @ tick t4 t5 t6 c2) y = Some y' \<and>
    y_sessions y' c2 = Some s2' \<and> polling s2' \<and> s_out s2' = s_out s2 @ sent \<and>
    client_reads inflate sent 200 answer \<and> parse_msg_response answer [] = Some (msgs, []) \<and>
    \<lparr>am_ts = t2, am_from = c_str (user_name u), am_to = user_name v, am_msg = msg\<rparr> \<in> set msgs"
proof -
  let ?db = "w_db (y_workers y)" and ?old = "d_params (m_RequestDetails (s_api s1))"
  let ?new = "?old\<lparr>p_password := pass, p_uid := user_id u, p_message := msg, p_to_user := user_name v\<rparr>"
  let ?t1 = "request_task c1 MESSAGE_SEND ?new" and ?t2 = "poll_task c2 t4 (s_api s2)"
  have cs: "c_str (user_name v) = user_name v" "c_str msg = msg" "c_str pass = pass"
    using v(2) msg(1) u(4) by (simp_all add: c_str_id)
  have meta: "parse_meta (e_pass_len env) ?old body MESSAGE_SEND = Some (?new, [])"
    using send_request_read [of "user_id u" "user_name v" msg pass hb "e_pass_len env" ?old] cs u v msg body(1) by simp
  have auth: "authentic (e_crc env) ?t1 ?db u" "authentic (e_crc env) ?t2 ?db v"
    using u v by (simp_all add: authentic_def)
  from send_poll_run [OF inv auth(1) _ v(1) _ auth(2), of t2 "e_sort env" t5] v(6)
  obtain st1 st2 msgs where run:
    "process_task (e_crc env) (e_sort env) t2 InMemoryConnection ?t1 ?db = Some (st1, [SendOkResponse status_ok])"
    "process_task (e_crc env) (e_sort env) t5 InMemoryConnection ?t2 st1 = Some (st2, [SendMessagesToIdleConn msgs])"
    "\<lparr>am_ts = t2, am_from = user_name u, am_to = user_name v, am_msg = msg\<rparr> \<in> set msgs" by auto
  have "routed MESSAGE_SEND" by (simp add: routed_def)
  from request_served [OF c1 queue this json_type_json body(2) segs meta run(1), of "buildApiOkResponse status_ok" t1 t3]
  obtain y1 s1' where y1: "system_run env (exchange t1 t2 t3 c1 segs) y = Some y1"
    "y_sessions y1 = (y_sessions y)(c1 \<mapsto> s1')" "w_db (y_workers y1) = st1" "m_Queue (w_queue (y_workers y1)) = []"
    by (auto simp: action_text_def)
  obtain b where b: "ok_body_msgs t5 msgs = Some b" by (simp add: ok_body_msgs_text)
  have st1: "st1 = saveMessage \<lparr>flags = UNREAD, user_from = user_id u, chat_to = self_chat_id v, ts = t2, message = msg\<rparr> ?db"
    using send_run [OF inv auth(1) _ v(1), of "e_sort env" t2] run(1) by simp
  have "storage_inv st1" unfolding st1 by (rule saved_inv [OF inv u(1) v(1)]) simp_all
  moreover have "authentic (e_crc env) ?t2 st1 v" using auth(2) by (simp add: st1 authentic_def saveMessage_def)
  moreover have "small_storage st1" using send_small [OF inv auth(1) _ v(1) _ run(1) small] msg(3) by simp
  ultimately have "length b < 2 ^ 64"
    using ok_body_msgs_length [OF b] poll_small [of st1 "e_crc env" ?t2 v "e_sort env" t5 st2 msgs] run(2) by simp
  then have reads: "client_reads inflate (buildApiOkResponse b) 200 b" by (rule client_reads_ok)
  have s2: "y_sessions y1 c2 = Some s2" using y1(2) c2 by simp
  from poll_served [OF s2 c2(2) y1(4) _ b, of env t4 st2 t6] run(2) y1(3)
  obtain y2 s2' where y2: "system_run env (tick t4 t5 t6 c2) y1 = Some y2" "y_sessions y2 = (y_sessions y1)(c2 \<mapsto> s2')"
    "polling s2'" "s_out s2' = s_out s2 @ buildApiOkResponse b" by auto
  have "parse_msg_response b [] = Some (map c_message msgs, [])" using msgs_answer_read [of t5 msgs "[]"] b by simp
  moreover have "\<lparr>am_ts = t2, am_from = c_str (user_name u), am_to = user_name v, am_msg = msg\<rparr> \<in> set (map c_message msgs)"
    using run(3) unfolding set_map by (rule rev_image_eqI) (simp add: c_message_def cs)
  ultimately show ?thesis
    using y1(1) y2 reads by (intro exI [of _ y2] exI [of _ s2'] exI) (auto simp: system_run_append)
qed

section \<open>The server as a whole\<close>

text \<open>
  In every state the server can reach, by any interleaving of accepted connections,
  received bytes, failures, timers, finished writes and worker rounds of one task each, the
  storage satisfies its invariant.
\<close>

theorem server_keeps_storage:
  assumes "reachable env n y" "n < 2 ^ 64 - 2"
  shows "storage_inv (w_db (y_workers y))"
  using reachable_db_ok [OF assms] by (simp add: db_ok_def)

text \<open>
  As long as no connection has started the long poll, each connection waits for at most
  one thing - the next request, the end of one write, or one answer of the workers - and no
  read or write of the socket is started while another is in flight.
\<close>

theorem one_request_in_flight:
  assumes "calm env n y" "n < 2 ^ 64 - 2" "y_sessions y c = Some s"
  shows "in_flight s (pending c y) \<le> 1 \<and> \<not> s_overlap s"
  using one_at_a_timeD(1) [OF calm_one_at_a_time [OF assms(1,2)] assms(3)] by (simp add: alternating_def)

text \<open>
  (C13) A well-formed CHAT_HISTORY request is queued and no worker answers it: the connection
  then waits for nothing, sends nothing, and no event of the network or the clock changes
  that.
\<close>

theorem group_history_hangs:
  assumes s: "y_sessions y c = Some s" "ready s" "\<not> s_timer s" and queue: "m_Queue (w_queue (y_workers y)) = []"
    and req: "json_type t" "length body < 2 ^ 64" "concat segs = build_request (cmd2string CHAT_HISTORY) t body"
    and meta: "parse_meta (e_pass_len env) (d_params (m_RequestDetails (s_api s))) body CHAT_HISTORY = Some (p, [])"
  shows "\<exists>y' s'. system_run env (segments t1 c segs @ [(t2, WorkerRound)]) y = Some y' \<and>
    y_sessions y' c = Some s' \<and> s_out s' = s_out s \<and> closed s' (pending c y') \<and> \<not> s_timer s' \<and>
    (\<forall>now e. (\<forall>act. e \<noteq> Answer act) \<longrightarrow> (\<exists>s''.
       session_event c (e_pass_len env) (e_inflate env) now e s' = Some (s'', []) \<and> s_out s'' = s_out s \<and> closed s'' 0))"
proof -
  let ?s1 = "s\<lparr>s_read := None, s_api := after_request CHAT_HISTORY p (s_api s)\<rparr>"
  let ?task = "request_task c CHAT_HISTORY p"
  let ?y1 = "\<lparr>y_sessions = (y_sessions y)(c \<mapsto> ?s1), y_workers = putTask ?task (y_workers y)\<rparr>"
  have r: "routed CHAT_HISTORY" by (simp add: routed_def)
  have "segs \<noteq> []" using req(3) by (auto simp: build_request_def)
  then have y1: "system_run env (segments t1 c segs) y = Some ?y1"
    using run_segments [of segs env t1 c y] s(1)
      session_request [OF s(2) r req(1,2) meta, of c "e_inflate env" t1]
    by (simp add: req(3) at_session_def)
  have "process_task (e_crc env) (e_sort env) t2 InMemoryConnection ?task (w_db (y_workers y)) = Some (w_db (y_workers y), [])"
    by (simp add: process_task_def)
  from single_task_round [OF queue this] obtain w where w:
    "processQueue_round (e_crc env) (e_sort env) InMemoryConnection t2 ((putTask ?task (y_workers y))\<lparr>w_sent := []\<rparr>) = Some w"
    "w_sent w = []" "m_Queue (w_queue w) = []" by auto
  let ?y2 = "\<lparr>y_sessions = (y_sessions y)(c \<mapsto> ?s1), y_workers = w\<lparr>w_sent := []\<rparr>\<rparr>"
  have "system_run env (segments t1 c segs @ [(t2, WorkerRound)]) y = Some ?y2"
    by (simp add: system_run_append y1 system_event_def worker_round_def w)
  moreover have "(\<forall>act. e \<noteq> Answer act) \<longrightarrow> (\<exists>s''.
      session_event c (e_pass_len env) (e_inflate env) now e ?s1 = Some (s'', []) \<and> s_out s'' = s_out s \<and> closed s'' 0)" for now e
    using s(2,3) by (cases e) (simp_all add: session_event_def read_ready_def ready_def closed_def in_flight_def)
  ultimately show ?thesis
    using s(2,3) w(3)
    by (intro exI [of _ ?y2] exI [of _ ?s1]) (simp add: closed_def in_flight_def ready_def pending_def)
qed

lemma session_error:
  assumes "build_api_error_rsponse st d e = Some resp"
  shows "session_event c n inflate now (Answer (SendErrorResponse st d e)) s =
    Some (s\<lparr>s_api := (s_api s)\<lparr>m_HttpCode := st\<rparr>, s_overlap := s_overlap s \<or> s_writes s \<noteq> [],
      s_writes := s_writes s @ [(resp, ResponseWrote)]\<rparr>, [])"
  using assms by (simp add: session_event_def answer_handler_def sendErrorResponse_def apply_effects_def)

text \<open>One tick of the timer of a connection whose poll the server rejects.\<close>

lemma rejected_tick:
  assumes s: "y_sessions y c = Some s" "s_timer s" "d_command (m_RequestDetails (s_api s)) = IDLE"
    and queue: "m_Queue (w_queue (y_workers y)) = []" and inv: "storage_inv (w_db (y_workers y))"
    and bad: "\<forall>u \<in> set (users (w_db (y_workers y))). user_id u = p_uid (d_params (m_RequestDetails (s_api s))) \<longrightarrow>
      encrypted (e_crc env) (p_password (d_params (m_RequestDetails (s_api s)))) \<noteq> password u"
  shows "\<exists>y' s' resp. system_run env [(t1, At c TimerExpired), (t2, WorkerRound)] y = Some y' \<and>
    y_sessions y' = (y_sessions y)(c \<mapsto> s') \<and> s_timer s' \<and> s_overlap s' = (s_overlap s \<or> s_writes s \<noteq> []) \<and>
    s_writes s' = s_writes s @ [(resp, ResponseWrote)] \<and> s_out s' = s_out s \<and>
    d_command (m_RequestDetails (s_api s')) = IDLE \<and>
    p_uid (d_params (m_RequestDetails (s_api s'))) = p_uid (d_params (m_RequestDetails (s_api s))) \<and>
    p_password (d_params (m_RequestDetails (s_api s'))) = p_password (d_params (m_RequestDetails (s_api s))) \<and>
    w_db (y_workers y') = w_db (y_workers y) \<and> m_Queue (w_queue (y_workers y')) = []"
proof -
  let ?n = "e_pass_len env" and ?i = "e_inflate env" and ?task = "poll_task c t1 (s_api s)"
  let ?db = "w_db (y_workers y)"
  obtain a where a: "session_event c ?n ?i t1 TimerExpired s = Some (s\<lparr>s_api := a\<rparr>, [?task])"
    "m_RequestDetails a = (m_RequestDetails (s_api s))\<lparr>d_params :=
      (d_params (m_RequestDetails (s_api s)))\<lparr>p_ts := poll_ts (s_api s)\<rparr>\<rparr>"
    using session_tick [of s c ?n ?i t1] s(2,3) by auto
  have "\<forall>u. \<not> authentic (e_crc env) ?task ?db u" using bad by (auto simp: authentic_def)
  from unauthentic_run [OF inv _ this, of "e_sort env" t2]
  obtain st d e where rej:
    "process_task (e_crc env) (e_sort env) t2 InMemoryConnection ?task ?db = Some (?db, [SendErrorResponse st d e])"
    by (auto simp: needs_uid_def split: if_splits)
  obtain resp where resp: "build_api_error_rsponse st d e = Some resp" using error_response_Some by blast
  obtain w where w: "processQueue_round (e_crc env) (e_sort env) InMemoryConnection t2
        ((putTask ?task (y_workers y))\<lparr>w_sent := []\<rparr>) = Some w"
      "w_sent w = [(c, SendErrorResponse st d e)]" "w_db w = ?db" "m_Queue (w_queue w) = []"
    using single_task_round [OF queue rej] by auto
  let ?s1 = "s\<lparr>s_api := a\<rparr>"
  let ?s2 = "?s1\<lparr>s_api := a\<lparr>m_HttpCode := st\<rparr>, s_overlap := s_overlap s \<or> s_writes s \<noteq> [],
      s_writes := s_writes s @ [(resp, ResponseWrote)]\<rparr>"
  have y1: "system_event env t1 (At c TimerExpired) y =
      Some \<lparr>y_sessions = (y_sessions y)(c \<mapsto> ?s1), y_workers = putTask ?task (y_workers y)\<rparr>" (is "_ = Some ?y1")
    using s(1) a(1) by (simp add: system_event_def at_session_def)
  have "session_event c ?n ?i t2 (Answer (SendErrorResponse st d e)) ?s1 = Some (?s2, [])"
    using session_error [OF resp, of c ?n ?i t2 ?s1] by simp
  then have y2: "system_event env t2 WorkerRound ?y1 =
      Some \<lparr>y_sessions = (y_sessions y)(c \<mapsto> ?s2), y_workers = w\<lparr>w_sent := []\<rparr>\<rparr>" (is "_ = Some ?y2")
    by (simp add: system_event_def worker_round_def w at_session_def)
  have "system_run env [(t1, At c TimerExpired), (t2, WorkerRound)] y = Some ?y2"
    by (simp only: system_run.simps y1 y2 bind.bind_lunit)
  then show ?thesis
    using w s(2,3) a(2) by (intro exI [of _ ?y2] exI [of _ ?s2] exI [of _ resp]) simp
qed

text \<open>
  (C14) A long poll with a wrong password or an unknown id is never stopped: every tick of its
  timer queues a task and starts the write of another error response, so after two ticks, with
  no write completed between them, a write has been started while one is in flight, and the
  timer still runs.
\<close>

theorem poll_wrong_password:
  assumes s: "y_sessions y c = Some s" "s_timer s" "d_command (m_RequestDetails (s_api s)) = IDLE"
    and queue: "m_Queue (w_queue (y_workers y)) = []" and inv: "storage_inv (w_db (y_workers y))"
    and bad: "\<forall>u \<in> set (users (w_db (y_workers y))). user_id u = p_uid (d_params (m_RequestDetails (s_api s))) \<longrightarrow>
      encrypted (e_crc env) (p_password (d_params (m_RequestDetails (s_api s)))) \<noteq> password u"
  shows "\<exists>y' s'. system_run env
      [(t1, At c TimerExpired), (t2, WorkerRound), (t3, At c TimerExpired), (t4, WorkerRound)] y = Some y' \<and>
    y_sessions y' c = Some s' \<and> s_timer s' \<and> s_overlap s' \<and> length (s_writes s') = length (s_writes s) + 2 \<and>
    w_db (y_workers y') = w_db (y_workers y)"
proof -
  obtain y1 s1 resp where y1: "system_run env [(t1, At c TimerExpired), (t2, WorkerRound)] y = Some y1"
    "y_sessions y1 = (y_sessions y)(c \<mapsto> s1)" "s_timer s1" "s_writes s1 = s_writes s @ [(resp, ResponseWrote)]"
    "d_command (m_RequestDetails (s_api s1)) = IDLE"
    "p_uid (d_params (m_RequestDetails (s_api s1))) = p_uid (d_params (m_RequestDetails (s_api s)))"
    "p_password (d_params (m_RequestDetails (s_api s1))) = p_password (d_params (m_RequestDetails (s_api s)))"
    "w_db (y_workers y1) = w_db (y_workers y)" "m_Queue (w_queue (y_workers y1)) = []"
    using rejected_tick [OF assms, of t1 t2] by auto
  have s1: "y_sessions y1 c = Some s1" by (simp add: y1)
  obtain y2 s2 resp2 where y2: "system_run env [(t3, At c TimerExpired), (t4, WorkerRound)] y1 = Some y2"
    "y_sessions y2 = (y_sessions y1)(c \<mapsto> s2)" "s_timer s2" "s_overlap s2"
    "s_writes s2 = s_writes s1 @ [(resp2, ResponseWrote)]" "w_db (y_workers y2) = w_db (y_workers y1)"
    using rejected_tick [OF s1 y1(3,5,9), of env t3 t4] inv bad y1 by auto
  have "system_run env ([(t1, At c TimerExpired), (t2, WorkerRound)] @ [(t3, At c TimerExpired), (t4, WorkerRound)]) y = Some y2"
    by (simp only: system_run_append y1(1) bind.bind_lunit y2(1))
  then show ?thesis using y1 y2 by (intro exI [of _ y2] exI [of _ s2]) simp
qed

end
