(* ===== verification/Demo.thy ===== *)
theory Demo
  imports Server_Spec
begin

text \<open>
  A concrete server on which the properties of \<open>Server_Spec\<close> and \<open>Db_Worker\<close> are applied: the
  storage after two registrations, one group and three messages, a checksum, and a sort.
\<close>

definition demo_crc :: "string \<Rightarrow> u32" where
  "demo_crc s = of_nat (length s)"

definition demo_sort :: "db_message list \<Rightarrow> db_message list" where
  "demo_sort ms = rev (sort_key ts ms)"

lemma demo_sort_ok: "sorts_newest_first demo_sort"
  by (simp add: sorts_newest_first_def demo_sort_def sorted_wrt_rev sorted_sort_key [unfolded sorted_map])

definition alice :: db_user where
  "alice = mk_user 1 1 ''alice'' (encrypted demo_crc ''secret12'') ''localhost:3306''"

definition bob :: db_user where
  "bob = mk_user 2 2 ''bob'' (encrypted demo_crc ''hunter2222'') ''localhost:3306''"

definition team :: db_chat where
  "team = mk_chat 3 ''team''"

definition demo_message :: "u64 \<Rightarrow> u64 \<Rightarrow> u64 \<Rightarrow> string \<Rightarrow> db_message" where
  "demo_message a b t s = \<lparr>flags = UNREAD, user_from = a, chat_to = b, ts = t, message = s\<rparr>"

definition demo :: storage where
  "demo = \<lparr>user_autoincrement = 3, chat_autoincrement = 4,
     chats = [mk_chat 1 ''alice'', mk_chat 2 ''bob'', team], users = [alice, bob],
     chatuser = [mk_chatuser 1 1, mk_chatuser 2 2, mk_chatuser 3 1, mk_chatuser 3 2],
     messages = [demo_message 1 2 10 ''hi bob'', demo_message 2 1 11 ''hi alice'',
       demo_message 1 2 12 ''how are you'', demo_message 1 2 13 ''bye'', demo_message 1 2 14 ''now'']\<rparr>"

definition demo_task :: "cmd_t \<Rightarrow> params \<Rightarrow> nat task" where
  "demo_task cmd p = \<lparr>t_ping = False, t_cmd = cmd, t_request = p, t_client = 7, t_storage = ''localhost:3306''\<rparr>"

definition alice_params :: params where
  "alice_params = no_params\<lparr>p_uid := 1, p_password := ''secret12''\<rparr>"

definition bob_params :: params where
  "bob_params = no_params\<lparr>p_uid := 2, p_password := ''hunter2222''\<rparr>"

lemmas demo_rows = demo_def alice_def bob_def team_def demo_message_def

lemma demo_task_simps [simp]:
  "t_ping (demo_task c p) = False" "t_cmd (demo_task c p) = c" "t_request (demo_task c p) = p"
  "t_client (demo_task c p) = 7" "t_storage (demo_task c p) = ''localhost:3306''"
  by (simp_all add: demo_task_def)

lemma alice_params_simps [simp]:
  "p_uid alice_params = 1" "p_password alice_params = ''secret12''"
  "p_uid bob_params = 2" "p_password bob_params = ''hunter2222''"
  "p_ts alice_params = 0" "p_ts bob_params = 0"
  by (simp_all add: alice_params_def bob_params_def no_params_def)

lemma demo_inv: "storage_inv demo"
  by (simp add: inv_defs demo_rows mk_chat_def mk_chatuser_def mk_user_def upt_rec)

lemma demo_room: "has_room demo"
  by (simp add: has_room_def demo_def)

lemma demo_users: "alice \<in> set (users demo)" "bob \<in> set (users demo)"
  by (simp_all add: demo_def)

lemma demo_names [simp]:
  "user_name alice = ''alice''" "user_name bob = ''bob''" "user_id alice = 1" "user_id bob = 2"
  "self_chat_id alice = 1" "self_chat_id bob = 2"
  "password alice = encrypted demo_crc ''secret12''" "password bob = encrypted demo_crc ''hunter2222''"
  by (simp_all add: alice_def bob_def)

lemma demo_auth:
  "p_uid p = 1 \<Longrightarrow> p_password p = ''secret12'' \<Longrightarrow> authentic demo_crc (demo_task c p) demo alice"
  "p_uid p = 2 \<Longrightarrow> p_password p = ''hunter2222'' \<Longrightarrow> authentic demo_crc (demo_task c p) demo bob"
  by (simp_all add: authentic_def demo_users)

section \<open>The properties at work\<close>

lemma demo_encrypted [simp]:
  "encrypted demo_crc ''secret12'' = ''8''" "encrypted demo_crc ''hunter2222'' = ''10''"
  "encrypted demo_crc ''wrong'' = ''5''"
  by code_simp+

lemma unauthentic_rejected_witness:
  "process_task demo_crc demo_sort 20 InMemoryConnection
     (demo_task MESSAGE_SEND (alice_params\<lparr>p_password := ''wrong''\<rparr>)) demo =
   Some (demo, [SendErrorResponse 403 ERR_CONSTRAINT ''wrong password''])"
proof -
  have "\<forall>u. \<not> authentic demo_crc (demo_task MESSAGE_SEND (alice_params\<lparr>p_password := ''wrong''\<rparr>)) demo u"
    by (auto simp: authentic_def demo_def)
  from unauthentic_rejected [OF demo_inv _ this] show ?thesis
    by (simp add: needs_uid_def demo_def)
qed

lemma history_latest_witness:
  "\<exists>hist rest.
    process_task demo_crc demo_sort 20 InMemoryConnection
      (demo_task USER_HISTORY (alice_params\<lparr>p_user := ''bob'', p_count := 2\<rparr>)) demo =
      Some (demo, [SendMessages (to_api_format InMemoryConnection demo hist)]) \<and>
    filter_mset (between alice bob) (mset (messages demo)) = mset hist + rest \<and> length hist = 2 \<and>
    newest_first hist \<and> (\<forall>m \<in># rest. \<forall>h \<in> set hist. ts m \<le> ts h)"
proof -
  let ?t = "demo_task USER_HISTORY (alice_params\<lparr>p_user := ''bob'', p_count := 2\<rparr>)"
  have a: "authentic demo_crc ?t demo alice" by (rule demo_auth) simp_all
  have "sorted (map ts (messages demo))" by (simp add: demo_def demo_message_def)
  moreover have "size (filter_mset (between alice bob) (mset (messages demo))) = 5"
    by (simp add: demo_def demo_message_def between_def)
  ultimately show ?thesis
    using history_latest [OF demo_inv a _ demo_users(2), of demo_sort 20] by (simp add: demo_sort_ok)
qed

lemma login_refined_witness:
  "\<exists>u b. ok_body_user 20 u = Some b \<and> u \<in> set (users demo) \<and> user_name u = ''bob'' \<and>
    process_task demo_crc demo_sort 20 InMemoryConnection
      (demo_task USER_LOGIN (bob_params\<lparr>p_user := ''bob''\<rparr>)) demo = Some (demo, [SendOkResponse b])"
proof -
  have "accounts demo ''bob'' = Some ''10''" by (simp add: accounts_def demo_def)
  then show ?thesis
    using login_refined [OF demo_inv, of "demo_task USER_LOGIN (bob_params\<lparr>p_user := ''bob''\<rparr>)" 20 demo_crc demo_sort]
    by auto
qed

lemma accounts_refined_witness:
  "accounts (snd (createUser ''eve'' ''5'' ''localhost:3306'' demo)) ''eve'' = Some ''5''"
proof -
  let ?t = "demo_task USER_CREATE (no_params\<lparr>p_user := ''eve'', p_password := ''wrong''\<rparr>)"
  obtain u st acts where run: "process_task demo_crc demo_sort 20 InMemoryConnection ?t demo = Some (st, acts)"
    by (rule process_task_total)
  then have "st = snd (createUser ''eve'' ''5'' ''localhost:3306'' demo)"
    by (auto simp: process_task_def do_user_create_def ok_body_user_text split: prod.splits if_splits)
  with accounts_refined [OF run] show ?thesis
    by (simp add: account_spec_def accounts_def demo_def)
qed

lemma register_answer_witness:
  "process_task demo_crc demo_sort 20 InMemoryConnection
     (demo_task USER_CREATE (no_params\<lparr>p_user := ''bob'', p_password := ''wrong''\<rparr>)) demo =
   Some (demo, [SendErrorResponse 409 ERR_CONSTRAINT ''user already exists''])"
  using register_answer [OF demo_inv demo_room,
    of "demo_task USER_CREATE (no_params\<lparr>p_user := ''bob'', p_password := ''wrong''\<rparr>)" demo_crc demo_sort 20]
  by (simp add: dom_accounts demo_def)

lemma log_refined_witness:
  "map log_entry (messages (saveMessage (demo_message 1 2 20 ''again'') demo)) =
     map log_entry (messages demo) @ [(1, 2, 20, ''again'')]"
proof -
  let ?t = "demo_task MESSAGE_SEND (alice_params\<lparr>p_to_user := ''bob'', p_message := ''again''\<rparr>)"
  have a: "authentic demo_crc ?t demo alice" by (rule demo_auth) simp_all
  have run: "process_task demo_crc demo_sort 20 InMemoryConnection ?t demo =
      Some (saveMessage (demo_message 1 2 20 ''again'') demo, [SendOkResponse status_ok])"
    using send_run [OF demo_inv a _ demo_users(2), of demo_sort 20] by (simp add: demo_message_def)
  from log_refined [OF demo_inv run] a demo_users show ?thesis
    by (auto simp: sent_entries_def lookupUserByName_def demo_def)
qed

lemma send_then_poll_witness:
  "\<exists>st1 st2 msgs.
    process_task demo_crc demo_sort 20 InMemoryConnection
      (demo_task MESSAGE_SEND (alice_params\<lparr>p_to_user := ''bob'', p_message := ''again''\<rparr>)) demo =
      Some (st1, [SendOkResponse status_ok]) \<and>
    process_task demo_crc demo_sort 21 InMemoryConnection (demo_task IDLE (bob_params\<lparr>p_ts := 15\<rparr>)) st1 =
      Some (st2, [SendMessagesToIdleConn msgs]) \<and>
    \<lparr>am_ts = 20, am_from = ''alice'', am_to = ''bob'', am_msg = ''again''\<rparr> \<in> set msgs"
proof -
  let ?t1 = "demo_task MESSAGE_SEND (alice_params\<lparr>p_to_user := ''bob'', p_message := ''again''\<rparr>)"
  let ?t2 = "demo_task IDLE (bob_params\<lparr>p_ts := 15\<rparr>)"
  have a: "authentic demo_crc ?t1 demo alice" "authentic demo_crc ?t2 demo bob"
    by (rule demo_auth; simp)+
  from send_then_poll [OF demo_inv a(1) _ demo_users(2) _ a(2), of 20 demo_sort 21] show ?thesis by simp
qed

lemma team_named: "lookupChatByName ''team'' demo = [team]"
  by (simp add: lookupChatByName_def demo_def team_def)

lemma sendchat_then_poll_witness:
  "\<exists>st1 st2 msgs.
    process_task demo_crc demo_sort 20 InMemoryConnection
      (demo_task MESSAGE_SEND_CHAT (alice_params\<lparr>p_chat_name := ''team'', p_message := ''all''\<rparr>)) demo =
      Some (st1, [SendOkResponse status_ok]) \<and>
    process_task demo_crc demo_sort 21 InMemoryConnection (demo_task IDLE (bob_params\<lparr>p_ts := 15\<rparr>)) st1 =
      Some (st2, [SendMessagesToIdleConn msgs]) \<and>
    \<lparr>am_ts = 20, am_from = ''alice'', am_to = ''team'', am_msg = ''all''\<rparr> \<in> set msgs"
proof -
  let ?t1 = "demo_task MESSAGE_SEND_CHAT (alice_params\<lparr>p_chat_name := ''team'', p_message := ''all''\<rparr>)"
  let ?t2 = "demo_task IDLE (bob_params\<lparr>p_ts := 15\<rparr>)"
  have a: "authentic demo_crc ?t1 demo alice" "authentic demo_crc ?t2 demo bob"
    by (rule demo_auth; simp)+
  have "mk_chatuser (chat_id team) (user_id bob) \<in> set (chatuser demo)"
    by (simp add: demo_def team_def)
  from sendchat_then_poll [OF demo_inv a(1) _ _ this a(2), of 20 demo_sort 21] show ?thesis
    by (simp add: team_named) (simp add: team_def)
qed

lemma demo_poll:
  obtains st' where "process_task demo_crc demo_sort 20 InMemoryConnection (demo_task IDLE alice_params) demo =
    Some (st', [SendMessagesToIdleConn
      [\<lparr>am_ts = 11, am_from = ''bob'', am_to = ''alice'', am_msg = ''hi alice''\<rparr>]])"
proof -
  have a: "authentic demo_crc (demo_task IDLE alice_params) demo alice" by (rule demo_auth) simp_all
  have cs: "lookupChatsForUserId 1 demo = [mk_chat 1 ''alice'', team]"
    by (simp add: lookupChatsForUserId_def lookupChatById_def demo_def team_def)
  have new: "unseen 0 demo (mk_chat 1 ''alice'') = [demo_message 2 1 11 ''hi alice'']" "unseen 0 demo team = []"
    by (simp_all add: unseen_def wanted_def demo_def demo_message_def default_opt_def team_def)
  have "to_api_message InMemoryConnection demo (demo_message 2 1 11 ''hi alice'') =
      \<lparr>am_ts = 11, am_from = ''bob'', am_to = ''alice'', am_msg = ''hi alice''\<rparr>"
    by (simp add: to_api_message_def demo_message_def lookupUserById_def lookupChatById_def demo_def)
  with poll_run [OF demo_inv a, of demo_sort 20] cs new that show ?thesis
    by (auto simp: to_api_format_def poll_answer_def)
qed

lemma poll_private_witness:
  "\<exists>m \<in> set (messages demo). mk_chatuser (chat_to m) 1 \<in> set (chatuser demo) \<and> ts m > 0 \<and>
    \<lparr>am_ts = 11, am_from = ''bob'', am_to = ''alice'', am_msg = ''hi alice''\<rparr> =
      to_api_message InMemoryConnection demo m"
proof -
  have a: "authentic demo_crc (demo_task IDLE alice_params) demo alice" by (rule demo_auth) simp_all
  show ?thesis
    by (rule demo_poll) (use poll_private [OF demo_inv a] in force)
qed

lemma chat_create_answer_witness:
  "process_task demo_crc demo_sort 20 InMemoryConnection
     (demo_task CHAT_CREATE (alice_params\<lparr>p_chat_name := ''team''\<rparr>)) demo =
   Some (demo, [SendErrorResponse 409 ERR_CONSTRAINT ''chat already exists''])"
proof -
  let ?t = "demo_task CHAT_CREATE (alice_params\<lparr>p_chat_name := ''team''\<rparr>)"
  have a: "authentic demo_crc ?t demo alice" by (rule demo_auth) simp_all
  have "\<exists>c \<in> set (chats demo). chat_name c = ''team''" by (simp add: demo_def team_def)
  with chat_create_answer [OF demo_inv a, of demo_sort 20] show ?thesis by simp
qed

text \<open>Bob joins the private chat of Alice.\<close>

lemma adduser_any_chat_witness:
  "\<exists>st'. process_task demo_crc demo_sort 20 InMemoryConnection
      (demo_task CHAT_ADDUSER (bob_params\<lparr>p_chat_name := ''alice'', p_chat_adduser := ''bob''\<rparr>)) demo =
      Some (st', [SendOkResponse status_ok]) \<and> mk_chatuser 1 2 \<in> set (chatuser st')"
proof -
  let ?t = "demo_task CHAT_ADDUSER (bob_params\<lparr>p_chat_name := ''alice'', p_chat_adduser := ''bob''\<rparr>)"
  have a: "authentic demo_crc ?t demo bob" by (rule demo_auth) simp_all
  have "lookupChatByName ''alice'' demo = [mk_chat 1 ''alice'']"
    by (simp add: lookupChatByName_def demo_def team_def)
  with adduser_any_chat [OF demo_inv a _ demo_users(2), of "mk_chat 1 ''alice''" demo_sort 20] show ?thesis
    by auto
qed

lemma shadowed_chat_witness:
  "\<exists>st1 b. process_task demo_crc demo_sort 20 InMemoryConnection
      (demo_task USER_CREATE (no_params\<lparr>p_user := ''team'', p_password := ''wrong''\<rparr>)) demo =
      Some (st1, [SendOkResponse b]) \<and>
    process_task demo_crc demo_sort 21 InMemoryConnection
      (demo_task MESSAGE_SEND_CHAT (alice_params\<lparr>p_chat_name := ''team'', p_message := ''all''\<rparr>)) st1 =
      Some (st1, [SendErrorResponse 404 ERR_NOT_FOUND ''chat does not exist''])"
proof -
  let ?t1 = "demo_task USER_CREATE (no_params\<lparr>p_user := ''team'', p_password := ''wrong''\<rparr>)"
  let ?t2 = "demo_task MESSAGE_SEND_CHAT (alice_params\<lparr>p_chat_name := ''team'', p_message := ''all''\<rparr>)"
  have a: "authentic demo_crc ?t2 demo alice" by (rule demo_auth) simp_all
  have "''team'' \<notin> dom (accounts demo)" "team \<in> set (chats demo)" "chat_name team = ''team''"
    by (simp_all add: dom_accounts demo_def team_def)
  with shadowed_chat [OF demo_inv demo_room, of ?t1 team ?t2 demo_crc alice demo_sort 20 21] a show ?thesis
    by simp
qed

text \<open>Bob has four unseen messages; a first poll leaves out the oldest, and so does the next one.\<close>

lemma demo_next_poll:
  "case process_task demo_crc demo_sort 20 InMemoryConnection (demo_task IDLE bob_params) demo of
     Some (_, [SendMessagesToIdleConn msgs]) \<Rightarrow> max_timestamp msgs = 14 | _ \<Rightarrow> False"
  "map_option snd (process_task demo_crc demo_sort 22 InMemoryConnection (demo_task IDLE (bob_params\<lparr>p_ts := 14\<rparr>))
       (saveMessage (demo_message 1 2 21 ''later'') demo)) =
     Some [SendMessagesToIdleConn [\<lparr>am_ts = 21, am_from = ''alice'', am_to = ''bob'', am_msg = ''later''\<rparr>]]"
  by code_simp+

lemma poll_backlog_lost_witness:
  "\<exists>st' msgs st3 msgs2. process_task demo_crc demo_sort 20 InMemoryConnection (demo_task IDLE bob_params) demo =
      Some (st', [SendMessagesToIdleConn msgs]) \<and>
    to_api_message InMemoryConnection demo (demo_message 1 2 10 ''hi bob'') \<notin> set msgs \<and>
    process_task demo_crc demo_sort 22 InMemoryConnection (demo_task IDLE (bob_params\<lparr>p_ts := 14\<rparr>))
      (saveMessage (demo_message 1 2 21 ''later'') demo) = Some (st3, [SendMessagesToIdleConn msgs2]) \<and>
    msgs2 \<noteq> [] \<and> list_all (\<lambda>a. 10 < am_ts a) msgs2"
proof -
  let ?new = "[demo_message 2 1 11 ''hi alice'', demo_message 1 2 12 ''how are you'', demo_message 1 2 13 ''bye'', demo_message 1 2 14 ''now'']"
  let ?later = "demo_task IDLE (bob_params\<lparr>p_ts := 14\<rparr>)" and ?st2 = "saveMessage (demo_message 1 2 21 ''later'') demo"
  have a: "authentic demo_crc (demo_task IDLE bob_params) demo bob" by (rule demo_auth) simp_all
  have c: "mk_chat 2 ''bob'' \<in> set (lookupChatsForUserId (user_id bob) demo)"
    "\<forall>d \<in> set (lookupChatsForUserId (user_id bob) demo). chat_name d = chat_name (mk_chat 2 ''bob'') \<longrightarrow> d = mk_chat 2 ''bob''"
    by (simp_all add: lookupChatsForUserId_def lookupChatById_def demo_def team_def mk_chat_def mk_chatuser_def)
  have fields: "chat_to (demo_message a b t s) = b" "ts (demo_message a b t s) = t" for a b t s by (simp_all add: demo_message_def)
  have "messages demo = [] @ demo_message 1 2 10 ''hi bob'' # ?new" by (simp add: demo_def)
  from poll_backlog_lost [OF demo_inv a _ c this, of demo_sort 20] obtain st' msgs where run:
      "process_task demo_crc demo_sort 20 InMemoryConnection (demo_task IDLE bob_params) demo = Some (st', [SendMessagesToIdleConn msgs])"
      "to_api_message InMemoryConnection demo (demo_message 1 2 10 ''hi bob'') \<notin> set msgs"
    and late: "\<And>task2 st2 later st3 acts msgs2 a. t_cmd task2 = IDLE \<Longrightarrow> max_timestamp msgs \<le> p_ts (t_request task2) \<Longrightarrow> storage_inv st2 \<Longrightarrow>
      process_task demo_crc demo_sort later InMemoryConnection (task2 :: nat task) st2 = Some (st3, acts) \<Longrightarrow>
      SendMessagesToIdleConn msgs2 \<in> set acts \<Longrightarrow> a \<in> set msgs2 \<Longrightarrow> 10 < am_ts a"
    by (simp add: wanted_def fields default_opt_def mk_chat_def) blast
  have "storage_inv ?st2" by (rule saveMessage_inv [OF demo_inv]) (simp_all add: demo_rows mk_chat_def mk_user_def)
  moreover obtain st3 msgs2 where run2: "process_task demo_crc demo_sort 22 InMemoryConnection ?later ?st2 = Some (st3, [SendMessagesToIdleConn msgs2])"
      "map am_ts msgs2 = [21]"
    using demo_next_poll(2) by fastforce
  moreover have "max_timestamp msgs \<le> 14" using demo_next_poll(1) run(1) by simp
  ultimately have "10 < am_ts a" if "a \<in> set msgs2" for a
    using late [of ?later ?st2 22 st3 "[SendMessagesToIdleConn msgs2]" msgs2 a] that by simp
  moreover have "msgs2 \<noteq> []" using run2(2) by auto
  ultimately show ?thesis using run run2(1)
    by (intro exI [of _ st'] exI [of _ msgs] exI [of _ st3] exI [of _ msgs2]) (simp add: list_all_iff)
qed

lemma history_count_truncated_witness:
  "\<exists>hist. process_task demo_crc demo_sort 20 InMemoryConnection
      (demo_task USER_HISTORY (alice_params\<lparr>p_user := ''bob'', p_count := 2147483649\<rparr>)) demo =
      Some (demo, [SendMessages (to_api_format InMemoryConnection demo hist)]) \<and> length hist \<le> 4"
proof -
  let ?t = "demo_task USER_HISTORY (alice_params\<lparr>p_user := ''bob'', p_count := 2147483649\<rparr>)"
  have a: "authentic demo_crc ?t demo alice" by (rule demo_auth) simp_all
  from history_count_truncated [OF demo_inv a _ demo_users(2), of demo_sort 20] show ?thesis
    by (simp add: demo_sort_ok)
qed

lemma workers_keep_storage_witness:
  "\<exists>w. processQueue demo_crc demo_sort InMemoryConnection [1, 2]
      \<lparr>w_queue = fold push
         [demo_task USER_CREATE (no_params\<lparr>p_user := ''eve'', p_password := ''wrong''\<rparr>),
          demo_task IDLE alice_params] queue_new, w_db = empty_storage, w_sent = []\<rparr> = Some w \<and>
    storage_inv (w_db w) \<and> m_Queue (w_queue w) = []"
  using workers_keep_storage [of "[1, 2]" demo_crc demo_sort
    "[demo_task USER_CREATE (no_params\<lparr>p_user := ''eve'', p_password := ''wrong''\<rparr>), demo_task IDLE alice_params]"]
  by simp

lemma answers_in_order_witness:
  "\<exists>w. processQueue demo_crc demo_sort InMemoryConnection [1, 2]
      \<lparr>w_queue = fold push
         [demo_task USER_CREATE (no_params\<lparr>p_user := ''eve'', p_password := ''wrong''\<rparr>),
          demo_task USER_LOGIN (no_params\<lparr>p_user := ''eve'', p_password := ''wrong''\<rparr>)] queue_new,
        w_db = demo, w_sent = []\<rparr> = Some w \<and>
    m_Queue (w_queue w) = [] \<and> map fst (w_sent w) = [7, 7]"
  using answers_in_order [OF demo_inv, of
    "[demo_task USER_CREATE (no_params\<lparr>p_user := ''eve'', p_password := ''wrong''\<rparr>),
      demo_task USER_LOGIN (no_params\<lparr>p_user := ''eve'', p_password := ''wrong''\<rparr>)]" "[1, 2]" demo_crc demo_sort]
  by (simp add: chat_room_def demo_def answered_def)

end
