(* ===== verification/Answers.thy ===== *)
theory Answers
  imports Db_Worker Cli_Api
begin

text \<open>
  The types of the answers: which of the four calls a worker makes for which command, with
  which status, and that the body is a JSON object. This holds for every connection to a
  database that \<open>connection\<close> can describe.
\<close>

definition json_object :: "string \<Rightarrow> bool" where
  "json_object b \<longleftrightarrow> (\<exists>ms. Parse b = Inr (JObject ms))"

definition answer_typed :: "u64 \<Rightarrow> cmd_t \<Rightarrow> action \<Rightarrow> bool" where
  "answer_typed now cmd act \<longleftrightarrow>
     (case act of
        SendErrorResponse st c desc \<Rightarrow>
          st \<in> {403, 404, 409, 500} \<and> (\<exists>b. make_api_error c desc = Some b \<and> json_object b)
      | SendOkResponse b \<Rightarrow> cmd \<notin> {IDLE, USER_HISTORY} \<and> json_object b
      | SendMessages msgs \<Rightarrow> cmd = USER_HISTORY \<and> (\<exists>b. ok_body_msgs now msgs = Some b \<and> json_object b)
      | SendMessagesToIdleConn msgs \<Rightarrow> cmd = IDLE \<and> (\<exists>b. ok_body_msgs now msgs = Some b \<and> json_object b))"

lemma Parse_status_ok: "Parse status_ok = Inr (JObject [(''status'', JInt 0)])"
  by code_simp

lemma json_object_status: "json_object status_ok"
  by (simp add: json_object_def Parse_status_ok)

lemma json_object_bodies:
  "ok_body_user now u = Some b \<Longrightarrow> json_object b" "ok_body_chat now c = Some b \<Longrightarrow> json_object b"
  "ok_body_msgs now msgs = Some b \<Longrightarrow> json_object b"
  by (auto simp: json_object_def ok_body_user_text ok_body_chat_text ok_body_msgs_text emit_messages)

lemma json_object_error: "make_api_error e d = Some b \<Longrightarrow> json_object b"
  by (cases e) (auto simp: json_object_def make_api_error_text)

lemma typed_error [simp]: "answer_typed now cmd (SendErrorResponse st c desc) \<longleftrightarrow> st \<in> {403, 404, 409, 500}"
  using json_object_error by (auto simp: answer_typed_def make_api_error_text)

lemma typed_messages [simp]:
  "answer_typed now cmd (SendMessages msgs) \<longleftrightarrow> cmd = USER_HISTORY"
  "answer_typed now cmd (SendMessagesToIdleConn msgs) \<longleftrightarrow> cmd = IDLE"
  using json_object_bodies(3) by (auto simp: answer_typed_def ok_body_msgs_text)

lemma typed_ok [simp]: "answer_typed now cmd (SendOkResponse b) \<longleftrightarrow> cmd \<notin> {IDLE, USER_HISTORY} \<and> json_object b"
  by (simp add: answer_typed_def)

lemma check_pass_typed:
  "lookup_check_pass crc conn task st = (u, acts) \<Longrightarrow> act \<in> set acts \<Longrightarrow> answer_typed now cmd act"
  "lookup_check_pass_by_name crc conn n task f st = (u, acts) \<Longrightarrow> act \<in> set acts \<Longrightarrow> answer_typed now cmd act"
  by (auto simp: lookup_check_pass_def lookup_check_pass_by_name_def Let_def split: if_splits list.splits)

lemma ok_or_abort_typed:
  "ok_or_abort st body = Some (st', acts) \<Longrightarrow> act \<in> set acts \<Longrightarrow> \<exists>b. body = Some b \<and> act = SendOkResponse b"
  by (auto simp: ok_or_abort_def)

text \<open>
  (C34) Every answer of a worker, on every database connection, is one of the calls its
  command allows: messages to a waiting connection for the long poll only, a list of messages
  for the history only, a body otherwise, or an error with status 403, 404, 409 or 500; and
  what is written is a JSON object.
\<close>

theorem answers_typed:
  assumes "process_task crc srt now conn task st = Some (st', acts)" "act \<in> set acts"
  shows "answer_typed later (t_cmd task) act"
  using assms
  by (cases "t_cmd task")
    (auto simp: process_task_def task_defs Let_def json_object_status
      dest!: ok_or_abort_typed check_pass_typed json_object_bodies
      split: prod.splits if_splits list.splits)

end
