(* ===== verification/Wire_Demo.thy ===== *)
theory Wire_Demo
  imports Wire Demo Answers
begin

text \<open>
  The properties of the running server at work: the storage of \<open>Demo\<close> behind two
  connections, one waiting for a request and one in the long poll.
\<close>

definition demo_env :: env where
  "demo_env = \<lparr>e_pass_len = -1, e_inflate = (\<lambda>_. None), e_crc = demo_crc, e_sort = demo_sort, e_command = CMD_LAST\<rparr>"

lemma demo_env_simps [simp]:
  "e_pass_len demo_env = -1" "e_inflate demo_env = (\<lambda>_. None)" "e_crc demo_env = demo_crc"
  "e_sort demo_env = demo_sort" "e_command demo_env = CMD_LAST"
  by (simp_all add: demo_env_def)

text \<open>Bob's connection after \<open>/v1/idle\<close>, with this password.\<close>

definition demo_poll :: "string \<Rightarrow> session" where
  "demo_poll pw = (new_session CMD_LAST)\<lparr>s_read := None, s_timer := True,
     s_api := (new_api_client IDLE)\<lparr>m_RequestDetails :=
       \<lparr>d_params = bob_params\<lparr>p_password := pw\<rparr>, d_command = IDLE, d_resource = ''/v1/idle'', d_method = ''post''\<rparr>\<rparr>\<rparr>"

definition demo_system :: "string \<Rightarrow> nat system" where
  "demo_system pw = \<lparr>y_sessions = [7 \<mapsto> new_session CMD_LAST, 8 \<mapsto> demo_poll pw],
     y_workers = \<lparr>w_queue = \<lparr>m_Queue = []\<rparr>, w_db = demo, w_sent = []\<rparr>\<rparr>"

lemma demo_system_simps [simp]:
  "y_sessions (demo_system pw) 7 = Some (new_session CMD_LAST)"
  "y_sessions (demo_system pw) 8 = Some (demo_poll pw)"
  "m_Queue (w_queue (y_workers (demo_system pw))) = []" "w_db (y_workers (demo_system pw)) = demo"
  by (simp_all add: demo_system_def)

lemma demo_sessions [simp]:
  "ready (new_session c)" "polling (demo_poll pw)" "s_timer (demo_poll pw)" "\<not> s_timer (new_session c)"
  "d_params (m_RequestDetails (s_api (new_session c))) = no_params"
  "d_params (m_RequestDetails (s_api (demo_poll pw))) = bob_params\<lparr>p_password := pw\<rparr>"
  "d_command (m_RequestDetails (s_api (demo_poll pw))) = IDLE"
  "poll_ts (s_api (demo_poll pw)) = 0" "s_out (new_session c) = []" "s_out (demo_poll pw) = []"
  "s_writes (demo_poll pw) = []"
  by (simp_all add: ready_def polling_def new_session_def demo_poll_def new_api_client_def poll_ts_def
      bob_params_def no_params_def)

lemma demo_strings:
  "NUL \<notin> set ''carol''" "NUL \<notin> set ''password1''" "NUL \<notin> set ''secret12''" "NUL \<notin> set ''bob''" "NUL \<notin> set ''hello''"
  by (simp_all add: NUL_Char)

lemma demo_body: "\<exists>b. build_user_pass_body ''carol'' ''password1'' = Some b \<and> length b < 2 ^ 64"
proof -
  have c: "length (c_str s) < 100" if "length s < 100" for s using length_c_str [of s] that by simp
  have w: "length (WriteString s) < 2 ^ 60" if "length s < 100" for s using length_WriteString [of s] that by simp
  show ?thesis
    using w [of "''user''"] w [of "''password''"] w [OF c, of "''carol''"] w [OF c, of "''password1''"]
    by (simp add: build_user_pass_body_text serialize.simps serialize_members.simps)
qed

lemma demo_accounts [simp]: "''carol'' \<in> dom (accounts demo) \<longleftrightarrow> False"
  unfolding dom_accounts by (simp add: demo_def)

lemma register_over_the_wire_witness:
  "\<exists>segs y' u. length segs = 2 \<and>
    system_run demo_env (exchange 20 21 22 7 segs) (demo_system ''hunter2222'') = Some y' \<and>
    users (w_db (y_workers y')) = [alice, bob, u] \<and> user_name u = ''carol''"
proof -
  obtain b where b: "build_user_pass_body ''carol'' ''password1'' = Some b" "length b < 2 ^ 64"
    using demo_body by blast
  let ?r = "build_request (cmd2string USER_CREATE) ''application/json'' b"
  have pw: "password_check ''password1'' 8" by code_simp
  have "concat [take 7 ?r, drop 7 ?r] = ?r" by simp
  from register_over_the_wire [of "demo_system ''hunter2222''" 7 "new_session CMD_LAST" "''carol''" "''password1''"
      demo_env b "[take 7 ?r, drop 7 ?r]" 20 21 22 "\<lambda>_. None"] demo_inv demo_accounts demo_strings b pw this
  obtain y' u where "system_run demo_env (exchange 20 21 22 7 [take 7 ?r, drop 7 ?r]) (demo_system ''hunter2222'') = Some y'"
    "users (w_db (y_workers y')) = users demo @ [u]" "user_name u = ''carol''"
    by (auto simp del: append_take_drop_id)
  then show ?thesis by (intro exI [of _ "[take 7 ?r, drop 7 ?r]"] exI) (auto simp: demo_def)
qed

lemma server_keeps_storage_witness: "storage_inv (w_db (y_workers (empty_system :: nat system)))"
  using server_keeps_storage [OF reachable.start [of demo_env]] by simp

text \<open>A server with one connection.\<close>

definition one_connection :: "nat system" where
  "one_connection = empty_system\<lparr>y_sessions := [7 \<mapsto> new_session CMD_LAST]\<rparr>"

lemma one_connection_calm: "calm demo_env (Suc 0) one_connection"
proof -
  have "system_step demo_env empty_system one_connection"
    using system_step.accept [of empty_system 7 demo_env] by (simp add: empty_system_def one_connection_def)
  moreover have "no_poll one_connection" by (simp add: no_poll_def one_connection_def empty_system_def)
  ultimately show ?thesis by (rule calm.step [OF calm.start])
qed

lemma one_request_in_flight_witness:
  "in_flight (new_session CMD_LAST) (pending 7 one_connection) \<le> 1 \<and> \<not> s_overlap (new_session CMD_LAST)"
  by (rule one_request_in_flight [OF one_connection_calm]) (simp_all add: one_connection_def empty_system_def)

lemma group_history_hangs_witness:
  "\<exists>segs y' s'. system_run demo_env (segments 20 7 segs @ [(21, WorkerRound)]) (demo_system ''hunter2222'') = Some y' \<and>
    y_sessions y' 7 = Some s' \<and> closed s' (pending 7 y')"
proof -
  have short: "length (serialize (JObject [(''password'', JString ''x''), (''uid'', JInt 1)])) < 2 ^ 64"
    using length_WriteString [of "''password''"] length_WriteString [of "''x''"] length_WriteString [of "''uid''"]
      length_show_u64 [of 1]
    by (simp add: serialize.simps serialize_members.simps show_int_def)
  let ?b = "serialize (JObject [(''password'', JString ''x''), (''uid'', JInt 1)])"
  have x: "c_str ''x'' = ''x''" by (simp add: c_str_def NUL_Char)
  have "GetUint (JInt 1) = Some 1" by (simp add: GetUint_def IsUint_def)
  moreover have "Parse ?b = Inr (JObject [(''password'', JString ''x''), (''uid'', JInt 1)])"
    by (rule Parse_object) (simp add: NUL_Char)
  ultimately have meta: "parse_meta (-1) no_params ?b CHAT_HISTORY = Some (no_params\<lparr>p_password := ''x'', p_uid := 1\<rparr>, [])"
    using x by (simp add: parse_meta_def body_reads)
  let ?r = "build_request (cmd2string CHAT_HISTORY) ''application/json'' ?b"
  from group_history_hangs [of "demo_system ''hunter2222''" 7 "new_session CMD_LAST" "''application/json''" ?b "[?r]"
      demo_env "no_params\<lparr>p_password := ''x'', p_uid := 1\<rparr>" 20 21] short meta
  show ?thesis by simp blast
qed

lemma poll_wrong_password_witness:
  "\<exists>y' s'. system_run demo_env
      [(20, At 8 TimerExpired), (21, WorkerRound), (22, At 8 TimerExpired), (23, WorkerRound)] (demo_system ''wrong'') = Some y' \<and>
    y_sessions y' 8 = Some s' \<and> s_timer s' \<and> s_overlap s' \<and> length (s_writes s') = 2 \<and> w_db (y_workers y') = demo"
proof -
  have "\<forall>u \<in> set (users demo). user_id u = 2 \<longrightarrow> encrypted demo_crc ''wrong'' \<noteq> password u"
    by (simp add: demo_def)
  then show ?thesis
    using poll_wrong_password [of "demo_system ''wrong''" 8 "demo_poll ''wrong''" demo_env 20 21 22 23] demo_inv
    by (simp add: bob_params_def numeral_2_eq_2)
qed

lemma answers_typed_witness:
  "\<exists>b. process_task demo_crc demo_sort 20 InMemoryConnection
      (demo_task USER_LOGIN (bob_params\<lparr>p_user := ''bob''\<rparr>)) demo = Some (demo, [SendOkResponse b]) \<and>
    json_object b"
proof -
  obtain b where run: "process_task demo_crc demo_sort 20 InMemoryConnection
      (demo_task USER_LOGIN (bob_params\<lparr>p_user := ''bob''\<rparr>)) demo = Some (demo, [SendOkResponse b])"
    using login_run [OF demo_inv demo_users(2), of "demo_task USER_LOGIN (bob_params\<lparr>p_user := ''bob''\<rparr>)" demo_crc 20 demo_sort]
    by auto
  from answers_typed [OF run, of "SendOkResponse b"] run show ?thesis by simp
qed

end
