(* ===== verification/Cli_Input.thy ===== *)
theory Cli_Input
  imports Str_Utils
begin

text \<open>
  The command line of the console client, \<open>namespace input\<close> of
  \<open>client/src/apiclient_utils.cpp\<close>: the commands, the arguments \<open>args_t\<close>, the parser, and the
  regular expression that cuts the text of a message out of the line. The depth of the
  recursion of \<open>std::regex_match\<close>, which bounds the length of a line, is not modelled.
\<close>

section \<open>Commands\<close>

datatype input_cmd =
    I_NONE | I_HELP | I_UNCHAT | I_LOGIN | I_REGISTER_USER | I_REGISTER_GROUP | I_CHAT_WITH_USER | I_ADD_TO_GROUP
  | I_HISTORY_USER | I_HISTORY_GROUP | I_DIRECT_MSG_USER | I_DIRECT_MSG_GROUP | I_STATUS_USER | I_STATUS_GROUP | I_QUIT

fun input_cmd2string :: "input_cmd \<Rightarrow> string" where
  "input_cmd2string I_HELP = ''HELP''"
| "input_cmd2string I_UNCHAT = ''UNCHAT''"
| "input_cmd2string I_LOGIN = ''LOGIN''"
| "input_cmd2string I_REGISTER_USER = ''REGISTER''"
| "input_cmd2string I_REGISTER_GROUP = ''REGISTER_G''"
| "input_cmd2string I_CHAT_WITH_USER = ''CHAT_WITH''"
| "input_cmd2string I_ADD_TO_GROUP = ''ADD_TO_G''"
| "input_cmd2string I_HISTORY_USER = ''HISTORY''"
| "input_cmd2string I_HISTORY_GROUP = ''HISTORY_G''"
| "input_cmd2string I_DIRECT_MSG_USER = ''DIRECT_MSG''"
| "input_cmd2string I_DIRECT_MSG_GROUP = ''DIRECT_MSG_G''"
| "input_cmd2string I_STATUS_USER = ''STATUS''"
| "input_cmd2string I_STATUS_GROUP = ''STATUS_G''"
| "input_cmd2string I_QUIT = ''QUIT''"
| "input_cmd2string I_NONE = ''none''"

text \<open>\<open>args_t\<close> with its nested structs flattened.\<close>

record args_t =
  ar_cmd :: input_cmd
  ar_login_name :: string
  ar_login_pass :: string
  ar_reg_name :: string
  ar_reg_pass :: string
  ar_chat_name :: string
  ar_groupname :: string
  ar_username :: string
  ar_history_name :: string
  ar_history_count :: u64
  ar_direct_name :: string
  ar_direct_message :: string
  ar_status_name :: string

definition no_args :: args_t where
  "no_args = \<lparr>ar_cmd = I_NONE, ar_login_name = [], ar_login_pass = [], ar_reg_name = [], ar_reg_pass = [],
     ar_chat_name = [], ar_groupname = [], ar_username = [], ar_history_name = [], ar_history_count = 10,
     ar_direct_name = [], ar_direct_message = [], ar_status_name = []\<rparr>"

section \<open>The regular expression\<close>

text \<open>
  Greedy repetition with backtracking, as ECMAScript defines it: \<open>x*\<close> tries to go on with as
  many characters as it can and gives them back one by one; the continuation \<open>k\<close> is the rest
  of the expression.
\<close>

fun greedy_star :: "(char \<Rightarrow> bool) \<Rightarrow> (string \<Rightarrow> 'r option) \<Rightarrow> string \<Rightarrow> 'r option" where
  "greedy_star P k [] = k []"
| "greedy_star P k (c # cs) =
     (if P c then (case greedy_star P k cs of Some r \<Rightarrow> Some r | None \<Rightarrow> k (c # cs)) else k (c # cs))"

fun greedy_plus :: "(char \<Rightarrow> bool) \<Rightarrow> (string \<Rightarrow> 'r option) \<Rightarrow> string \<Rightarrow> 'r option" where
  "greedy_plus P k [] = None"
| "greedy_plus P k (c # cs) = (if P c then greedy_star P k cs else None)"

definition isword :: "char \<Rightarrow> bool" where
  "isword c \<longleftrightarrow> isdigit c \<or> isupper c \<or> islower c \<or> c = CHR ''_''"

text \<open>The dot matches everything but line ends.\<close>

definition isdot :: "char \<Rightarrow> bool" where
  "isdot c \<longleftrightarrow> c \<noteq> CHR 0x0A \<and> c \<noteq> CHR 0x0D"

definition match_rest :: "string \<Rightarrow> string option" where
  "match_rest s = (if list_all isdot s then Some s else None)"

text \<open>\<open>^\s*\w+\s*\w+\s*(.*)$\<close>, the captured text or the empty string.\<close>

definition get_msg_after_command :: "string \<Rightarrow> string" where
  "get_msg_after_command line =
     (case greedy_star isspace (greedy_plus isword (greedy_star isspace (greedy_plus isword
             (greedy_star isspace match_rest)))) line of
        Some str \<Rightarrow> str
      | None \<Rightarrow> [])"

section \<open>The parser\<close>

text \<open>\<open>history.count = std::stoi(...)\<close> with its exceptions swallowed; the \<open>int\<close> becomes a \<open>size_t\<close>.\<close>

definition history_count :: "string list \<Rightarrow> u64 \<Rightarrow> u64" where
  "history_count parts d =
     (if length parts > 2 then (case stoi (parts ! 2) of Inl _ \<Rightarrow> d | Inr n \<Rightarrow> word_of_int n) else d)"

text \<open>The commands of at least three words.\<close>

definition parse_three :: "string \<Rightarrow> string \<Rightarrow> string list \<Rightarrow> args_t" where
  "parse_three line cmd parts =
     (let ret = no_args in
      if length parts < 3 then ret
      else if cmd = ''login'' then
        ret\<lparr>ar_cmd := I_LOGIN, ar_login_name := parts ! 1, ar_login_pass := parts ! 2\<rparr>
      else if cmd = ''register'' then
        ret\<lparr>ar_cmd := I_REGISTER_USER, ar_reg_name := parts ! 1, ar_reg_pass := parts ! 2\<rparr>
      else if cmd = ''direct_msg'' then
        ret\<lparr>ar_cmd := I_DIRECT_MSG_USER, ar_direct_name := parts ! 1, ar_direct_message := get_msg_after_command line\<rparr>
      else if cmd = ''add_to_g'' then
        ret\<lparr>ar_cmd := I_ADD_TO_GROUP, ar_username := parts ! 1, ar_groupname := parts ! 2\<rparr>
      else if cmd = ''direct_msg_g'' then
        ret\<lparr>ar_cmd := I_DIRECT_MSG_GROUP, ar_direct_name := parts ! 1, ar_direct_message := get_msg_after_command line\<rparr>
      else ret)"

text \<open>\<open>split\<close> with its fixed delimiter always returns at least one part (\<open>split_parts_of\<close>).\<close>

definition parse_input :: "string \<Rightarrow> args_t" where
  "parse_input line =
     (let ret = no_args; parts = the (split line '' '') in
      if parts = [] then ret
      else
        let cmd = lowercased (parts ! 0) in
        if cmd = ''help'' then ret\<lparr>ar_cmd := I_HELP\<rparr>
        else if cmd = ''quit'' then ret\<lparr>ar_cmd := I_QUIT\<rparr>
        else if cmd = ''unchat'' then ret\<lparr>ar_cmd := I_UNCHAT\<rparr>
        else if length parts < 2 then ret
        else if cmd = ''chat_with'' then ret\<lparr>ar_cmd := I_CHAT_WITH_USER, ar_chat_name := parts ! 1\<rparr>
        else if cmd = ''register_g'' then ret\<lparr>ar_cmd := I_REGISTER_GROUP, ar_groupname := parts ! 1\<rparr>
        else if cmd = ''history'' then
          ret\<lparr>ar_cmd := I_HISTORY_USER, ar_history_name := parts ! 1,
              ar_history_count := history_count parts (ar_history_count ret)\<rparr>
        else if cmd = ''history_g'' then
          ret\<lparr>ar_cmd := I_HISTORY_GROUP, ar_history_name := parts ! 1,
              ar_history_count := history_count parts (ar_history_count ret)\<rparr>
        else if cmd = ''status'' then ret\<lparr>ar_cmd := I_STATUS_USER, ar_status_name := parts ! 1\<rparr>
        else if cmd = ''status_g'' then ret\<lparr>ar_cmd := I_STATUS_GROUP, ar_status_name := parts ! 1\<rparr>
        else parse_three line cmd parts)"

section \<open>The expression without backtracking\<close>

text \<open>A matcher that scans the line once.\<close>

definition scan_rest :: "string \<Rightarrow> string" where
  "scan_rest d = (if list_all isdot d then d else [])"

definition scan_msg :: "string \<Rightarrow> string" where
  "scan_msg line =
     (let a = dropWhile isspace line; w = takeWhile isword a; c = dropWhile isspace (dropWhile isword a) in
      if w = [] then []
      else if c \<noteq> [] \<and> isword (hd c) then scan_rest (dropWhile isspace (dropWhile isword c))
      else if 2 \<le> length w then scan_rest c else [])"

lemma greedy_star_Some: "k (dropWhile P s) = Some r \<Longrightarrow> greedy_star P k s = Some r"
  by (induction s) auto

lemma greedy_star_None:
  "(\<And>w. list_all P w \<Longrightarrow> k (w @ dropWhile P s) = None) \<Longrightarrow> greedy_star P k s = None"
proof (induction s)
  case Nil
  from Nil [of "[]"] show ?case by simp
next
  case (Cons c s)
  show ?case
  proof (cases "P c")
    case True
    then have "k (w @ dropWhile P s) = None" if "list_all P w" for w using Cons.prems [OF that] by simp
    from Cons.IH [OF this] have "greedy_star P k s = None" .
    moreover have "list_all P (c # takeWhile P s)" using True set_takeWhileD [of _ P s] by (auto simp: list_all_iff)
    then have "k (c # s) = None" using Cons.prems [of "c # takeWhile P s"] True by simp
    ultimately show ?thesis using True by simp
  next
    case False
    with Cons.prems [of "[]"] show ?thesis by simp
  qed
qed

lemma greedy_star_second:
  assumes "k (dropWhile P s) = None" "\<And>x. P x \<Longrightarrow> k (x # dropWhile P s) = Some r" "takeWhile P s \<noteq> []"
  shows "greedy_star P k s = Some r"
  using assms
proof (induction s)
  case (Cons c s)
  then have c: "P c" by (auto split: if_splits)
  show ?case
  proof (cases "takeWhile P s = []")
    case True
    then have s: "dropWhile P s = s" by (cases s) (auto split: if_splits)
    have "greedy_star P k s = k s" using True by (cases s) (auto split: if_splits)
    with Cons.prems c s show ?thesis by simp
  next
    case False
    with Cons c show ?thesis by simp
  qed
qed simp

lemma word_not_space: "isword c \<Longrightarrow> \<not> isspace c"
  by (auto simp: isword_def isdigit_def isupper_def islower_def isspace_def)

lemma dropWhile_word: "list_all isword w \<Longrightarrow> w \<noteq> [] \<Longrightarrow> dropWhile isspace (w @ s) = w @ s"
  by (cases w) (auto simp: word_not_space)

abbreviation ends_line :: "string \<Rightarrow> string option" where
  "ends_line s \<equiv> greedy_star isspace match_rest s"

lemma ends_line: "ends_line s = match_rest (dropWhile isspace s)"
proof (cases "match_rest (dropWhile isspace s)")
  case None
  then have "match_rest (w @ dropWhile isspace s) = None" for w by (auto simp: match_rest_def split: if_splits)
  with None greedy_star_None show ?thesis by metis
qed (simp add: greedy_star_Some)

abbreviation second_word :: "string \<Rightarrow> string option" where
  "second_word s \<equiv> greedy_plus isword (greedy_star isspace match_rest) s"

lemma second_word:
  "second_word s = (if s \<noteq> [] \<and> isword (hd s) then match_rest (dropWhile isspace (dropWhile isword s)) else None)"
proof (cases s)
  case (Cons c cs)
  show ?thesis
  proof (cases "isword c")
    case True
    show ?thesis
    proof (cases "match_rest (dropWhile isspace (dropWhile isword cs))")
      case None
      have "ends_line (w @ dropWhile isword cs) = None" if "list_all isword w" for w
        using None that dropWhile_word [OF that, of "dropWhile isword cs"]
        by (cases "w = []") (auto simp: ends_line match_rest_def list_all_iff split: if_splits dest: set_dropWhileD)
      then show ?thesis using Cons True None greedy_star_None by auto
    next
      case (Some r)
      then have "ends_line (dropWhile isword cs) = Some r" by (simp add: ends_line)
      with Cons True Some greedy_star_Some show ?thesis by auto
    qed
  qed (use Cons in simp)
qed simp

lemma skip_space:
  assumes "\<And>c s. isspace c \<Longrightarrow> k (c # s) = None"
  shows "greedy_star isspace k s = k (dropWhile isspace s)"
proof (cases "k (dropWhile isspace s)")
  case None
  have "k (w @ dropWhile isspace s) = None" if "list_all isspace w" for w
    using that None assms by (cases w) auto
  with None greedy_star_None show ?thesis by metis
qed (simp add: greedy_star_Some)

lemma plus_no_space: "isspace c \<Longrightarrow> greedy_plus isword k (c # s) = None"
  using word_not_space by auto

abbreviation gap :: "string \<Rightarrow> string option" where
  "gap s \<equiv> greedy_star isspace (greedy_plus isword (greedy_star isspace match_rest)) s"

lemma gap: "gap s = second_word (dropWhile isspace s)"
  by (rule skip_space) (rule plus_no_space)

lemma gap_word: "isword x \<Longrightarrow> gap (x # s) = match_rest (dropWhile isspace (dropWhile isword s))"
  using word_not_space by (auto simp: gap second_word simp del: greedy_plus.simps)

lemma message_regex_run: "get_msg_after_command line = scan_msg line"
proof -
  define a where "a = dropWhile isspace line"
  define b where "b = dropWhile isword a"
  define c where "c = dropWhile isspace b"
  have drop_b: "dropWhile isword b = b" unfolding b_def by simp
  have get: "get_msg_after_command line = (case greedy_plus isword gap a of Some str \<Rightarrow> str | None \<Rightarrow> [])"
    unfolding get_msg_after_command_def a_def by (subst skip_space) (rule plus_no_space, simp_all)
  have scan: "scan_msg line = (if takeWhile isword a = [] then []
      else if c \<noteq> [] \<and> isword (hd c) then scan_rest (dropWhile isspace (dropWhile isword c))
      else if 2 \<le> length (takeWhile isword a) then scan_rest c else [])"
    by (simp only: scan_msg_def Let_def a_def b_def c_def)
  have rest: "(case match_rest d of Some str \<Rightarrow> str | None \<Rightarrow> []) = scan_rest d" for d
    by (simp add: match_rest_def scan_rest_def)
  show ?thesis
  proof (cases "takeWhile isword a = []")
    case True
    then have "greedy_plus isword gap a = None" by (cases a) (auto split: if_splits)
    with True get show ?thesis by (simp add: scan)
  next
    case False
    then obtain x s where a: "a = x # s" "isword x" by (cases a) (auto split: if_splits)
    then have b: "b = dropWhile isword s" by (simp add: b_def)
    have run: "greedy_plus isword gap a = greedy_star isword gap s" using a by simp
    show ?thesis
    proof (cases "gap b")
      case (Some r)
      then have c: "c \<noteq> []" "isword (hd c)" "match_rest (dropWhile isspace (dropWhile isword c)) = Some r"
        by (auto simp: gap second_word c_def split: if_splits)
      have "greedy_star isword gap s = Some r" using greedy_star_Some [of gap isword s r] Some b by simp
      then show ?thesis using c False get run scan rest [of "dropWhile isspace (dropWhile isword c)"] by simp
    next
      case None
      have other: "gap (x # w @ b) = match_rest c" if "isword x" "list_all isword w" for x w
      proof -
        have "dropWhile isword (w @ b) = b" using that(2) drop_b by (simp add: dropWhile_append list_all_iff)
        with gap_word [OF that(1)] show ?thesis by (simp add: c_def)
      qed
      have none: "greedy_star isword gap s = None" if "match_rest c = None"
      proof (rule greedy_star_None)
        fix w assume "list_all isword w"
        then show "gap (w @ dropWhile isword s) = None"
          using None other that unfolding b [symmetric] by (cases w) auto
      qed
      show ?thesis
      proof (cases "c \<noteq> [] \<and> isword (hd c)")
        case True
        then have "match_rest (dropWhile isspace (dropWhile isword c)) = None" using None by (simp add: gap second_word flip: c_def)
        moreover from this have "match_rest c = None"
          by (auto simp: match_rest_def list_all_iff split: if_splits dest!: set_dropWhileD)
        ultimately show ?thesis
          using True False none get run scan rest [of "dropWhile isspace (dropWhile isword c)"] by simp
      next
        case no_word: False
        show ?thesis
        proof (cases "takeWhile isword s = []")
          case True
          then have "s = b" unfolding b by (cases s) (auto split: if_splits)
          moreover have "greedy_star isword gap s = gap s" using True by (cases s) (auto split: if_splits)
          ultimately have "greedy_star isword gap s = None" using None by simp
          moreover have "length (takeWhile isword a) = 1" using a True by simp
          ultimately show ?thesis using no_word False get run scan by auto
        next
          case two: False
          then have "2 \<le> length (takeWhile isword a)" using a by (cases "takeWhile isword s") simp_all
          moreover have "greedy_star isword gap s = match_rest c"
          proof (cases "match_rest c")
            case (Some r)
            then have "gap (x # b) = Some r" if "isword x" for x using other [OF that, of "[]"] by simp
            with greedy_star_second [of gap isword s r] None two b Some show ?thesis by simp
          qed (simp add: none)
          ultimately show ?thesis using no_word False get run scan rest [of c] by auto
        qed
      qed
    qed
  qed
qed

text \<open>
  (C35) The regular expression that cuts the text out of a command line, with its greedy
  repetitions and their backtracking, gives on every line what a matcher that scans the line
  once gives: all after the second word, or, when a line has one word and other text follows,
  that text.
\<close>

theorem message_regex: "get_msg_after_command line = scan_msg line"
  by (rule message_regex_run)

section \<open>Command lines\<close>

text \<open>A name or a password that the parser reads back: no blank in it.\<close>

definition blank_free :: "string \<Rightarrow> bool" where
  "blank_free s \<longleftrightarrow> CHR '' '' \<notin> set s"

definition command_line :: "string list \<Rightarrow> string" where
  "command_line ws = join ws '' ''"

lemma split_command_line: "ws \<noteq> [] \<Longrightarrow> \<forall>w \<in> set ws. blank_free w \<Longrightarrow> split (command_line ws) '' '' = Some ws"
  using parts_of_join [of ws "CHR '' ''"] by (simp add: command_line_def split_parts_of blank_free_def)

lemma lowercased_words [simp]:
  "lowercased ''LOGIN'' = ''login''" "lowercased ''REGISTER'' = ''register''" "lowercased ''REGISTER_G'' = ''register_g''"
  "lowercased ''CHAT_WITH'' = ''chat_with''" "lowercased ''ADD_TO_G'' = ''add_to_g''" "lowercased ''HISTORY'' = ''history''"
  "lowercased ''STATUS'' = ''status''" "lowercased ''DIRECT_MSG'' = ''direct_msg''" "lowercased ''DIRECT_MSG_G'' = ''direct_msg_g''"
  by code_simp+

lemma command_words_blank_free [simp]:
  "blank_free ''LOGIN''" "blank_free ''REGISTER''" "blank_free ''REGISTER_G''" "blank_free ''CHAT_WITH''"
  "blank_free ''ADD_TO_G''" "blank_free ''HISTORY''" "blank_free ''STATUS''"
  by (simp_all add: blank_free_def)

lemma show_nat_blank_free [simp]: "blank_free (show_nat n)"
  using show_nat_digits [of n] by (auto simp: blank_free_def isdigit_def)

text \<open>
  The command lines for logging in, registration of users and groups, chat mode,
  membership, history and status, built from arguments without blanks, are parsed into the
  command and those arguments; the count of a history is the number written.
\<close>

theorem commands_parsed:
  assumes "blank_free a" "blank_free b" "n < 2 ^ 31"
  shows "parse_input (command_line [''LOGIN'', a, b]) =
      no_args\<lparr>ar_cmd := I_LOGIN, ar_login_name := a, ar_login_pass := b\<rparr> \<and>
    parse_input (command_line [''REGISTER'', a, b]) =
      no_args\<lparr>ar_cmd := I_REGISTER_USER, ar_reg_name := a, ar_reg_pass := b\<rparr> \<and>
    parse_input (command_line [''REGISTER_G'', a]) = no_args\<lparr>ar_cmd := I_REGISTER_GROUP, ar_groupname := a\<rparr> \<and>
    parse_input (command_line [''CHAT_WITH'', a]) = no_args\<lparr>ar_cmd := I_CHAT_WITH_USER, ar_chat_name := a\<rparr> \<and>
    parse_input (command_line [''ADD_TO_G'', a, b]) =
      no_args\<lparr>ar_cmd := I_ADD_TO_GROUP, ar_username := a, ar_groupname := b\<rparr> \<and>
    parse_input (command_line [''HISTORY'', a]) = no_args\<lparr>ar_cmd := I_HISTORY_USER, ar_history_name := a\<rparr> \<and>
    parse_input (command_line [''HISTORY'', a, show_nat n]) =
      no_args\<lparr>ar_cmd := I_HISTORY_USER, ar_history_name := a, ar_history_count := of_nat n\<rparr> \<and>
    parse_input (command_line [''STATUS'', a]) = no_args\<lparr>ar_cmd := I_STATUS_USER, ar_status_name := a\<rparr>"
  using assms
  by (simp add: parse_input_def split_command_line parse_three_def history_count_def stoi_show_nat)

text \<open>The text of a direct message: everything after the name, as far as it is on one line.\<close>

definition word_of_name :: "string \<Rightarrow> bool" where
  "word_of_name w \<longleftrightarrow> w \<noteq> [] \<and> list_all isword w"

lemma scan_words:
  assumes "word_of_name v" "word_of_name w" "m \<noteq> []" "\<not> isspace (hd m)"
  shows "scan_msg (v @ CHR '' '' # w @ CHR '' '' # m) = scan_rest m"
proof -
  have s: "isspace (CHR '' '')" "\<not> isword (CHR '' '')" by code_simp+
  have v: "dropWhile isspace (v @ x) = v @ x" "takeWhile isword (v @ CHR '' '' # x) = v"
    "dropWhile isword (v @ CHR '' '' # x) = CHR '' '' # x" for x
    using assms(1) s dropWhile_word [of v x]
    by (auto simp: word_of_name_def takeWhile_append dropWhile_append list_all_iff)
  have w: "dropWhile isspace (w @ x) = w @ x" "dropWhile isword (w @ CHR '' '' # x) = CHR '' '' # x"
    "w \<noteq> []" "isword (hd w)" for x
    using assms(2) s dropWhile_word [of w x]
    by (auto simp: word_of_name_def dropWhile_append list_all_iff)
  have m: "dropWhile isspace m = m" using assms(3,4) by (cases m) auto
  have "v \<noteq> []" using assms(1) by (simp add: word_of_name_def)
  with s v w m show ?thesis by (simp add: scan_msg_def Let_def)
qed

theorem direct_message_parsed:
  assumes "word_of_name name" "m \<noteq> []" "\<not> isspace (hd m)" "list_all isdot m"
  shows "parse_input (''DIRECT_MSG '' @ name @ '' '' @ m) =
      no_args\<lparr>ar_cmd := I_DIRECT_MSG_USER, ar_direct_name := name, ar_direct_message := m\<rparr> \<and>
    parse_input (''DIRECT_MSG_G '' @ name @ '' '' @ m) =
      no_args\<lparr>ar_cmd := I_DIRECT_MSG_GROUP, ar_direct_name := name, ar_direct_message := m\<rparr>"
proof -
  have name: "CHR '' '' \<notin> set name"
    using assms(1) by (auto simp: word_of_name_def list_all_iff isword_def isdigit_def isupper_def islower_def)
  have parts: "\<exists>ws. ws \<noteq> [] \<and> split (c @ CHR '' '' # name @ CHR '' '' # m) '' '' = Some (c # name # ws)"
    if "CHR '' '' \<notin> set c" for c
    using find_off_char [of "CHR '' ''" c "name @ CHR '' '' # m"] find_off_char [of "CHR '' ''" name m] that name
    by (simp add: split_parts_of) (subst parts_of.simps, simp, subst parts_of.simps, simp)
  have w: "word_of_name ''DIRECT_MSG''" "word_of_name ''DIRECT_MSG_G''" by code_simp+
  have msg: "get_msg_after_command (''DIRECT_MSG'' @ CHR '' '' # name @ CHR '' '' # m) = m"
    "get_msg_after_command (''DIRECT_MSG_G'' @ CHR '' '' # name @ CHR '' '' # m) = m"
    using scan_words [OF w(1) assms(1-3)] scan_words [OF w(2) assms(1-3)] assms(4)
    by (simp_all add: message_regex_run scan_rest_def)
  obtain ws1 where 1: "ws1 \<noteq> []" "split (''DIRECT_MSG'' @ CHR '' '' # name @ CHR '' '' # m) '' '' = Some (''DIRECT_MSG'' # name # ws1)"
    using parts [of "''DIRECT_MSG''"] by auto
  obtain ws2 where 2: "ws2 \<noteq> []" "split (''DIRECT_MSG_G'' @ CHR '' '' # name @ CHR '' '' # m) '' '' = Some (''DIRECT_MSG_G'' # name # ws2)"
    using parts [of "''DIRECT_MSG_G''"] by auto
  have "\<not> length (x # y # ws) < 3" if "ws \<noteq> []" for x y :: string and ws using that by (cases ws) simp_all
  with 1 2 msg show ?thesis by (simp add: parse_input_def parse_three_def Let_def)
qed

lemma commands_parsed_witness:
  "parse_input (command_line [''HISTORY'', ''bob'', show_nat 5]) =
    no_args\<lparr>ar_cmd := I_HISTORY_USER, ar_history_name := ''bob'', ar_history_count := 5\<rparr>"
  using commands_parsed [of "''bob''" "''secret12''" 5] by (simp add: blank_free_def)

lemma direct_message_parsed_witness:
  "parse_input ''DIRECT_MSG bob hi there'' =
    no_args\<lparr>ar_cmd := I_DIRECT_MSG_USER, ar_direct_name := ''bob'', ar_direct_message := ''hi there''\<rparr>"
proof -
  have "word_of_name ''bob''" "\<not> isspace (hd ''hi there'')" "list_all isdot ''hi there''" by code_simp+
  with direct_message_parsed [of "''bob''" "''hi there''"] show ?thesis by simp
qed

text \<open>A name with another character leaks into the text; a negative count becomes a huge one.\<close>

lemma message_with_name: "get_msg_after_command ''DIRECT_MSG bob-x hello'' = ''-x hello''"
  by (simp add: message_regex_run) code_simp

lemma negative_history_count: "ar_history_count (parse_input ''HISTORY bob -1'') = - 1"
proof -
  have "split ''HISTORY bob -1'' '' '' = Some [''HISTORY'', ''bob'', ''-1'']"
    using split_command_line [of "[''HISTORY'', ''bob'', ''-1'']"] by (simp add: command_line_def join_def blank_free_def)
  moreover have "stoi ''-1'' = Inr (- 1)" by code_simp
  ultimately show ?thesis by (simp add: parse_input_def history_count_def no_args_def)
qed

end
