(* ===== verification/Cli_Client.thy ===== *)
theory Cli_Client
  imports Cli_Input Http_Messages Lock_Queue
begin

text \<open>
  The console client: \<open>Client\<close> of \<open>client/src/client.cpp\<close>, the loop of \<open>ConsoleUi\<close> that reads
  lines (\<open>ui.cpp\<close>) and the queue of \<open>EventsWorker\<close> between the two (\<open>event_worker.cpp\<close>). What a
  handler starts is an effect: a line on the console, a request or a read on the connection
  for commands (\<open>m_Http\<close>) or on the one for the long poll (\<open>m_HttpIdle\<close>), a connect, a wait.
  A result \<open>None\<close> is a failed \<open>RAPIDJSON_ASSERT\<close> on an answer of the server.
\<close>

section \<open>State and effects\<close>

datatype mode_t = USUAL | CHAT_U | CHAT_G

record client =
  k_state_user :: string
  k_state_mode :: mode_t
  k_Host :: string
  k_Port :: int
  k_IdleState :: bool
  k_IdleOpen :: bool
  k_LastCmd :: input_cmd
  k_User :: string
  k_Password :: string
  k_SelfId :: u64
  k_SelfChatId :: u64
  k_HeartBit :: u64

definition new_client :: "string \<Rightarrow> int \<Rightarrow> string \<Rightarrow> string \<Rightarrow> client" where
  "new_client host port user pass = \<lparr>k_state_user = [], k_state_mode = USUAL, k_Host = host, k_Port = port,
     k_IdleState = False, k_IdleOpen = False, k_LastCmd = I_NONE, k_User = user, k_Password = pass,
     k_SelfId = 0, k_SelfChatId = 0, k_HeartBit = 0\<rparr>"

text \<open>\<open>ui::Message\<close>.\<close>

record ui_message =
  um_from :: string
  um_to :: string
  um_message :: string

datatype cli_effect =
    ShowLine string
  | ShowMessage ui_message
  | HttpRequest string
  | HttpResponse
  | HttpConnect
  | NewHttp
  | IdleRequest string
  | IdleResponse
  | IdleConnect
  | NewIdle
  | CancelTimeout
  | SleepMs nat
  | Interrupt

type_synonym reaction = "(client \<times> cli_effect list) option"

definition newline :: string where
  "newline = [CHR 0x0A]"

definition help_text :: string where
  "help_text =
     ''Commands are:'' @ newline @
     ''   HELP'' @ newline @
     ''   LOGIN <user> <pass>'' @ newline @
     ''   REGISTER <user> <pass>'' @ newline @
     ''   REGISTER_G <group>'' @ newline @
     ''   CHAT_WITH <user>'' @ newline @
     ''   ADD_TO_G <user> <group>'' @ newline @
     ''   UNCHAT'' @ newline @
     ''   HISTORY <user> [N]'' @ newline @
     ''   HISTORY_G <group> [N]'' @ newline @
     ''   DIRECT_MSG <user> <msg>'' @ newline @
     ''   DIRECT_MSG_G <group> <msg>'' @ newline @
     ''   STATUS <user>'' @ newline @
     ''   STATUS_G <group>'' @ newline @
     ''   QUIT'' @ newline"

section \<open>Lines of the user\<close>

text \<open>The recurring block: build the request around a body and send it.\<close>

definition sendRequest :: "input_cmd \<Rightarrow> string \<Rightarrow> client \<Rightarrow> reaction" where
  "sendRequest cmd req k = Some (k\<lparr>k_LastCmd := cmd\<rparr>, [HttpRequest req])"

definition send_body :: "input_cmd \<Rightarrow> cmd_t \<Rightarrow> string option \<Rightarrow> client \<Rightarrow> reaction" where
  "send_body cmd api_cmd body k =
     (case body of
        None \<Rightarrow> None
      | Some b \<Rightarrow> sendRequest cmd (build_request (cmd2string api_cmd) ''application/json'' b) k)"

definition onCommand :: "args_t \<Rightarrow> client \<Rightarrow> reaction" where
  "onCommand args k =
     (case ar_cmd args of
        I_NONE \<Rightarrow> Some (k, [ShowLine (''unrecognized command. type '' @ [CHR 0x22] @ ''HELP'' @ [CHR 0x22] @ '' for help'')])
      | I_UNCHAT \<Rightarrow>
          Some (k\<lparr>k_state_mode := USUAL, k_state_user := []\<rparr>, [ShowLine ''switch to usual mode''])
      | I_QUIT \<Rightarrow> Some (k, [ShowLine ''Bye! Client will exit NOW'', Interrupt])
      | I_HELP \<Rightarrow> Some (k, [ShowLine help_text])
      | I_REGISTER_USER \<Rightarrow>
          send_body I_REGISTER_USER USER_CREATE (build_user_pass_body (ar_reg_name args) (ar_reg_pass args)) k
      | I_LOGIN \<Rightarrow>
          map_option (\<lambda>(k, es). (k\<lparr>k_Password := ar_login_pass args\<rparr>, es))
            (send_body I_LOGIN USER_LOGIN (build_user_pass_body (ar_login_name args) (ar_login_pass args)) k)
      | I_DIRECT_MSG_USER \<Rightarrow>
          send_body I_DIRECT_MSG_USER MESSAGE_SEND
            (build_user_send_msg_body (k_SelfId k) 0 (ar_direct_name args) (ar_direct_message args) (k_Password k)) k
      | I_HISTORY_USER \<Rightarrow>
          send_body I_HISTORY_USER USER_HISTORY
            (build_user_history_msg_body (k_SelfId k) (ar_history_name args) (ar_history_count args) (k_Password k)) k
      | I_STATUS_USER \<Rightarrow>
          send_body I_STATUS_USER USER_STATUS
            (build_user_history_msg_body (k_SelfId k) (ar_status_name args) 0 (k_Password k)) k
      | I_CHAT_WITH_USER \<Rightarrow>
          Some (k\<lparr>k_state_mode := CHAT_U, k_state_user := ar_chat_name args\<rparr>,
            [ShowLine (''chat with: '' @ ar_chat_name args)])
      | I_REGISTER_GROUP \<Rightarrow>
          send_body I_REGISTER_GROUP CHAT_CREATE
            (build_groups_msg_body (k_SelfId k) (ar_groupname args) [] [] (k_Password k)) k
      | I_ADD_TO_GROUP \<Rightarrow>
          send_body I_ADD_TO_GROUP CHAT_ADDUSER
            (build_groups_msg_body (k_SelfId k) (ar_groupname args) (ar_username args) [] (k_Password k)) k
      | I_DIRECT_MSG_GROUP \<Rightarrow>
          send_body I_DIRECT_MSG_GROUP MESSAGE_SEND_CHAT
            (build_groups_msg_body (k_SelfId k) (ar_direct_name args) [] (ar_direct_message args) (k_Password k)) k
      | _ \<Rightarrow> Some (k, [ShowLine ''unsupported command'']))"

definition onUserInput :: "string \<Rightarrow> client \<Rightarrow> reaction" where
  "onUserInput msg k =
     (let args = parse_input msg in
      if msg \<noteq> [] \<and> k_state_mode k = CHAT_U \<and> \<not> (ar_cmd args = I_UNCHAT \<or> ar_cmd args = I_DIRECT_MSG_USER)
      then send_body I_DIRECT_MSG_USER MESSAGE_SEND
             (build_user_send_msg_body (k_SelfId k) 0 (k_state_user k) msg (k_Password k)) k
      else onCommand args k)"

section \<open>The connection for commands\<close>

definition onHttpConnect :: "conn_error option \<Rightarrow> client \<Rightarrow> reaction" where
  "onHttpConnect e k =
     (if e \<noteq> None then Some (k, [SleepMs 1000, HttpConnect])
      else
        let shown = ShowLine (''connected to server: '' @ k_Host k @ '':'' @ show_int (k_Port k)) in
        if k_User k \<noteq> [] \<and> k_Password k \<noteq> [] then
          map_option (\<lambda>(k, es). (k, shown # es))
            (send_body I_LOGIN USER_LOGIN (build_user_pass_body (k_User k) (k_Password k)) k)
        else Some (k, [shown]))"

definition onHttpWrite :: "conn_error option \<Rightarrow> client \<Rightarrow> client \<times> cli_effect list" where
  "onHttpWrite error k = (if error \<noteq> None then (k, [CancelTimeout]) else (k, [HttpResponse]))"

definition show_response :: "msg_response_t \<Rightarrow> cli_effect" where
  "show_response r = ShowMessage \<lparr>um_from = am_from r, um_to = am_to r, um_message = am_msg r\<rparr>"

text \<open>The list of messages in a body, for the history and for the long poll.\<close>

definition show_messages :: "string \<Rightarrow> cli_effect list option" where
  "show_messages body =
     (case parse_msg_response body [] of
        None \<Rightarrow> None
      | Some (rs, err) \<Rightarrow> Some (if err \<noteq> [] then [ShowLine (''error: '' @ err)] else map show_response rs))"

definition status_line :: "response_t \<Rightarrow> string" where
  "status_line r =
     (let last_online = (if r_heartbit r < r_server_ts r then r_server_ts r - r_heartbit r else 0)
      in if last_online < 5 then ''user online''
         else ''user was online at about '' @ show_nat (unat last_online) @ '' sceonds ago'')"

definition onHttpRead :: "http_result \<Rightarrow> client \<Rightarrow> reaction" where
  "onHttpRead res k =
     (case res of (error, reply) \<Rightarrow>
        map_option (\<lambda>(k, es). (k, CancelTimeout # es))
         (if error \<noteq> None then Some (k, [NewHttp, HttpConnect])
          else if h_status reply \<noteq> 200 then
            Some (k, [ShowLine (show_int (h_status reply)), ShowLine (h_body reply)])
          else
            map_option (\<lambda>(k, es). (k, ShowLine ''200 OK'' # es))
             (case k_LastCmd k of
                I_LOGIN \<Rightarrow>
                  (case parse_response_aswer (h_body reply) no_response of
                     None \<Rightarrow> None
                   | Some (r, err) \<Rightarrow>
                       if err \<noteq> [] then Some (k, [ShowLine err])
                       else Some (k\<lparr>k_SelfId := r_uid r, k_SelfChatId := r_chatid r, k_HeartBit := r_heartbit r\<rparr>,
                         if k_IdleOpen k then [] else [IdleConnect]))
              | I_HISTORY_USER \<Rightarrow> map_option (Pair k) (show_messages (h_body reply))
              | I_STATUS_USER \<Rightarrow>
                  (case parse_response_aswer (h_body reply) no_response of
                     None \<Rightarrow> None
                   | Some (r, err) \<Rightarrow>
                       if err \<noteq> [] then Some (k, [ShowLine err]) else Some (k, [ShowLine (status_line r)]))
              | _ \<Rightarrow> Some (k, []))))"

section \<open>The connection for the long poll\<close>

text \<open>
  What \<open>makeConnected\<close> does to the connection for the long poll, before the handler of the
  connect: \<open>isOpen\<close> holds from then on.
\<close>

definition makeConnected :: "client \<Rightarrow> client" where
  "makeConnected k = k\<lparr>k_IdleOpen := True\<rparr>"

definition onHttpIdleConnect :: "conn_error option \<Rightarrow> client \<Rightarrow> reaction" where
  "onHttpIdleConnect e k =
     (if e \<noteq> None then Some (k, [SleepMs 100, IdleConnect])
      else
        (case build_user_send_msg_body (k_SelfId k) (k_HeartBit k) [] [] (k_Password k) of
           None \<Rightarrow> None
         | Some body \<Rightarrow>
             Some (k, [IdleRequest (build_request (cmd2string IDLE) ''application/json'' body)])))"

definition onHttpIdleWrite :: "conn_error option \<Rightarrow> client \<Rightarrow> client \<times> cli_effect list" where
  "onHttpIdleWrite error k = (if error \<noteq> None then (k, []) else (k, [IdleResponse]))"

definition onHttpIdleRead :: "http_result \<Rightarrow> client \<Rightarrow> reaction" where
  "onHttpIdleRead res k =
     (case res of (error, reply) \<Rightarrow>
        if error \<noteq> None \<or> h_status reply \<noteq> 200 then
          Some (k\<lparr>k_IdleState := False, k_IdleOpen := False\<rparr>,
            [ShowLine ''connection is broken, please relogin'', NewIdle, NewHttp, HttpConnect])
        else if \<not> k_IdleState k then Some (k\<lparr>k_IdleState := True\<rparr>, [IdleResponse])
        else map_option (\<lambda>es. (k, es @ [IdleResponse])) (show_messages (h_body reply)))"

section \<open>From the console to the client\<close>

datatype event_type = EV_NONE | EV_PEER | EV_INTERFACE

record ui_event =
  ev_type :: event_type
  ev_from :: string
  ev_to :: string
  ev_msg :: string

text \<open>One line read by \<open>pollingUserInput\<close>.\<close>

definition pollingUserInput :: "string \<Rightarrow> ui_event lock_queue \<Rightarrow> ui_event lock_queue" where
  "pollingUserInput line q =
     (let msg = trimmed line in
      if msg = [] then q
      else push \<lparr>ev_type = EV_INTERFACE, ev_from = ''dummy'', ev_to = ''dummy'', ev_msg = msg\<rparr> q)"

text \<open>One round of \<open>EventsWorker::processQueue\<close>.\<close>

definition events_round :: "ui_event lock_queue \<Rightarrow> client \<Rightarrow> (ui_event lock_queue \<times> client \<times> cli_effect list) option" where
  "events_round q k =
     (case getTask q of
        None \<Rightarrow> Some (q, k, [])
      | Some (event, q') \<Rightarrow>
          if ev_type event = EV_INTERFACE then
            map_option (\<lambda>(k', es). (q', k', es)) (onUserInput (ev_msg event) k)
          else Some (q', k, []))"

fun events_rounds :: "nat \<Rightarrow> ui_event lock_queue \<Rightarrow> client \<Rightarrow> (ui_event lock_queue \<times> client \<times> cli_effect list) option" where
  "events_rounds 0 q k = Some (q, k, [])"
| "events_rounds (Suc n) q k =
     (case events_round q k of
        None \<Rightarrow> None
      | Some (q', k', es) \<Rightarrow>
          map_option (\<lambda>(q'', k'', es'). (q'', k'', es @ es')) (events_rounds n q' k'))"

section \<open>What the user sees and sends\<close>

text \<open>
  In chat mode every line other than UNCHAT and DIRECT_MSG is sent as a message to the
  partner, QUIT and HELP included, and the server parses the request into that text and that
  name.
\<close>

theorem chat_mode_sends:
  assumes "k_state_mode k = CHAT_U" "ar_cmd (parse_input line) \<notin> {I_UNCHAT, I_DIRECT_MSG_USER}"
    "k_SelfId k < 2 ^ 32" "c_str line \<noteq> []" "c_str (k_state_user k) \<noteq> []" "c_str (k_Password k) \<noteq> []"
  shows "\<exists>b. onUserInput line k = Some (k\<lparr>k_LastCmd := I_DIRECT_MSG_USER\<rparr>,
      [HttpRequest (build_request (cmd2string MESSAGE_SEND) ''application/json'' b)]) \<and>
    parse_meta n p b MESSAGE_SEND = Some (p\<lparr>p_password := c_str (k_Password k), p_uid := k_SelfId k,
      p_message := c_str line, p_to_user := c_str (k_state_user k)\<rparr>, [])"
proof -
  obtain b where b: "build_user_send_msg_body (k_SelfId k) 0 (k_state_user k) line (k_Password k) = Some b"
    by (simp add: build_user_send_msg_body_text)
  have "line \<noteq> []" using assms(4) by (auto simp: c_str_def)
  then show ?thesis
    using assms send_request_read [OF assms(3,5,4,6), of 0 n p] b
    by (intro exI [of _ b]) (simp add: onUserInput_def send_body_def sendRequest_def)
qed

theorem login_then_idle:
  assumes "k_LastCmd k = I_LOGIN" "\<not> k_IdleOpen k" "h_status r = 200" "ok_body_user now u = Some (h_body r)"
    "user_id u < 2 ^ 32" "c_str (k_Password k) \<noteq> []"
  shows "\<exists>k1 b. onHttpRead (None, r) k = Some (k1, [CancelTimeout, ShowLine ''200 OK'', IdleConnect]) \<and>
    k_SelfId k1 = user_id u \<and> k_SelfChatId k1 = self_chat_id u \<and> k_HeartBit k1 = heartbit u \<and>
    onHttpIdleConnect None (makeConnected k1) = Some (makeConnected k1,
      [IdleRequest (build_request (cmd2string IDLE) ''application/json'' b)]) \<and>
    parse_meta n p b IDLE = Some (p\<lparr>p_password := c_str (k_Password k), p_uid := user_id u,
      p_ts := if heartbit u \<noteq> 0 \<and> heartbit u < 2 ^ 32 then heartbit u else p_ts p\<rparr>, [])"
proof -
  obtain b where b: "build_user_send_msg_body (user_id u) (heartbit u) [] [] (k_Password k) = Some b"
    by (simp add: build_user_send_msg_body_text)
  have "parse_response_aswer (h_body r) no_response =
      Some (\<lparr>r_uid = user_id u, r_chatid = self_chat_id u, r_heartbit = heartbit u, r_server_ts = now\<rparr>, [])"
    using user_answer_read [of now u no_response] assms(4) by simp
  then show ?thesis
    using assms idle_request_read [OF assms(5,6), of "heartbit u" "[]" "[]" n p] b
    by (intro exI [of _ "k\<lparr>k_SelfId := user_id u, k_SelfChatId := self_chat_id u, k_HeartBit := heartbit u\<rparr>"] exI [of _ b])
      (simp add: onHttpRead_def onHttpIdleConnect_def makeConnected_def)
qed

lemma show_messages_body:
  "ok_body_msgs now msgs = Some b \<Longrightarrow> show_messages b = Some (map (show_response \<circ> c_message) msgs)"
  using msgs_answer_read [of now msgs "[]"] by (simp add: show_messages_def)

theorem messages_shown:
  assumes "h_status r = 200" "ok_body_msgs now msgs = Some (h_body r)"
  shows "(k_IdleState k \<longrightarrow> onHttpIdleRead (None, r) k = Some (k, map (show_response \<circ> c_message) msgs @ [IdleResponse])) \<and>
    (k_LastCmd k = I_HISTORY_USER \<longrightarrow> onHttpRead (None, r) k =
      Some (k, CancelTimeout # ShowLine ''200 OK'' # map (show_response \<circ> c_message) msgs))"
  using assms show_messages_body [OF assms(2)] by (simp add: onHttpIdleRead_def onHttpRead_def)

text \<open>The lines the user types, one after the other.\<close>

fun type_lines :: "string list \<Rightarrow> client \<Rightarrow> reaction" where
  "type_lines [] k = Some (k, [])"
| "type_lines (l # ls) k =
     (case onUserInput l k of
        None \<Rightarrow> None
      | Some (k', es) \<Rightarrow> map_option (\<lambda>(k'', es'). (k'', es @ es')) (type_lines ls k'))"

definition typed :: "string list \<Rightarrow> string list" where
  "typed ls = filter (\<lambda>l. l \<noteq> []) (map trimmed ls)"

lemma pollingUserInput_queue:
  "m_Queue (fold pollingUserInput ls q) = m_Queue q @
     map (\<lambda>l. \<lparr>ev_type = EV_INTERFACE, ev_from = ''dummy'', ev_to = ''dummy'', ev_msg = l\<rparr>) (typed ls)"
  by (induction ls arbitrary: q) (simp_all add: pollingUserInput_def typed_def Let_def push_def)

lemma events_rounds_lines:
  assumes "m_Queue q = map (\<lambda>l. \<lparr>ev_type = EV_INTERFACE, ev_from = f, ev_to = t, ev_msg = l\<rparr>) ls"
  shows "events_rounds (length ls) q k = map_option (\<lambda>(k', es). (\<lparr>m_Queue = []\<rparr>, k', es)) (type_lines ls k)"
  using assms
proof (induction ls arbitrary: q k)
  case Nil
  then show ?case by (cases q) simp
next
  case (Cons l ls)
  let ?q = "\<lparr>m_Queue = map (\<lambda>l. \<lparr>ev_type = EV_INTERFACE, ev_from = f, ev_to = t, ev_msg = l\<rparr>) ls\<rparr>"
  have q: "getTask q = Some (\<lparr>ev_type = EV_INTERFACE, ev_from = f, ev_to = t, ev_msg = l\<rparr>, ?q)"
    using Cons.prems by (cases q) (simp add: getTask_def)
  show ?case
  proof (cases "onUserInput l k")
    case None
    with q show ?thesis by (simp add: events_round_def)
  next
    case (Some r)
    obtain k' es where "r = (k', es)" by (cases r)
    with Some q Cons.IH [of ?q k'] show ?thesis
      by (cases "type_lines ls k'") (auto simp: events_round_def)
  qed
qed

text \<open>
  (C36) The console with its queue of events, the reader of lines and the loop of the events
  worker, does what handling the typed lines one after the other does: each line that is not
  blank, trimmed, in order, with the same effects and the same final state.
\<close>

theorem lines_in_order:
  "events_rounds (length (typed ls)) (fold pollingUserInput ls \<lparr>m_Queue = []\<rparr>) k =
     map_option (\<lambda>(k', es). (\<lparr>m_Queue = []\<rparr>, k', es)) (type_lines (typed ls) k)"
  by (rule events_rounds_lines [of _ "''dummy''" "''dummy''"]) (simp add: pollingUserInput_queue)

section \<open>Witnesses\<close>

definition demo_client :: client where
  "demo_client = (new_client ''localhost'' 7788 ''alice'' ''secret12'')\<lparr>k_SelfId := 1, k_state_mode := CHAT_U,
     k_state_user := ''bob'', k_LastCmd := I_LOGIN, k_IdleState := True\<rparr>"

lemma demo_client_simps [simp]:
  "k_state_mode demo_client = CHAT_U" "k_SelfId demo_client = 1" "k_state_user demo_client = ''bob''"
  "k_Password demo_client = ''secret12''" "k_LastCmd demo_client = I_LOGIN" "k_IdleState demo_client"
  "\<not> k_IdleOpen demo_client"
  by (simp_all add: demo_client_def new_client_def)

lemma chat_mode_sends_witness:
  "\<exists>b. onUserInput ''quit'' demo_client = Some (demo_client\<lparr>k_LastCmd := I_DIRECT_MSG_USER\<rparr>,
      [HttpRequest (build_request (cmd2string MESSAGE_SEND) ''application/json'' b)]) \<and>
    parse_meta (-1) no_params b MESSAGE_SEND = Some (no_params\<lparr>p_password := ''secret12'', p_uid := 1,
      p_message := ''quit'', p_to_user := ''bob''\<rparr>, [])"
proof -
  have "split ''quit'' '' '' = Some [''quit'']"
    using split_command_line [of "[''quit'']"] by (simp add: command_line_def join_def blank_free_def)
  moreover have "lowercased ''quit'' = ''quit''" by code_simp
  ultimately have "ar_cmd (parse_input ''quit'') = I_QUIT" by (simp add: parse_input_def)
  moreover have "c_str ''quit'' = ''quit''" "c_str ''bob'' = ''bob''" "c_str ''secret12'' = ''secret12''"
    by (simp_all add: c_str_def NUL_Char)
  ultimately show ?thesis using chat_mode_sends [of demo_client "''quit''" "-1" no_params] by simp
qed

definition demo_answer :: "string \<Rightarrow> http_reply" where
  "demo_answer b = no_reply\<lparr>h_status := 200, h_body := b\<rparr>"

lemma demo_answer_simps [simp]: "h_status (demo_answer b) = 200" "h_body (demo_answer b) = b"
  by (simp_all add: demo_answer_def)

lemma login_then_idle_witness:
  "\<exists>b k1. ok_body_user 9 (mk_user 3 4 ''carol'' ''p'' []) = Some b \<and>
    onHttpRead (None, demo_answer b) demo_client = Some (k1, [CancelTimeout, ShowLine ''200 OK'', IdleConnect]) \<and>
    k_SelfId k1 = 3"
proof -
  obtain b where b: "ok_body_user 9 (mk_user 3 4 ''carol'' ''p'' []) = Some b" by (simp add: ok_body_user_text)
  have "c_str ''secret12'' = ''secret12''" by (simp add: c_str_def NUL_Char)
  with login_then_idle [of demo_client "demo_answer b" 9 "mk_user 3 4 ''carol'' ''p'' []"] b
  show ?thesis by (auto simp: mk_user_def)
qed

lemma messages_shown_witness:
  "\<exists>b. ok_body_msgs 9 [\<lparr>am_ts = 1, am_from = ''bob'', am_to = ''alice'', am_msg = ''hi''\<rparr>] = Some b \<and>
    onHttpIdleRead (None, demo_answer b) demo_client =
      Some (demo_client, [ShowMessage \<lparr>um_from = ''bob'', um_to = ''alice'', um_message = ''hi''\<rparr>, IdleResponse])"
proof -
  let ?m = "\<lparr>am_ts = 1, am_from = ''bob'', am_to = ''alice'', am_msg = ''hi''\<rparr>"
  obtain b where b: "ok_body_msgs 9 [?m] = Some b" by (simp add: ok_body_msgs_text)
  have "c_str ''bob'' = ''bob''" "c_str ''alice'' = ''alice''" "c_str ''hi'' = ''hi''"
    by (simp_all add: c_str_def NUL_Char)
  with messages_shown [of "demo_answer b" 9 "[?m]" demo_client] b
  show ?thesis by (auto simp: show_response_def c_message_def)
qed

end
