(* ===== verification/Chat.thy ===== *)
theory Chat
  imports Wire Cli_Client
begin

text \<open>
  Two consoles and the server between them: what one user types, the bytes it becomes, what
  the server does with them, and what the other user reads. The consoles are \<open>Cli_Client\<close>, the
  bytes in both directions may arrive in any segments, the server is \<open>System\<close>.
\<close>

section \<open>Both ends of the wire\<close>

text \<open>The parser of the client ends with this reply, whatever segments \<open>sent\<close> arrives in.\<close>

definition receives :: "(string \<Rightarrow> string option) \<Rightarrow> string \<Rightarrow> http_reply \<Rightarrow> bool" where
  "receives inflate sent r \<longleftrightarrow>
     (\<forall>segs. concat segs = sent \<longrightarrow> fold (http_feed inflate) segs (AwaitHeaders, []) = (Finished (None, r), []))"

lemma client_reads_receives:
  assumes "client_reads inflate sent st body"
  obtains r where "receives inflate sent r" "h_status r = st" "h_body r = body"
proof -
  obtain r where r: "http_feed inflate sent (AwaitHeaders, []) = (Finished (None, r), [])" "h_status r = st" "h_body r = body"
    using assms unfolding client_reads_def by (elim allE [of _ "[sent]"]) auto
  have "fold (http_feed inflate) segs (AwaitHeaders, []) = (Finished (None, r), [])" if "concat segs = sent" for segs
  proof (cases "segs = []")
    case True
    with assms that show ?thesis unfolding client_reads_def by (elim allE [of _ "[]"]) simp
  next
    case False
    with http_feed_fold [of segs inflate "(AwaitHeaders, [])"] that r(1) show ?thesis by simp
  qed
  with r that show ?thesis by (auto simp: receives_def)
qed

lemma member_length: "length (WriteString (c_str s)) \<le> 2 + 6 * length s"
  using length_WriteString [of "c_str s"] length_c_str [of s] by simp

lemma send_body_length:
  assumes "build_user_send_msg_body uid hb to msg pass = Some b"
    "length to < 2 ^ 30" "length msg < 2 ^ 30" "length pass < 2 ^ 30"
  shows "length b < 2 ^ 64"
  using assms member_length [of to] member_length [of msg] member_length [of pass] length_show_u64 [of uid]
    length_show_u64 [of hb] length_WriteString [of "''uid''"] length_WriteString [of "''heartbit''"]
    length_WriteString [of "''to''"] length_WriteString [of "''message''"] length_WriteString [of "''password''"]
  by (auto simp: build_user_send_msg_body_text serialize.simps serialize_members.simps show_int_def)

lemma user_body_length:
  assumes "build_user_pass_body user pass = Some b" "length user < 2 ^ 30" "length pass < 2 ^ 30"
  shows "length b < 2 ^ 64"
  using assms member_length [of user] member_length [of pass]
    length_WriteString [of "''user''"] length_WriteString [of "''password''"]
  by (auto simp: build_user_pass_body_text serialize.simps serialize_members.simps)

section \<open>A message\<close>

lemma name_no_NUL: "word_of_name w \<Longrightarrow> NUL \<notin> set w"
  by (auto simp: word_of_name_def list_all_iff isword_def isdigit_def isupper_def islower_def NUL_Char dest!: bspec)

text \<open>
  (C1) Delivery, from console to console: DIRECT_MSG with the name of a user and a text, typed
  by a user who is logged in with his id, below 2^32, and password, becomes a request;
  whatever segments it arrives in, after a worker ran its task, one tick of the long poll of
  the receiver and the writes, the bytes sent to the receiver, again in any segments, make his
  console show the text with the names of sender and receiver and wait for the next message.
  The conditions: the queue is empty and the storage consistent and of a size that fits into a
  body; the name of the receiver consists of letters, digits and underscores, as the console
  garbles the text after any other name; the text is one line of less than 2^30 bytes, not
  empty, without zero bytes, that does not begin with a blank, and the password has no zero
  byte either; and the time of the sending is later than the time the poll of the receiver
  asks for, as a message of the same second as the newest one he has got is not delivered.
\<close>

theorem typed_line_shown:
  assumes inv: "storage_inv (w_db (y_workers y))" "small_storage (w_db (y_workers y))"
    and queue: "m_Queue (w_queue (y_workers y)) = []"
    and c1: "y_sessions y c1 = Some s1" "ready s1" and c2: "y_sessions y c2 = Some s2" "polling s2" "c1 \<noteq> c2"
    and u: "u \<in> set (users (w_db (y_workers y)))" "user_id u < 2 ^ 32"
    and ka: "k_SelfId ka = user_id u" "encrypted (e_crc env) (k_Password ka) = password u"
      "NUL \<notin> set (k_Password ka)" "k_Password ka \<noteq> []" "length (k_Password ka) < 2 ^ 30"
    and v: "v \<in> set (users (w_db (y_workers y)))" "word_of_name (user_name v)"
      "p_uid (d_params (m_RequestDetails (s_api s2))) = user_id v"
      "encrypted (e_crc env) (p_password (d_params (m_RequestDetails (s_api s2)))) = password v"
      "poll_ts (s_api s2) < t2"
    and m: "m \<noteq> []" "\<not> isspace (hd m)" "list_all isdot m" "NUL \<notin> set m" "length m < 2 ^ 30"
    and kb: "k_IdleState kb"
  shows "\<exists>req. onUserInput (''DIRECT_MSG '' @ user_name v @ '' '' @ m) ka =
      Some (ka\<lparr>k_LastCmd := I_DIRECT_MSG_USER\<rparr>, [HttpRequest req]) \<and>
    (\<forall>segs. concat segs = req \<longrightarrow>
      (\<exists>y' s2' sent r es. system_run env (exchange t1 t2 t3 c1 segs @ tick t4 t5 t6 c2) y = Some y' \<and>
        y_sessions y' c2 = Some s2' \<and> polling s2' \<and> s_out s2' = s_out s2 @ sent \<and> receives inflate sent r \<and>
        onHttpIdleRead (None, r) kb = Some (kb, es @ [IdleResponse]) \<and>
        ShowMessage \<lparr>um_from = c_str (user_name u), um_to = user_name v, um_message = m\<rparr> \<in> set es))"
proof -
  let ?line = "''DIRECT_MSG '' @ user_name v @ '' '' @ m" and ?pass = "k_Password ka"
  obtain b where b: "build_user_send_msg_body (user_id u) 0 (user_name v) m ?pass = Some b"
    by (simp add: build_user_send_msg_body_text)
  have name: "NUL \<notin> set (user_name v)" "user_name v \<noteq> []"
    using v(2) name_no_NUL by (simp_all add: word_of_name_def)
  have "length (user_name v) < 2 ^ 30" using inv(2) v(1) unfolding small_storage_def by fastforce
  then have short: "length b < 2 ^ 64" by (rule send_body_length [OF b _ m(5) ka(5)])
  have typed: "onUserInput ?line ka = Some (ka\<lparr>k_LastCmd := I_DIRECT_MSG_USER\<rparr>,
      [HttpRequest (build_request (cmd2string MESSAGE_SEND) ''application/json'' b)])"
    using direct_message_parsed [OF v(2) m(1-3)] ka(1) b
    by (simp add: onUserInput_def onCommand_def send_body_def sendRequest_def)
  have run: "\<exists>y' s2' sent r es. system_run env (exchange t1 t2 t3 c1 segs @ tick t4 t5 t6 c2) y = Some y' \<and>
      y_sessions y' c2 = Some s2' \<and> polling s2' \<and> s_out s2' = s_out s2 @ sent \<and> receives inflate sent r \<and>
      onHttpIdleRead (None, r) kb = Some (kb, es @ [IdleResponse]) \<and>
      ShowMessage \<lparr>um_from = c_str (user_name u), um_to = user_name v, um_message = m\<rparr> \<in> set es"
    if segs: "concat segs = build_request (cmd2string MESSAGE_SEND) ''application/json'' b" for segs
  proof -
    from message_over_the_wire [OF inv(1) queue c1 c2 u ka(2-4) v(1) name v(3-5) m(4,1,5) inv(2) b short segs, of t1 t3 t4 t5 t6]
    obtain y' s2' sent answer msgs where served: "system_run env (exchange t1 t2 t3 c1 segs @ tick t4 t5 t6 c2) y = Some y'"
        "y_sessions y' c2 = Some s2'" "polling s2'" "s_out s2' = s_out s2 @ sent" "client_reads inflate sent 200 answer"
        "parse_msg_response answer [] = Some (msgs, [])"
        "\<lparr>am_ts = t2, am_from = c_str (user_name u), am_to = user_name v, am_msg = m\<rparr> \<in> set msgs" (is "?a \<in> _")
      by blast
    obtain r where r: "receives inflate sent r" "h_status r = 200" "h_body r = answer"
      using client_reads_receives [OF served(5)] by blast
    have "onHttpIdleRead (None, r) kb = Some (kb, map show_response msgs @ [IdleResponse])"
      using r kb served(6) by (simp add: onHttpIdleRead_def show_messages_def)
    moreover have "show_response ?a \<in> set (map show_response msgs)" using served(7) by simp
    ultimately show ?thesis using served(1-4) r(1) by (auto simp: show_response_def simp del: set_map)
  qed
  show ?thesis using typed run by blast
qed

section \<open>Logging in and starting the long poll\<close>

lemma login_line:
  assumes "blank_free a" "blank_free b"
  shows "parse_input (command_line [''LOGIN'', a, b]) =
    no_args\<lparr>ar_cmd := I_LOGIN, ar_login_name := a, ar_login_pass := b\<rparr>"
  using assms by (simp add: parse_input_def split_command_line parse_three_def)

lemma login_typed:
  assumes "blank_free user" "blank_free pass" "k_state_mode k \<noteq> CHAT_U" "build_user_pass_body user pass = Some b"
  shows "onUserInput (command_line [''LOGIN'', user, pass]) k =
    Some (k\<lparr>k_LastCmd := I_LOGIN, k_Password := pass\<rparr>,
      [HttpRequest (build_request (cmd2string USER_LOGIN) ''application/json'' b)])"
  using assms by (simp add: onUserInput_def login_line onCommand_def send_body_def sendRequest_def)

lemma login_answered:
  assumes "k_LastCmd k = I_LOGIN" "\<not> k_IdleOpen k" "h_status r = 200" "ok_body_user now u = Some (h_body r)"
  shows "onHttpRead (None, r) k =
    Some (k\<lparr>k_SelfId := user_id u, k_SelfChatId := self_chat_id u, k_HeartBit := heartbit u\<rparr>,
      [CancelTimeout, ShowLine ''200 OK'', IdleConnect])"
  using assms user_answer_read [of now u no_response] by (simp add: onHttpRead_def)

lemma ok_body_cmd_length:
  assumes "ok_body_cmd now c = Some b"
  shows "length b < 2 ^ 64"
proof -
  have "cmd_code c \<le> 13" by (cases c) simp_all
  then have "length (show_nat (cmd_code c)) \<le> Suc 1" by (intro length_show_nat) simp
  with assms length_WriteString [of "''cmd''"] length_WriteString [of "''server_ts''"] length_show_u64 [of now]
  show ?thesis by (auto simp: ok_body_cmd_text serialize.simps serialize_members.simps show_int_def)
qed

text \<open>The console after \<open>LOGIN\<close> was typed, and after its answer was read.\<close>

definition login_sent :: "string \<Rightarrow> client \<Rightarrow> client" where
  "login_sent pass k = k\<lparr>k_LastCmd := I_LOGIN, k_Password := pass\<rparr>"

definition logged_in :: "string \<Rightarrow> db_user \<Rightarrow> client \<Rightarrow> client" where
  "logged_in pass u k = (login_sent pass k)\<lparr>k_SelfId := user_id u, k_SelfChatId := self_chat_id u, k_HeartBit := heartbit u\<rparr>"

lemma login_served:
  assumes inv: "storage_inv (w_db (y_workers y))" and queue: "m_Queue (w_queue (y_workers y)) = []"
    and c: "y_sessions y c = Some s" "ready s"
    and u: "u \<in> set (users (w_db (y_workers y)))" "encrypted (e_crc env) pass = password u"
      "length (user_name u) < 2 ^ 30" "user_name u \<noteq> []" "NUL \<notin> set (user_name u)"
    and pass: "pass \<noteq> []" "NUL \<notin> set pass" and k: "\<not> k_IdleOpen k"
    and b: "build_user_pass_body (user_name u) pass = Some b" "length b < 2 ^ 64"
    and segs: "concat segs = build_request (cmd2string USER_LOGIN) ''application/json'' b"
  shows "\<exists>y' s' sent r. system_run env (exchange t1 t2 t3 c segs) y = Some y' \<and>
    y_sessions y' = (y_sessions y)(c \<mapsto> s') \<and> s_out s' = s_out s @ sent \<and> ready s' \<and> receives inflate sent r \<and>
    onHttpRead (None, r) (login_sent pass k) = Some (logged_in pass u k, [CancelTimeout, ShowLine ''200 OK'', IdleConnect])"
proof -
  let ?old = "d_params (m_RequestDetails (s_api s))"
  let ?new = "?old\<lparr>p_password := pass, p_user := user_name u\<rparr>"
  have cs: "c_str (user_name u) = user_name u" "c_str pass = pass" using u(5) pass(2) by (simp_all add: c_str_id)
  have meta: "parse_meta (e_pass_len env) ?old b USER_LOGIN = Some (?new, [])"
    using login_request_read [of "user_name u" pass "e_pass_len env" ?old] b(1) u(4) pass(1) cs by simp
  obtain answer where run: "ok_body_user t2 u = Some answer" "process_task (e_crc env) (e_sort env) t2 InMemoryConnection
      (request_task c USER_LOGIN ?new) (w_db (y_workers y)) = Some (w_db (y_workers y), [SendOkResponse answer])"
    using login_run [OF inv u(1), of "request_task c USER_LOGIN ?new" "e_crc env" t2 "e_sort env"] u(2) by auto
  have "length answer < 2 ^ 64" using ok_body_user_length [OF run(1)] u(3) by simp
  then obtain r where r: "receives inflate (buildApiOkResponse answer) r" "h_status r = 200" "h_body r = answer"
    using client_reads_receives [OF client_reads_ok] by blast
  have "onHttpRead (None, r) (login_sent pass k) = Some (logged_in pass u k, [CancelTimeout, ShowLine ''200 OK'', IdleConnect])"
    using login_answered [of "login_sent pass k" r t2 u] r run(1) k by (simp add: login_sent_def logged_in_def)
  with request_served [OF c queue _ json_type_json b(2) segs meta run(2), of "buildApiOkResponse answer" t1 t3] r(1)
  show ?thesis by (fastforce simp: action_text_def routed_def)
qed

lemma poll_started:
  assumes c: "y_sessions y c = Some s" "ready s" and u: "user_id u < 2 ^ 32"
    and pass: "length pass < 2 ^ 30" "pass \<noteq> []" "NUL \<notin> set pass" and k: "\<not> k_IdleState k"
  shows "\<exists>req. onHttpIdleConnect None (makeConnected (logged_in pass u k)) =
      Some (makeConnected (logged_in pass u k), [IdleRequest req]) \<and>
    (\<forall>segs. concat segs = req \<longrightarrow>
      (\<exists>y' s' ack r. system_run env (segments t1 c segs @ [(t2, At c (WriteDone False))]) y = Some y' \<and>
        y_sessions y' = (y_sessions y)(c \<mapsto> s') \<and> polling s' \<and>
        p_uid (d_params (m_RequestDetails (s_api s'))) = user_id u \<and>
        p_password (d_params (m_RequestDetails (s_api s'))) = pass \<and>
        s_out s' = s_out s @ ack \<and> receives inflate ack r \<and>
        onHttpIdleRead (None, r) (makeConnected (logged_in pass u k)) =
          Some ((makeConnected (logged_in pass u k))\<lparr>k_IdleState := True\<rparr>, [IdleResponse])))"
proof -
  let ?old = "d_params (m_RequestDetails (s_api s))" and ?k = "makeConnected (logged_in pass u k)"
  obtain b where b: "build_user_send_msg_body (user_id u) (heartbit u) [] [] pass = Some b"
    by (simp add: build_user_send_msg_body_text)
  have short: "length b < 2 ^ 64" using send_body_length [OF b _ _ pass(1)] by simp
  let ?new = "?old\<lparr>p_password := pass, p_uid := user_id u,
    p_ts := if heartbit u \<noteq> 0 \<and> heartbit u < 2 ^ 32 then heartbit u else p_ts ?old\<rparr>"
  have meta: "parse_meta (e_pass_len env) ?old b IDLE = Some (?new, [])"
    using idle_request_read [of "user_id u" pass "heartbit u" "[]" "[]" "e_pass_len env" ?old] b u pass c_str_id [OF pass(3)]
    by simp
  have "\<exists>y' s' ack r. system_run env (segments t1 c segs @ [(t2, At c (WriteDone False))]) y = Some y' \<and>
      y_sessions y' = (y_sessions y)(c \<mapsto> s') \<and> polling s' \<and> p_uid (d_params (m_RequestDetails (s_api s'))) = user_id u \<and>
      p_password (d_params (m_RequestDetails (s_api s'))) = pass \<and> s_out s' = s_out s @ ack \<and> receives inflate ack r \<and>
      onHttpIdleRead (None, r) ?k = Some (?k\<lparr>k_IdleState := True\<rparr>, [IdleResponse])"
    if segs: "concat segs = build_request (cmd2string IDLE) ''application/json'' b" for segs
  proof -
    obtain y' s' ack where y': "system_run env (segments t1 c segs @ [(t2, At c (WriteDone False))]) y = Some y'"
      "y_sessions y' = (y_sessions y)(c \<mapsto> s')" "polling s'" "d_params (m_RequestDetails (s_api s')) = ?new"
      "s_out s' = s_out s @ buildApiOkResponse ack" "ok_body_cmd t1 IDLE = Some ack"
      using idle_started [OF c short meta segs, of t1 t2] by blast
    obtain r where "receives inflate (buildApiOkResponse ack) r" "h_status r = 200"
      using client_reads_receives [OF client_reads_ok [OF ok_body_cmd_length [OF y'(6)]]] by blast
    moreover from this have "onHttpIdleRead (None, r) ?k = Some (?k\<lparr>k_IdleState := True\<rparr>, [IdleResponse])"
      using k by (simp add: onHttpIdleRead_def makeConnected_def logged_in_def login_sent_def)
    moreover have "p_uid (d_params (m_RequestDetails (s_api s'))) = user_id u \<and>
        p_password (d_params (m_RequestDetails (s_api s'))) = pass"
      by (simp add: y'(4))
    ultimately show ?thesis using y'(1,2,3,5) by blast
  qed
  moreover have "onHttpIdleConnect None ?k = Some (?k, [IdleRequest (build_request (cmd2string IDLE) ''application/json'' b)])"
    using b by (simp add: onHttpIdleConnect_def makeConnected_def logged_in_def login_sent_def)
  ultimately show ?thesis by blast
qed

text \<open>
  (C2) Logging in, end to end: the typed LOGIN line becomes a request that the server answers
  with the record of the user; the console takes its id and password over, connects a second
  time and sends the request for the long poll, after which that connection of the server
  polls for this user with this password and the console waits for messages.
\<close>

theorem login_starts_poll:
  assumes inv: "storage_inv (w_db (y_workers y))" and queue: "m_Queue (w_queue (y_workers y)) = []"
    and c1: "y_sessions y c1 = Some s1" "ready s1" and c2: "y_sessions y c2 = Some s2" "ready s2" "c1 \<noteq> c2"
    and u: "u \<in> set (users (w_db (y_workers y)))" "user_id u < 2 ^ 32" "encrypted (e_crc env) pass = password u"
      "length (user_name u) < 2 ^ 30" "user_name u \<noteq> []" "NUL \<notin> set (user_name u)" "blank_free (user_name u)"
    and pass: "length pass < 2 ^ 30" "pass \<noteq> []" "NUL \<notin> set pass" "blank_free pass"
    and k: "k_state_mode k \<noteq> CHAT_U" "\<not> k_IdleOpen k" "\<not> k_IdleState k"
  shows "\<exists>req req2.
    onUserInput (command_line [''LOGIN'', user_name u, pass]) k = Some (login_sent pass k, [HttpRequest req]) \<and>
    onHttpIdleConnect None (makeConnected (logged_in pass u k)) =
      Some (makeConnected (logged_in pass u k), [IdleRequest req2]) \<and>
    (\<forall>segs segs2. concat segs = req \<and> concat segs2 = req2 \<longrightarrow>
      (\<exists>y1 sent r y2 s2' ack ra.
        system_run env (exchange t1 t2 t3 c1 segs) y = Some y1 \<and>
        map_option s_out (y_sessions y1 c1) = Some (s_out s1 @ sent) \<and> receives inflate sent r \<and>
        onHttpRead (None, r) (login_sent pass k) =
          Some (logged_in pass u k, [CancelTimeout, ShowLine ''200 OK'', IdleConnect]) \<and>
        system_run env (segments t4 c2 segs2 @ [(t5, At c2 (WriteDone False))]) y1 = Some y2 \<and>
        y_sessions y2 c2 = Some s2' \<and> polling s2' \<and>
        p_uid (d_params (m_RequestDetails (s_api s2'))) = user_id u \<and>
        p_password (d_params (m_RequestDetails (s_api s2'))) = pass \<and>
        s_out s2' = s_out s2 @ ack \<and> receives inflate ack ra \<and>
        onHttpIdleRead (None, ra) (makeConnected (logged_in pass u k)) =
          Some ((makeConnected (logged_in pass u k))\<lparr>k_IdleState := True\<rparr>, [IdleResponse])))"
  (is "\<exists>req req2. ?typed req \<and> ?idle req2 \<and> (\<forall>segs segs2. ?of segs segs2 req req2 \<longrightarrow> ?served segs segs2)")
proof -
  obtain b where b: "build_user_pass_body (user_name u) pass = Some b" by (simp add: build_user_pass_body_text)
  note login = login_served [OF inv queue c1 u(1,3-6) pass(2,3) k(2) b user_body_length [OF b u(4) pass(1)],
    of _ t1 t2 t3 inflate]
  note poll = poll_started [OF _ c2(2) u(2) pass(1-3) k(3), of _ c2 env t4 t5 inflate]
  obtain req2 where req2: "onHttpIdleConnect None (makeConnected (logged_in pass u k)) =
      Some (makeConnected (logged_in pass u k), [IdleRequest req2])"
    using poll [OF c2(1)] by blast
  have "onUserInput (command_line [''LOGIN'', user_name u, pass]) k =
      Some (login_sent pass k, [HttpRequest (build_request (cmd2string USER_LOGIN) ''application/json'' b)])"
    using login_typed [OF u(7) pass(4) k(1) b] by (simp add: login_sent_def)
  moreover have "?served segs segs2"
    if segs: "concat segs = build_request (cmd2string USER_LOGIN) ''application/json'' b" "concat segs2 = req2"
    for segs segs2
  proof -
    obtain y1 s1' sent r where y1: "system_run env (exchange t1 t2 t3 c1 segs) y = Some y1"
      "y_sessions y1 = (y_sessions y)(c1 \<mapsto> s1')" "s_out s1' = s_out s1 @ sent" "receives inflate sent r"
      "onHttpRead (None, r) (login_sent pass k) =
         Some (logged_in pass u k, [CancelTimeout, ShowLine ''200 OK'', IdleConnect])"
      using login [OF segs(1)] by blast
    have "y_sessions y1 c2 = Some s2" using y1(2) c2 by simp
    from poll [OF this] req2 segs(2) y1 show ?thesis by fastforce
  qed
  ultimately show ?thesis using req2 by blast
qed

end
