(* ===== verification/Chat_Demo.thy ===== *)
theory Chat_Demo
  imports Wire_Demo Chat
begin

text \<open>
  The properties of \<open>Chat\<close> at work: Alice logs in, and a line she types is shown on Bob's console.
\<close>

lemma demo_small [simp]: "small_storage demo"
  by (simp add: small_storage_def demo_rows mk_user_def mk_chat_def)

lemma typed_line_shown_witness:
  "\<exists>req y' sent r es. onUserInput ''DIRECT_MSG bob hello'' demo_client =
      Some (demo_client\<lparr>k_LastCmd := I_DIRECT_MSG_USER\<rparr>, [HttpRequest req]) \<and>
    system_run demo_env (exchange 20 21 22 7 [req] @ tick 23 24 25 8) (demo_system ''hunter2222'') = Some y' \<and>
    map_option s_out (y_sessions y' 8) = Some sent \<and> receives (\<lambda>_. None) sent r \<and>
    onHttpIdleRead (None, r) demo_client = Some (demo_client, es @ [IdleResponse]) \<and>
    ShowMessage \<lparr>um_from = ''alice'', um_to = ''bob'', um_message = ''hello''\<rparr> \<in> set es"
proof -
  have chars: "word_of_name ''bob''" "\<not> isspace (hd ''hello'')" "list_all isdot ''hello''" by code_simp+
  have "c_str ''alice'' = ''alice''" by (simp add: c_str_def NUL_Char)
  with typed_line_shown [of "demo_system ''hunter2222''" 7 "new_session CMD_LAST" 8 "demo_poll ''hunter2222''" alice
      demo_client demo_env bob 21 "''hello''" demo_client 20 22 23 24 25 "\<lambda>_. None"]
    demo_inv demo_users demo_strings chars
  obtain req where req: "onUserInput ''DIRECT_MSG bob hello'' demo_client =
      Some (demo_client\<lparr>k_LastCmd := I_DIRECT_MSG_USER\<rparr>, [HttpRequest req])"
    "\<forall>segs. concat segs = req \<longrightarrow> (\<exists>y' s2' sent r es.
      system_run demo_env (exchange 20 21 22 7 segs @ tick 23 24 25 8) (demo_system ''hunter2222'') = Some y' \<and>
      y_sessions y' 8 = Some s2' \<and> polling s2' \<and> s_out s2' = sent \<and> receives (\<lambda>_. None) sent r \<and>
      onHttpIdleRead (None, r) demo_client = Some (demo_client, es @ [IdleResponse]) \<and>
      ShowMessage \<lparr>um_from = ''alice'', um_to = ''bob'', um_message = ''hello''\<rparr> \<in> set es)"
    by (simp add: demo_names) blast
  from req(2) have "\<exists>y' s2' sent r es.
      system_run demo_env (exchange 20 21 22 7 [req] @ tick 23 24 25 8) (demo_system ''hunter2222'') = Some y' \<and>
      y_sessions y' 8 = Some s2' \<and> polling s2' \<and> s_out s2' = sent \<and> receives (\<lambda>_. None) sent r \<and>
      onHttpIdleRead (None, r) demo_client = Some (demo_client, es @ [IdleResponse]) \<and>
      ShowMessage \<lparr>um_from = ''alice'', um_to = ''bob'', um_message = ''hello''\<rparr> \<in> set es"
    by (elim allE [of _ "[req]"]) simp
  with req(1) show ?thesis by fastforce
qed

text \<open>A server with two connections that wait for a request, and a console that has just started.\<close>

definition two_ready :: "nat system" where
  "two_ready = (demo_system [])\<lparr>y_sessions := [7 \<mapsto> new_session CMD_LAST, 8 \<mapsto> new_session CMD_LAST]\<rparr>"

lemma two_ready_simps [simp]:
  "y_sessions two_ready 7 = Some (new_session CMD_LAST)" "y_sessions two_ready 8 = Some (new_session CMD_LAST)"
  "y_workers two_ready = y_workers (demo_system [])"
  by (simp_all add: two_ready_def)

lemma login_starts_poll_witness:
  "\<exists>req req2 y1 y2 s2'. onUserInput (command_line [''LOGIN'', ''alice'', ''secret12'']) (new_client [] 0 [] []) =
      Some (login_sent ''secret12'' (new_client [] 0 [] []), [HttpRequest req]) \<and>
    system_run demo_env (exchange 20 21 22 7 [req]) two_ready = Some y1 \<and>
    system_run demo_env (segments 23 8 [req2] @ [(24, At 8 (WriteDone False))]) y1 = Some y2 \<and>
    y_sessions y2 8 = Some s2' \<and> polling s2' \<and> p_uid (d_params (m_RequestDetails (s_api s2'))) = 1"
proof -
  have k: "k_state_mode (new_client [] 0 [] []) \<noteq> CHAT_U" "\<not> k_IdleOpen (new_client [] 0 [] [])"
    "\<not> k_IdleState (new_client [] 0 [] [])"
    by (simp_all add: new_client_def)
  have "NUL \<notin> set ''alice''" "blank_free ''alice''" "blank_free ''secret12''" by (simp_all add: NUL_Char blank_free_def)
  with login_starts_poll [of two_ready 7 "new_session CMD_LAST" 8 "new_session CMD_LAST" alice demo_env "''secret12''"
      "new_client [] 0 [] []" 20 21 22 "\<lambda>_. None" 23 24] k demo_inv demo_users demo_strings
  obtain req req2 where
    req: "onUserInput (command_line [''LOGIN'', ''alice'', ''secret12'']) (new_client [] 0 [] []) =
      Some (login_sent ''secret12'' (new_client [] 0 [] []), [HttpRequest req])" and
    run: "\<And>segs segs2. concat segs = req \<and> concat segs2 = req2 \<longrightarrow> (\<exists>y1 y2 s2'.
      system_run demo_env (exchange 20 21 22 7 segs) two_ready = Some y1 \<and>
      system_run demo_env (segments 23 8 segs2 @ [(24, At 8 (WriteDone False))]) y1 = Some y2 \<and>
      y_sessions y2 8 = Some s2' \<and> polling s2' \<and> p_uid (d_params (m_RequestDetails (s_api s2'))) = 1)"
    by (simp add: demo_names) metis
  from run [of "[req]" "[req2]"] req show ?thesis by auto
qed

end
