(* ===== verification/Parallel.thy ===== *)
theory Parallel
  imports Server_Spec "HOL-Library.Sublist" "HOL-Library.Multiset"
begin

text \<open>
  The workers of \<open>DatabaseWorker\<close> in parallel. \<open>InMemoryConnection\<close> locks the storage for each of
  its methods and not for a task, so the tasks of two workers interleave between the calls. A
  task is here a tree of atomic steps: one for each call that takes the lock, and one for each
  reading of the clock between them; \<open>lookupChatsForUserId\<close>, which takes the lock again for
  every chat it returns, is several. The steps of all workers run in any order.
\<close>

section \<open>Programs of atomic steps\<close>

text \<open>
  \<open>Step f k\<close>: at time \<open>now\<close> the storage \<open>st\<close> becomes \<open>f now st\<close>, and \<open>k now st\<close> is what is left.
  \<open>Abort\<close> is a failed assertion of the JSON writer.
\<close>

datatype prog =
    Return "action list"
  | Abort
  | Step "u64 \<Rightarrow> storage \<Rightarrow> storage" "u64 \<Rightarrow> storage \<Rightarrow> prog"

text \<open>A call with a result and an effect, a call that only reads, one that only writes, the clock.\<close>

definition locked_call :: "(storage \<Rightarrow> 'a \<times> storage) \<Rightarrow> ('a \<Rightarrow> prog) \<Rightarrow> prog" where
  "locked_call f k = Step (\<lambda>_ st. snd (f st)) (\<lambda>_ st. k (fst (f st)))"

definition locked_get :: "(storage \<Rightarrow> 'a) \<Rightarrow> ('a \<Rightarrow> prog) \<Rightarrow> prog" where
  "locked_get f k = Step (\<lambda>_ st. st) (\<lambda>_ st. k (f st))"

definition locked_put :: "(storage \<Rightarrow> storage) \<Rightarrow> prog \<Rightarrow> prog" where
  "locked_put f p = Step (\<lambda>_ st. f st) (\<lambda>_ _. p)"

definition read_clock :: "(u64 \<Rightarrow> prog) \<Rightarrow> prog" where
  "read_clock k = Step (\<lambda>_ st. st) (\<lambda>now _. k now)"

definition refuse :: "int \<Rightarrow> ApiStatusCode \<Rightarrow> string \<Rightarrow> prog" where
  "refuse st c desc = Return [SendErrorResponse st c desc]"

definition reply :: "string option \<Rightarrow> prog" where
  "reply body = (case body of None \<Rightarrow> Abort | Some b \<Rightarrow> Return [SendOkResponse b])"

section \<open>The helpers\<close>

definition par_check_pass :: "(string \<Rightarrow> u32) \<Rightarrow> 'c task \<Rightarrow> (db_user \<Rightarrow> prog) \<Rightarrow> prog" where
  "par_check_pass crc task k =
     locked_get (lookupUserById (p_uid (t_request task))) (\<lambda>user.
       if user_id user = 0 then refuse 409 ERR_CONSTRAINT ''user does not exist''
       else if encrypted crc (p_password (t_request task)) \<noteq> password user then
         refuse 403 ERR_CONSTRAINT ''wrong password''
       else k user)"

definition par_check_by_name :: "(string \<Rightarrow> u32) \<Rightarrow> string \<Rightarrow> 'c task \<Rightarrow> bool \<Rightarrow> (db_user \<Rightarrow> prog) \<Rightarrow> prog" where
  "par_check_by_name crc name task check_pass k =
     locked_get (lookupUserByName name) (\<lambda>us.
       case us of
         [] \<Rightarrow> refuse 404 ERR_NOT_FOUND ''user does not exist''
       | [user] \<Rightarrow>
           if check_pass \<and> encrypted crc (p_password (t_request task)) \<noteq> password user then
             refuse 403 ERR_CONSTRAINT ''wrong password''
           else k user
       | _ \<Rightarrow> refuse 500 ERR_INTERNAL ''more than one user with that name'')"

fun par_to_api_format :: "db_message list \<Rightarrow> api_message list \<Rightarrow> (api_message list \<Rightarrow> prog) \<Rightarrow> prog" where
  "par_to_api_format [] ret k = k ret"
| "par_to_api_format (msg # msgs) ret k =
     locked_get (lookupChatById (chat_to msg)) (\<lambda>chat.
       locked_get (lookupUserById (user_from msg)) (\<lambda>user.
         par_to_api_format msgs
           (ret @ [\<lparr>am_ts = ts msg, am_from = user_name user, am_to = chat_name chat, am_msg = message msg\<rparr>]) k))"

fun par_chat_rows :: "u64 list \<Rightarrow> db_chat list \<Rightarrow> (db_chat list \<Rightarrow> prog) \<Rightarrow> prog" where
  "par_chat_rows [] ret k = k ret"
| "par_chat_rows (i # is) ret k = locked_get (lookupChatById i) (\<lambda>chat. par_chat_rows is (ret @ [chat]) k)"

definition par_lookupChatsForUserId :: "u64 \<Rightarrow> (db_chat list \<Rightarrow> prog) \<Rightarrow> prog" where
  "par_lookupChatsForUserId uid k =
     locked_get (\<lambda>st. map cu_chatid (filter (\<lambda>cu. cu_uid cu = uid) (chatuser st))) (\<lambda>ids. par_chat_rows ids [] k)"

fun par_idle_loop :: "u64 \<Rightarrow> db_chat list \<Rightarrow> db_message list list \<Rightarrow> (db_message list list \<Rightarrow> prog) \<Rightarrow> prog" where
  "par_idle_loop t [] batch k = k batch"
| "par_idle_loop t (chat # cs) batch k =
     locked_call (getMessages (chat_id chat) (default_opt\<lparr>opt_ts := t\<rparr>)) (\<lambda>msgs.
       par_idle_loop t cs (if msgs \<noteq> [] then batch @ [msgs] else batch) k)"

section \<open>The commands\<close>

definition par_idle :: "(string \<Rightarrow> u32) \<Rightarrow> 'c task \<Rightarrow> prog" where
  "par_idle crc task =
     par_check_pass crc task (\<lambda>user.
       read_clock (\<lambda>now. locked_put (updateUserHeartBit user now) (
         par_lookupChatsForUserId (user_id user) (\<lambda>cs.
           par_idle_loop (p_ts (t_request task)) cs [] (\<lambda>batch.
             if batch \<noteq> [] then
               par_to_api_format (concat batch) [] (\<lambda>msgs. Return [SendMessagesToIdleConn msgs])
             else Return (if t_ping task then [SendMessagesToIdleConn []] else []))))))"

definition par_user_status :: "(string \<Rightarrow> u32) \<Rightarrow> 'c task \<Rightarrow> prog" where
  "par_user_status crc task =
     par_check_pass crc task (\<lambda>_.
       par_check_by_name crc (p_user (t_request task)) task False (\<lambda>user_to.
         read_clock (\<lambda>now. reply (ok_body_user now user_to))))"

definition par_user_history ::
  "(string \<Rightarrow> u32) \<Rightarrow> (db_message list \<Rightarrow> db_message list) \<Rightarrow> 'c task \<Rightarrow> prog" where
  "par_user_history crc srt task =
     par_check_pass crc task (\<lambda>uf.
       par_check_by_name crc (p_user (t_request task)) task False (\<lambda>ut.
         let opt = default_opt\<lparr>max_count := ucast (p_count (t_request task) * 2)\<rparr> in
         locked_get (selectMessages (\<lambda>msg. user_from msg = user_id uf \<and> chat_to msg = self_chat_id ut) opt) (\<lambda>msgs_to.
         locked_get (selectMessages (\<lambda>msg. user_from msg = user_id ut \<and> chat_to msg = self_chat_id uf) opt) (\<lambda>msgs_from.
           par_to_api_format (mix_from_and_to_messages srt msgs_from msgs_to (p_count (t_request task))) []
             (\<lambda>msgs. Return [SendMessages msgs])))))"

definition par_save :: "db_message \<Rightarrow> prog" where
  "par_save msg = read_clock (\<lambda>now. locked_put (saveMessage (msg\<lparr>ts := now\<rparr>)) (Return [SendOkResponse status_ok]))"

definition par_message_send :: "(string \<Rightarrow> u32) \<Rightarrow> 'c task \<Rightarrow> prog" where
  "par_message_send crc task =
     par_check_pass crc task (\<lambda>user.
       locked_get (lookupUserByName (p_to_user (t_request task))) (\<lambda>users_to.
         case users_to of
           [] \<Rightarrow> refuse 404 ERR_NOT_FOUND ''user to does not exist''
         | [user_to] \<Rightarrow> par_save (mk_message (user_id user) (self_chat_id user_to) (p_message (t_request task)))
         | _ \<Rightarrow> refuse 500 ERR_INTERNAL ''more than one user with that name''))"

definition par_user_create :: "(string \<Rightarrow> u32) \<Rightarrow> 'c task \<Rightarrow> prog" where
  "par_user_create crc task =
     locked_call (createUser (p_user (t_request task)) (encrypted crc (p_password (t_request task))) (t_storage task)) (\<lambda>user.
       if user_id user = 0 then refuse 409 ERR_CONSTRAINT ''user already exists''
       else read_clock (\<lambda>now. reply (ok_body_user now user)))"

definition par_user_login :: "(string \<Rightarrow> u32) \<Rightarrow> 'c task \<Rightarrow> prog" where
  "par_user_login crc task =
     par_check_by_name crc (p_user (t_request task)) task True (\<lambda>user.
       read_clock (\<lambda>now. reply (ok_body_user now user)))"

definition par_chat_create :: "(string \<Rightarrow> u32) \<Rightarrow> 'c task \<Rightarrow> prog" where
  "par_chat_create crc task =
     par_check_pass crc task (\<lambda>_.
       locked_call (createChat (p_chat_name (t_request task)) (p_uid (t_request task))) (\<lambda>chat.
         if chat_id chat = 0 then refuse 409 ERR_CONSTRAINT ''chat already exists''
         else read_clock (\<lambda>now. reply (ok_body_chat now chat))))"

definition par_chat_adduser :: "(string \<Rightarrow> u32) \<Rightarrow> 'c task \<Rightarrow> prog" where
  "par_chat_adduser crc task =
     par_check_pass crc task (\<lambda>_.
       par_check_by_name crc (p_chat_adduser (t_request task)) task False (\<lambda>to_add.
         locked_get (lookupChatByName (p_chat_name (t_request task))) (\<lambda>cs.
           case cs of
             [chat] \<Rightarrow>
               locked_put (addUserToChat chat to_add) (
                 read_clock (\<lambda>now. if ok_body_chat now chat = None then Abort else Return [SendOkResponse status_ok]))
           | _ \<Rightarrow> refuse 404 ERR_NOT_FOUND ''chat does not exist'')))"

definition par_message_send_chat :: "(string \<Rightarrow> u32) \<Rightarrow> 'c task \<Rightarrow> prog" where
  "par_message_send_chat crc task =
     par_check_pass crc task (\<lambda>user.
       locked_get (lookupChatByName (p_chat_name (t_request task))) (\<lambda>cs.
         case cs of
           [chat] \<Rightarrow> par_save (mk_message (user_id user) (chat_id chat) (p_message (t_request task)))
         | _ \<Rightarrow> refuse 404 ERR_NOT_FOUND ''chat does not exist''))"

definition par_task :: "(string \<Rightarrow> u32) \<Rightarrow> (db_message list \<Rightarrow> db_message list) \<Rightarrow> 'c task \<Rightarrow> prog" where
  "par_task crc srt task =
     (case t_cmd task of
        IDLE \<Rightarrow> par_idle crc task
      | USER_STATUS \<Rightarrow> par_user_status crc task
      | USER_HISTORY \<Rightarrow> par_user_history crc srt task
      | MESSAGE_SEND \<Rightarrow> par_message_send crc task
      | USER_CREATE \<Rightarrow> par_user_create crc task
      | USER_LOGIN \<Rightarrow> par_user_login crc task
      | CHAT_CREATE \<Rightarrow> par_chat_create crc task
      | CHAT_ADDUSER \<Rightarrow> par_chat_adduser crc task
      | MESSAGE_SEND_CHAT \<Rightarrow> par_message_send_chat crc task
      | _ \<Rightarrow> Return [])"

section \<open>Without interleaving\<close>

text \<open>All steps of one program in a row, at one time.\<close>

primrec run_alone :: "u64 \<Rightarrow> prog \<Rightarrow> storage \<Rightarrow> storage outcome" where
  "run_alone now (Return acts) = (\<lambda>st. Some (st, acts))"
| "run_alone now Abort = (\<lambda>st. None)"
| "run_alone now (Step f k) = (\<lambda>st. run_alone now (k now st) (f now st))"

lemma run_alone_steps [simp]:
  "run_alone now (locked_call f k) st = run_alone now (k (fst (f st))) (snd (f st))"
  "run_alone now (locked_get g k') st = run_alone now (k' (g st)) st"
  "run_alone now (locked_put h p) st = run_alone now p (h st)"
  "run_alone now (read_clock q) st = run_alone now (q now) st"
  "run_alone now (refuse e c d) st = Some (st, [SendErrorResponse e c d])"
  "run_alone now (reply body) st = ok_or_abort st body"
  by (simp_all add: locked_call_def locked_get_def locked_put_def read_clock_def refuse_def reply_def ok_or_abort_def
      split: option.split)

lemma run_to_api_format [simp]:
  "run_alone now (par_to_api_format msgs ret k) st = run_alone now (k (ret @ to_api_format InMemoryConnection st msgs)) st"
  by (induction msgs arbitrary: ret) (simp_all add: to_api_format_def to_api_message_def)

lemma run_chat_rows: "run_alone now (par_chat_rows is ret k) st = run_alone now (k (ret @ map (\<lambda>i. lookupChatById i st) is)) st"
  by (induction "is" arbitrary: ret) simp_all

lemma run_lookupChatsForUserId [simp]:
  "run_alone now (par_lookupChatsForUserId uid k) st = run_alone now (k (lookupChatsForUserId uid st)) st"
  by (simp add: par_lookupChatsForUserId_def run_chat_rows lookupChatsForUserId_def)

lemma run_idle_loop [simp]:
  "run_alone now (par_idle_loop t cs batch k) st =
     (case idle_loop InMemoryConnection t cs batch st of (batch', st') \<Rightarrow> run_alone now (k batch') st')"
proof (induction cs arbitrary: batch st)
  case (Cons chat cs)
  then show ?case by (cases "getMessages (chat_id chat) (default_opt\<lparr>opt_ts := t\<rparr>) st") simp
qed simp

lemma run_check_pass:
  "run_alone now (par_check_pass crc task k) st =
     (case lookup_check_pass crc InMemoryConnection task st of
        (user, acts) \<Rightarrow> if user_id user = 0 then Some (st, acts) else run_alone now (k user) st)"
  by (simp add: par_check_pass_def lookup_check_pass_def Let_def)

lemma lookupUserByName_id: "storage_inv st \<Longrightarrow> u \<in> set (lookupUserByName name st) \<Longrightarrow> user_id u \<noteq> 0"
  using user_id_nonzero [OF storage_invD(1)] by (auto simp: lookupUserByName_def)

lemma run_check_by_name:
  assumes "storage_inv st"
  shows "run_alone now (par_check_by_name crc name task b k) st =
     (case lookup_check_pass_by_name crc InMemoryConnection name task b st of
        (user, acts) \<Rightarrow> if user_id user = 0 then Some (st, acts) else run_alone now (k user) st)"
  using lookupUserByName_id [OF assms, of _ name]
  by (auto simp: par_check_by_name_def lookup_check_pass_by_name_def split: list.split)

lemma to_api_format_batch: "to_api_format_batch conn st batch = to_api_format conn st (concat batch)"
  by (simp add: to_api_format_batch_def to_api_format_def map_concat)

lemmas par_defs = par_idle_def par_user_status_def par_user_history_def par_message_send_def par_user_create_def
  par_user_login_def par_chat_create_def par_chat_adduser_def par_message_send_chat_def par_save_def

lemma run_alone_task:
  assumes "storage_inv st"
  shows "run_alone now (par_task crc srt task) st = process_task crc srt now InMemoryConnection task st"
  using assms
  by (cases "t_cmd task")
    (auto simp: par_task_def process_task_def par_defs task_defs run_check_pass run_check_by_name to_api_format_batch
      ok_or_abort_def Let_def ok_body_chat_text split: prod.split list.split if_split)

text \<open>
  (C7) The tree of locked calls and clock readings that stands for a task in the parallel
  server does, when nothing comes between its steps, what the function for the whole task
  does, for every command.
\<close>

theorem task_atomic_steps:
  assumes "storage_inv st"
  shows "run_alone now (par_task crc srt task) st = process_task crc srt now InMemoryConnection task st"
  using assms by (rule run_alone_task)

section \<open>Workers\<close>

text \<open>
  The queue, the storage, and for each worker the task it is at: the client and what is left
  of the program. \<open>worker_step i\<close> lets worker \<open>i\<close> do its next step: take a task (or sleep on an
  empty queue), one atomic step, or hand the answers over.
\<close>

record 'c pool =
  pl_queue :: "'c task lock_queue"
  pl_db :: storage
  pl_busy :: "('c \<times> prog) option list"
  pl_sent :: "('c \<times> action) list"

definition worker_step ::
  "(string \<Rightarrow> u32) \<Rightarrow> (db_message list \<Rightarrow> db_message list) \<Rightarrow> u64 \<Rightarrow> nat \<Rightarrow> 'c pool \<Rightarrow> 'c pool option" where
  "worker_step crc srt now i pl =
     (if length (pl_busy pl) \<le> i then Some pl
      else
        (case pl_busy pl ! i of
           None \<Rightarrow>
             (case getTask (pl_queue pl) of
                None \<Rightarrow> Some pl
              | Some (task, q) \<Rightarrow>
                  Some (pl\<lparr>pl_queue := q, pl_busy := (pl_busy pl)[i := Some (t_client task, par_task crc srt task)]\<rparr>))
         | Some (c, Return acts) \<Rightarrow>
             Some (pl\<lparr>pl_busy := (pl_busy pl)[i := None], pl_sent := pl_sent pl @ map (Pair c) acts\<rparr>)
         | Some (c, Abort) \<Rightarrow> None
         | Some (c, Step f k) \<Rightarrow>
             Some (pl\<lparr>pl_db := f now (pl_db pl), pl_busy := (pl_busy pl)[i := Some (c, k now (pl_db pl))]\<rparr>)))"

text \<open>A schedule: which worker is next, and the time then.\<close>

fun run_schedule ::
  "(string \<Rightarrow> u32) \<Rightarrow> (db_message list \<Rightarrow> db_message list) \<Rightarrow> (u64 \<times> nat) list \<Rightarrow> 'c pool \<Rightarrow> 'c pool option" where
  "run_schedule crc srt [] pl = Some pl"
| "run_schedule crc srt ((now, i) # sched) pl =
     Option.bind (worker_step crc srt now i pl) (run_schedule crc srt sched)"

definition new_pool :: "nat \<Rightarrow> 'c task list \<Rightarrow> storage \<Rightarrow> 'c pool" where
  "new_pool workers tasks st =
     \<lparr>pl_queue = \<lparr>m_Queue = tasks\<rparr>, pl_db = st, pl_busy = replicate workers None, pl_sent = []\<rparr>"

section \<open>What the others may do\<close>

text \<open>
  Rows are only appended; what changes in a row is the heart bit of a user and the flags of a
  message. So what a task has looked up stays there whatever the other workers do. \<open>grows\<close> is
  what every step guarantees and what every task relies on.
\<close>

definition frozen :: "db_user \<Rightarrow> db_user" where
  "frozen u = u\<lparr>heartbit := 0\<rparr>"

definition grows :: "storage \<Rightarrow> storage \<Rightarrow> bool" where
  "grows st st' \<longleftrightarrow>
     prefix (map frozen (users st)) (map frozen (users st')) \<and> prefix (chats st) (chats st') \<and>
     prefix (chatuser st) (chatuser st') \<and> prefix (map unflag (messages st)) (map unflag (messages st'))"

lemma grows_refl [simp]: "grows st st"
  by (simp add: grows_def)

lemma grows_trans: "grows st st' \<Longrightarrow> grows st' st'' \<Longrightarrow> grows st st''"
  unfolding grows_def by (meson prefix_order.trans)

lemma user_id_frozen: "user_id ` set us = user_id ` set (map frozen us)"
  by (simp add: image_image frozen_def)

lemma grows_ids:
  assumes "grows st st'"
  shows "user_id ` set (users st) \<subseteq> user_id ` set (users st')" "chat_id ` set (chats st) \<subseteq> chat_id ` set (chats st')"
proof -
  have p: "prefix (map frozen (users st)) (map frozen (users st'))" "prefix (chats st) (chats st')"
    using assms by (simp_all add: grows_def)
  have "set (map frozen (users st)) \<subseteq> set (map frozen (users st'))" "set (chats st) \<subseteq> set (chats st')"
    using set_mono_prefix [OF p(1)] set_mono_prefix [OF p(2)] .
  then show "user_id ` set (users st) \<subseteq> user_id ` set (users st')" "chat_id ` set (chats st) \<subseteq> chat_id ` set (chats st')"
    unfolding user_id_frozen [of "users st"] user_id_frozen [of "users st'"] by blast+
qed

lemma heartbit_frozen: "map frozen (set_heartbit i t us) = map frozen us"
  by (rule set_heartbit_map) (simp add: frozen_def)

lemma ops_grow [simp]:
  "grows st (updateUserHeartBit u t st)" "grows st (saveMessage m st)" "grows st (addUserToChat c v st)"
  "grows st (snd (getMessages i opt st))" "grows st (snd (createUser n p s st))" "grows st (snd (createChat n j st))"
  by (simp_all add: grows_def updateUserHeartBit_def heartbit_frozen saveMessage_def addUserToChat_def
      getMessages_unflag createUser_def createChat_def Let_def)

definition step_ok :: "storage \<Rightarrow> storage \<Rightarrow> bool" where
  "step_ok st st' \<longleftrightarrow> storage_inv st' \<and> grows st st' \<and>
     chat_autoincrement st' \<in> {chat_autoincrement st, chat_autoincrement st + 1}"

lemma step_okI [intro]:
  "storage_inv st \<Longrightarrow> step_ok st st"
  "storage_inv st \<Longrightarrow> step_ok st (updateUserHeartBit u t st)"
  "storage_inv st \<Longrightarrow> step_ok st (snd (getMessages i opt st))"
  "storage_inv st \<Longrightarrow> user_from m \<in> user_id ` set (users st) \<Longrightarrow> chat_to m \<in> chat_id ` set (chats st) \<Longrightarrow>
     step_ok st (saveMessage m st)"
  "storage_inv st \<Longrightarrow> chat_id c \<in> chat_id ` set (chats st) \<Longrightarrow> user_id v \<in> user_id ` set (users st) \<Longrightarrow>
     step_ok st (addUserToChat c v st)"
  "storage_inv st \<Longrightarrow> has_room st \<Longrightarrow> step_ok st (snd (createUser n p s st))"
  "storage_inv st \<Longrightarrow> has_room st \<Longrightarrow> j \<in> user_id ` set (users st) \<Longrightarrow> step_ok st (snd (createChat n j st))"
  using create_autoincrement
  by (auto simp: step_ok_def db_inv intro!: db_inv)

section \<open>Programs that keep the storage\<close>

text \<open>
  \<open>safe p st\<close>: from any storage that others made of \<open>st\<close>, each step of \<open>p\<close> keeps the invariant
  and only appends, and \<open>p\<close> does not abort.
\<close>

primrec safe :: "prog \<Rightarrow> storage \<Rightarrow> bool" where
  "safe (Return acts) = (\<lambda>st. True)"
| "safe Abort = (\<lambda>st. False)"
| "safe (Step f k) = (\<lambda>st. \<forall>now st'. grows st st' \<and> storage_inv st' \<and> has_room st' \<longrightarrow>
     step_ok st' (f now st') \<and> safe (k now st') (f now st'))"

lemma safe_grows: "safe p st \<Longrightarrow> grows st st' \<Longrightarrow> safe p st'"
  by (cases p) (auto intro: grows_trans)

lemma safe_get:
  assumes "\<And>st'. grows st st' \<Longrightarrow> storage_inv st' \<Longrightarrow> safe (k (f st')) st'"
  shows "safe (locked_get f k) st"
  using assms by (auto simp: locked_get_def)

lemma safe_clock:
  assumes "\<And>now st'. grows st st' \<Longrightarrow> storage_inv st' \<Longrightarrow> safe (k now) st'"
  shows "safe (read_clock k) st"
  using assms by (auto simp: read_clock_def)

lemma safe_put:
  assumes "\<And>st'. grows st st' \<Longrightarrow> storage_inv st' \<Longrightarrow> has_room st' \<Longrightarrow> step_ok st' (f st') \<and> safe p (f st')"
  shows "safe (locked_put f p) st"
  using assms by (auto simp: locked_put_def)

lemma safe_call:
  assumes "\<And>st'. grows st st' \<Longrightarrow> storage_inv st' \<Longrightarrow> has_room st' \<Longrightarrow>
    step_ok st' (snd (f st')) \<and> safe (k (fst (f st'))) (snd (f st'))"
  shows "safe (locked_call f k) st"
  using assms by (auto simp: locked_call_def)

lemma safe_refuse [simp]: "safe (refuse e c d) st"
  by (simp add: refuse_def)

lemma safe_reply [simp]:
  "safe (reply (ok_body_user now u)) st"
  "safe (reply (ok_body_chat now c)) st"
  by (simp_all add: reply_def ok_body_user_text ok_body_chat_text)

section \<open>Every task is safe\<close>

lemma safe_to_api_format:
  assumes "\<And>ms st. safe (k ms) st" shows "safe (par_to_api_format msgs ret k) st"
  using assms by (induction msgs arbitrary: ret st) (auto intro!: safe_get)

lemma safe_chat_rows:
  assumes "\<And>cs st. safe (k cs) st" shows "safe (par_chat_rows is ret k) st"
  using assms by (induction "is" arbitrary: ret st) (auto intro!: safe_get)

lemma safe_idle_loop:
  assumes "\<And>batch st. safe (k batch) st" shows "safe (par_idle_loop t cs batch k) st"
  using assms by (induction cs arbitrary: batch st) (auto intro!: safe_call)

text \<open>What a check passes on is a user of the storage.\<close>

definition known_user :: "storage \<Rightarrow> db_user \<Rightarrow> bool" where
  "known_user st u \<longleftrightarrow> user_id u \<in> user_id ` set (users st) \<and> self_chat_id u \<in> chat_id ` set (chats st)"

lemma users_known: "storage_inv st \<Longrightarrow> u \<in> set (users st) \<Longrightarrow> known_user st u"
  by (force simp: known_user_def inv_defs)

lemma known_grows: "grows st st' \<Longrightarrow> known_user st u \<Longrightarrow> known_user st' u"
  using grows_ids [of st st'] by (auto simp: known_user_def)

lemma find_SomeD: "List.find P xs = Some x \<Longrightarrow> x \<in> set xs \<and> P x"
  by (auto simp: find_Some_iff)

lemma lookupUserById_in:
  "user_id (lookupUserById i st) \<noteq> 0 \<Longrightarrow> lookupUserById i st \<in> set (users st) \<and> user_id (lookupUserById i st) = i"
  by (cases "List.find (\<lambda>u. user_id u = i) (users st)") (use find_SomeD in \<open>fastforce simp: lookupUserById_def no_user_def\<close>)+

lemma safe_check_pass:
  assumes "\<And>u st'. grows st st' \<Longrightarrow> storage_inv st' \<Longrightarrow> known_user st' u \<Longrightarrow> user_id u = p_uid (t_request task) \<Longrightarrow> safe (k u) st'"
  shows "safe (par_check_pass crc task k) st"
  unfolding par_check_pass_def
proof (rule safe_get)
  fix st' assume st': "grows st st'" "storage_inv st'"
  let ?u = "lookupUserById (p_uid (t_request task)) st'"
  show "safe (if user_id ?u = 0 then refuse 409 ERR_CONSTRAINT ''user does not exist''
      else if encrypted crc (p_password (t_request task)) \<noteq> password ?u then refuse 403 ERR_CONSTRAINT ''wrong password''
      else k ?u) st'"
    using assms st' lookupUserById_in [of "p_uid (t_request task)" st'] users_known [OF st'(2)] by auto
qed

lemma safe_check_by_name:
  assumes "\<And>u st'. grows st st' \<Longrightarrow> storage_inv st' \<Longrightarrow> known_user st' u \<Longrightarrow> safe (k u) st'"
  shows "safe (par_check_by_name crc name task b k) st"
  unfolding par_check_by_name_def
proof (rule safe_get)
  fix st' assume st': "grows st st'" "storage_inv st'"
  have "known_user st' u" if "u \<in> set (lookupUserByName name st')" for u
    using users_known [OF st'(2)] that by (auto simp: lookupUserByName_def)
  then show "safe (case lookupUserByName name st' of
      [] \<Rightarrow> refuse 404 ERR_NOT_FOUND ''user does not exist''
    | [u] \<Rightarrow> if b \<and> encrypted crc (p_password (t_request task)) \<noteq> password u
        then refuse 403 ERR_CONSTRAINT ''wrong password'' else k u
    | u # v # us \<Rightarrow> refuse 500 ERR_INTERNAL ''more than one user with that name'') st'"
    using assms st' by (auto split: list.split)
qed

lemma safe_save:
  assumes "user_from m \<in> user_id ` set (users st)" "chat_to m \<in> chat_id ` set (chats st)"
  shows "safe (par_save m) st"
  unfolding par_save_def
proof (intro safe_clock safe_put conjI)
  fix now st' st'' assume st: "grows st st'" "grows st' st''" "storage_inv st''"
  have "grows st st''" by (rule grows_trans [OF st(1,2)])
  from grows_ids [OF this] show "step_ok st'' (saveMessage (m\<lparr>ts := now\<rparr>) st'')"
    using assms st(3) by (intro step_okI) auto
qed (simp add: assms)

lemma lookupChatByName_in: "c \<in> set (lookupChatByName n st) \<Longrightarrow> c \<in> set (chats st)"
  by (simp add: lookupChatByName_def)

lemma task_safe: "safe (par_task crc srt task) st"
proof (cases "t_cmd task")
  case IDLE
  then show ?thesis unfolding par_task_def par_idle_def par_lookupChatsForUserId_def
    by (auto intro!: safe_check_pass safe_clock safe_put safe_get safe_chat_rows safe_idle_loop safe_to_api_format)
next
  case MESSAGE_SEND
  have "safe (case lookupUserByName n st' of [] \<Rightarrow> refuse 404 ERR_NOT_FOUND ''user to does not exist''
      | [v] \<Rightarrow> par_save (mk_message (user_id u) (self_chat_id v) msg)
      | v # w # vs \<Rightarrow> refuse 500 ERR_INTERNAL ''more than one user with that name'') st'"
    if "known_user st' u" "storage_inv st'" for n u msg st'
    using that users_known [OF that(2)]
    by (auto simp: lookupUserByName_def known_user_def mk_message_def filter_eq_Cons_iff split: list.split intro!: safe_save)
  with MESSAGE_SEND show ?thesis unfolding par_task_def par_message_send_def
    by (auto intro!: safe_check_pass safe_get dest: known_grows)
next
  case MESSAGE_SEND_CHAT
  have "safe (case lookupChatByName n st' of [c] \<Rightarrow> par_save (mk_message (user_id u) (chat_id c) msg)
      | _ \<Rightarrow> refuse 404 ERR_NOT_FOUND ''chat does not exist'') st'"
    if "known_user st' u" for n u msg st'
    using that lookupChatByName_in [of _ n st']
    by (auto simp: known_user_def mk_message_def split: list.split intro!: safe_save)
  with MESSAGE_SEND_CHAT show ?thesis unfolding par_task_def par_message_send_chat_def
    by (auto intro!: safe_check_pass safe_get dest: known_grows)
next
  case CHAT_ADDUSER
  have "safe (case lookupChatByName n st' of [c] \<Rightarrow> locked_put (addUserToChat c v)
        (read_clock (\<lambda>now. if ok_body_chat now c = None then Abort else Return [SendOkResponse status_ok]))
      | _ \<Rightarrow> refuse 404 ERR_NOT_FOUND ''chat does not exist'') st'"
    if "known_user st' v" for n v st'
  proof -
    have "step_ok st'' (addUserToChat c v st'')"
      if "lookupChatByName n st' = [c]" "grows st' st''" "storage_inv st''" for c st''
      using \<open>known_user st' v\<close> that grows_ids [OF that(2)] lookupChatByName_in [of c n st']
      by (intro step_okI) (auto simp: known_user_def)
    then show ?thesis
      by (auto simp: ok_body_chat_text split: list.split intro!: safe_put safe_clock)
  qed
  with CHAT_ADDUSER show ?thesis unfolding par_task_def par_chat_adduser_def
    by (auto intro!: safe_check_pass safe_check_by_name safe_get dest: known_grows)
next
  case CHAT_CREATE
  have "step_ok st'' (snd (createChat n (p_uid (t_request task)) st''))"
    if "known_user st' u" "user_id u = p_uid (t_request task)" "grows st' st''" "storage_inv st''" "has_room st''" for n u st' st''
    using that grows_ids [OF that(3)] by (intro step_okI) (auto simp: known_user_def)
  with CHAT_CREATE show ?thesis unfolding par_task_def par_chat_create_def
    by (auto intro!: safe_check_pass safe_call safe_clock)
next
  case USER_CREATE
  then show ?thesis unfolding par_task_def par_user_create_def by (auto intro!: safe_call safe_clock)
qed (auto simp: par_task_def par_user_status_def par_user_history_def par_user_login_def Let_def
    intro!: safe_check_pass safe_check_by_name safe_get safe_clock safe_to_api_format)

section \<open>Any number of workers, any schedule\<close>

text \<open>What every step of every worker keeps; \<open>n\<close> is how many more chats have room.\<close>

definition pool_inv :: "nat \<Rightarrow> 'c pool \<Rightarrow> bool" where
  "pool_inv n pl \<longleftrightarrow> storage_inv (pl_db pl) \<and> chat_room n (pl_db pl) \<and>
     (\<forall>c p. Some (c, p) \<in> set (pl_busy pl) \<longrightarrow> safe p (pl_db pl))"

lemma pool_invD:
  "pool_inv n pl \<Longrightarrow> storage_inv (pl_db pl)"
  "pool_inv n pl \<Longrightarrow> chat_room n (pl_db pl)"
  "pool_inv n pl \<Longrightarrow> i < length (pl_busy pl) \<Longrightarrow> pl_busy pl ! i = Some (c, p) \<Longrightarrow> safe p (pl_db pl)"
  by (auto simp: pool_inv_def dest: nth_mem)

lemma chat_room_less: "chat_room (Suc n) st \<Longrightarrow> chat_room n st"
  by (simp add: chat_room_def)

lemma pool_inv_set:
  assumes "pool_inv (Suc n) pl" "step_ok (pl_db pl) st'" "safe p st'"
  shows "pool_inv n (pl\<lparr>pl_db := st', pl_busy := (pl_busy pl)[i := Some (c, p)]\<rparr>)"
proof -
  have g: "grows (pl_db pl) st'" and "storage_inv st'"
    and "chat_autoincrement st' \<in> {chat_autoincrement (pl_db pl), chat_autoincrement (pl_db pl) + 1}"
    using assms(2) by (auto simp: step_ok_def)
  moreover have "chat_room n st'"
    using chat_room_step [OF pool_invD(2) [OF assms(1)]] calculation by simp
  ultimately show ?thesis
    using assms safe_grows [OF _ g] set_update_subset_insert [of "pl_busy pl" i "Some (c, p)"]
    by (fastforce simp: pool_inv_def)
qed

text \<open>The cases of a step.\<close>

lemma worker_step_cases:
  obtains (absent) "length (pl_busy pl) \<le> i" "worker_step crc srt now i pl = Some pl"
  | (asleep) "i < length (pl_busy pl)" "pl_busy pl ! i = None" "m_Queue (pl_queue pl) = []"
      "worker_step crc srt now i pl = Some pl"
  | (takes) task tasks where "i < length (pl_busy pl)" "pl_busy pl ! i = None" "m_Queue (pl_queue pl) = task # tasks"
      "worker_step crc srt now i pl =
         Some (pl\<lparr>pl_queue := \<lparr>m_Queue = tasks\<rparr>, pl_busy := (pl_busy pl)[i := Some (t_client task, par_task crc srt task)]\<rparr>)"
  | (hands) c acts where "i < length (pl_busy pl)" "pl_busy pl ! i = Some (c, Return acts)"
      "worker_step crc srt now i pl =
         Some (pl\<lparr>pl_busy := (pl_busy pl)[i := None], pl_sent := pl_sent pl @ map (Pair c) acts\<rparr>)"
  | (aborts) c where "i < length (pl_busy pl)" "pl_busy pl ! i = Some (c, Abort)" "worker_step crc srt now i pl = None"
  | (steps) c f k where "i < length (pl_busy pl)" "pl_busy pl ! i = Some (c, Step f k)"
      "worker_step crc srt now i pl =
         Some (pl\<lparr>pl_db := f now (pl_db pl), pl_busy := (pl_busy pl)[i := Some (c, k now (pl_db pl))]\<rparr>)"
proof (cases "i < length (pl_busy pl)")
  case True
  note i = True
  show thesis
  proof (cases "pl_busy pl ! i")
    case None
    with i show thesis
      by (cases "m_Queue (pl_queue pl)") (auto simp: worker_step_def getTask_def intro: asleep takes)
  next
    case (Some b)
    moreover obtain c p where "b = (c, p)" by fastforce
    ultimately show thesis using i by (cases p) (auto simp: worker_step_def intro: hands aborts steps)
  qed
qed (simp add: worker_step_def absent)

lemma worker_step_keeps:
  assumes "pool_inv (Suc n) pl"
  shows "\<exists>pl'. worker_step crc srt now i pl = Some pl' \<and> pool_inv n pl' \<and> grows (pl_db pl) (pl_db pl')"
proof (cases rule: worker_step_cases [of pl i crc srt now])
  case (takes task tasks)
  then show ?thesis using pool_inv_set [OF assms step_okI(1) [OF pool_invD(1) [OF assms]] task_safe]
    by (simp add: pool_inv_def)
next
  case (hands c acts)
  then show ?thesis using assms set_update_subset_insert [of "pl_busy pl" i None] chat_room_less
    by (force simp: pool_inv_def)
next
  case (aborts c)
  then show ?thesis using pool_invD(3) [OF assms] by fastforce
next
  case (steps c f k)
  have "step_ok (pl_db pl) (f now (pl_db pl))" "safe (k now (pl_db pl)) (f now (pl_db pl))"
    using pool_invD(3) [OF assms steps(1,2)] pool_invD(1) [OF assms] chat_room_has_room [OF pool_invD(2) [OF assms]]
    by auto
  with steps pool_inv_set [OF assms this] show ?thesis by (simp add: step_ok_def)
qed (use assms chat_room_less in \<open>auto simp: pool_inv_def\<close>)

lemma schedule_keeps:
  "pool_inv (length sched) pl \<Longrightarrow>
     \<exists>pl'. run_schedule crc srt sched pl = Some pl' \<and> pool_inv 0 pl' \<and> grows (pl_db pl) (pl_db pl')"
proof (induction sched arbitrary: pl)
  case (Cons e sched)
  obtain now i where [simp]: "e = (now, i)" by fastforce
  from worker_step_keeps [of "length sched" pl crc srt now i] Cons.prems obtain pl1 where pl1:
    "worker_step crc srt now i pl = Some pl1" "pool_inv (length sched) pl1" "grows (pl_db pl) (pl_db pl1)" by auto
  from Cons.IH [OF pl1(2)] pl1 show ?case by (auto intro: grows_trans)
qed simp

lemma new_pool_inv: "storage_inv st \<Longrightarrow> chat_room n st \<Longrightarrow> pool_inv n (new_pool workers tasks st)"
  by (simp add: pool_inv_def new_pool_def)

text \<open>
  (C16) For every schedule of any number of workers over any queue of tasks no worker aborts
  the process, rows are only appended to the tables (up to the heart bit of a user and the
  read flag of a message), and the storage satisfies its invariant.
\<close>

theorem parallel_keeps_storage:
  assumes "storage_inv st" "chat_room (length sched) st"
  shows "\<exists>pl. run_schedule crc srt sched (new_pool workers tasks st) = Some pl \<and>
    storage_inv (pl_db pl) \<and> grows st (pl_db pl)"
  using schedule_keeps [OF new_pool_inv [OF assms], of crc srt workers tasks]
  by (auto simp: pool_inv_def new_pool_def)

section \<open>One answer for each request\<close>

text \<open>
  \<open>yields Q p\<close>: whatever the storage and the clock are at its steps, \<open>p\<close> does not abort and
  the answers it ends with satisfy \<open>Q\<close>.
\<close>

primrec yields :: "(action list \<Rightarrow> bool) \<Rightarrow> prog \<Rightarrow> bool" where
  "yields Q (Return acts) = Q acts"
| "yields Q Abort = False"
| "yields Q (Step f k) = (\<forall>now st. yields Q (k now st))"

lemma yields_step [simp]:
  "yields Q (locked_call f k) = (\<forall>st. yields Q (k (fst (f st))))" "yields Q (locked_get g k') = (\<forall>st. yields Q (k' (g st)))"
  "yields Q (locked_put h p) = yields Q p" "yields Q (read_clock q) = (\<forall>now. yields Q (q now))"
  "yields Q (refuse e c d) = Q [SendErrorResponse e c d]"
  "yields Q (reply (ok_body_user now u)) = Q [SendOkResponse (the (ok_body_user now u))]"
  "yields Q (reply (ok_body_chat now ch)) = Q [SendOkResponse (the (ok_body_chat now ch))]"
  by (simp_all add: locked_call_def locked_get_def locked_put_def read_clock_def refuse_def reply_def
      ok_body_user_text ok_body_chat_text)

lemma yields_to_api_format: "(\<And>ms. yields Q (k ms)) \<Longrightarrow> yields Q (par_to_api_format msgs ret k)"
  by (induction msgs arbitrary: ret) simp_all

lemma yields_chat_rows: "(\<And>cs. yields Q (k cs)) \<Longrightarrow> yields Q (par_chat_rows is ret k)"
  by (induction "is" arbitrary: ret) simp_all

lemma yields_idle_loop: "(\<And>b. yields Q (k b)) \<Longrightarrow> yields Q (par_idle_loop t cs batch k)"
  by (induction cs arbitrary: batch) simp_all

lemma ok_body_chat_some [simp]: "ok_body_chat now ch \<noteq> None"
  by (simp add: ok_body_chat_text)

lemma task_yields: "yields (\<lambda>acts. length acts \<le> 1 \<and> (answered (t_cmd task) \<longrightarrow> acts \<noteq> [])) (par_task crc srt task)"
  by (cases "t_cmd task")
    (auto simp: par_task_def par_defs par_check_pass_def par_check_by_name_def par_lookupChatsForUserId_def answered_def
      Let_def split: list.split intro!: yields_to_api_format yields_chat_rows yields_idle_loop)

text \<open>How many requests of a client wait or are worked on, and how many answers it got.\<close>

definition outstanding :: "'c \<Rightarrow> 'c pool \<Rightarrow> nat" where
  "outstanding c pl = count_list (map t_client (m_Queue (pl_queue pl))) c + count_list (map (map_option fst) (pl_busy pl)) (Some c)"

definition answers_to :: "'c \<Rightarrow> 'c pool \<Rightarrow> nat" where
  "answers_to c pl = count_list (map fst (pl_sent pl)) c"

lemma count_list_set: "i < length xs \<Longrightarrow> count_list (xs[i := y]) a + of_bool (xs ! i = a) = count_list xs a + of_bool (y = a)"
proof (induction xs arbitrary: i)
  case (Cons x xs)
  then show ?case using Cons.IH [of "i - 1"] by (cases i) auto
qed simp

lemma count_list_replicate [simp]: "count_list (replicate n x) a = (if x = a then n else 0)"
  by (induction n) auto

text \<open>All requests of \<open>c\<close>, waiting or worked on, are of commands with an answer.\<close>

definition owes :: "'c \<Rightarrow> 'c pool \<Rightarrow> bool" where
  "owes c pl \<longleftrightarrow> (\<forall>t \<in> set (m_Queue (pl_queue pl)). t_client t = c \<longrightarrow> answered (t_cmd t)) \<and>
     (\<forall>c' p. Some (c', p) \<in> set (pl_busy pl) \<longrightarrow> yields (\<lambda>acts. length acts \<le> 1 \<and> (c' = c \<longrightarrow> acts \<noteq> [])) p)"

lemma yields_mono: "yields Q p \<Longrightarrow> (\<And>acts. Q acts \<Longrightarrow> R acts) \<Longrightarrow> yields R p"
  by (induction p) auto

lemma owesD: "owes c pl \<Longrightarrow> i < length (pl_busy pl) \<Longrightarrow> pl_busy pl ! i = Some (c', p) \<Longrightarrow>
    yields (\<lambda>acts. length acts \<le> 1 \<and> (c' = c \<longrightarrow> acts \<noteq> [])) p"
  unfolding owes_def by (metis nth_mem)

lemma owes_set:
  assumes "owes c pl" "set (m_Queue (pl_queue pl')) \<subseteq> set (m_Queue (pl_queue pl))" "pl_busy pl' = (pl_busy pl)[i := b]"
    and "\<And>c' p. b = Some (c', p) \<Longrightarrow> yields (\<lambda>acts. length acts \<le> 1 \<and> (c' = c \<longrightarrow> acts \<noteq> [])) p"
  shows "owes c pl'"
  using assms set_update_subset_insert [of "pl_busy pl" i b] by (fastforce simp: owes_def)

lemma worker_step_owes:
  assumes "owes c pl"
  shows "\<exists>pl'. worker_step crc srt now i pl = Some pl' \<and> owes c pl' \<and>
    length (pl_busy pl') = length (pl_busy pl) \<and> answers_to c pl' + outstanding c pl' = answers_to c pl + outstanding c pl"
proof (cases rule: worker_step_cases [of pl i crc srt now])
  case (takes task tasks)
  let ?pl' = "pl\<lparr>pl_queue := \<lparr>m_Queue = tasks\<rparr>, pl_busy := (pl_busy pl)[i := Some (t_client task, par_task crc srt task)]\<rparr>"
  have "yields (\<lambda>acts. length acts \<le> 1 \<and> (t_client task = c \<longrightarrow> acts \<noteq> [])) (par_task crc srt task)"
    by (rule yields_mono [OF task_yields]) (use assms takes(3) in \<open>auto simp: owes_def\<close>)
  then have "owes c ?pl'" by (intro owes_set [OF assms]) (use takes(3) in auto)
  then show ?thesis
    using takes count_list_set [of i "map (map_option fst) (pl_busy pl)" "Some (t_client task)" "Some c"]
    by (auto simp: outstanding_def answers_to_def map_update)
next
  case (hands c' acts)
  let ?pl' = "pl\<lparr>pl_busy := (pl_busy pl)[i := None], pl_sent := pl_sent pl @ map (Pair c') acts\<rparr>"
  from owesD [OF assms hands(1,2)] have "length acts \<le> 1" "c' = c \<Longrightarrow> acts \<noteq> []" by auto
  then have "count_list (map fst (map (Pair c') acts)) c = of_bool (c' = c)"
    by (cases acts) auto
  moreover have "owes c ?pl'" by (rule owes_set [OF assms]) auto
  ultimately show ?thesis
    using hands count_list_set [of i "map (map_option fst) (pl_busy pl)" None "Some c"]
    by (auto simp: outstanding_def answers_to_def map_update)
next
  case (aborts c')
  from owesD [OF assms aborts(1,2)] show ?thesis by simp
next
  case (steps c' f k)
  let ?pl' = "pl\<lparr>pl_db := f now (pl_db pl), pl_busy := (pl_busy pl)[i := Some (c', k now (pl_db pl))]\<rparr>"
  have "owes c ?pl'" by (rule owes_set [OF assms]) (use owesD [OF assms steps(1,2)] in auto)
  then show ?thesis
    using steps count_list_set [of i "map (map_option fst) (pl_busy pl)" "Some c'" "Some c"]
    by (auto simp: outstanding_def answers_to_def map_update)
qed (use assms in auto)

section \<open>Every request is answered\<close>

text \<open>
  A step of a program leaves one of its subtrees, so no program goes on for ever; a pool gets
  smaller with every step that is not the sleep of an idle worker.
\<close>

definition branches :: "(u64 \<Rightarrow> storage \<Rightarrow> prog) \<Rightarrow> prog set" where
  "branches k = (\<Union>now. range (k now))"

lemma branches_memb [simp]: "k now st \<in> branches k"
  by (auto simp: branches_def)

inductive_set slot_rel :: "(('c \<times> prog) option \<times> ('c \<times> prog) option) set" where
  handed: "(None, Some (c, p)) \<in> slot_rel"
| stepped: "q \<in> branches k \<Longrightarrow> (Some (c, q), Some (c, Step f k)) \<in> slot_rel"

inductive_cases below_idle: "(b, None) \<in> slot_rel"
inductive_cases below_busy: "(b, Some (c, p)) \<in> slot_rel"
inductive_simps slot_simps [simp]: "(None, Some (c, p)) \<in> slot_rel" "(b, Some (c, Return acts)) \<in> slot_rel"
  "(b, Some (c, Abort)) \<in> slot_rel" "(b, Some (c, Step f k)) \<in> slot_rel"

lemma idle_acc: "None \<in> Wellfounded.acc slot_rel"
  by (rule accI) (elim below_idle)

lemma busy_acc: "Some (c, p) \<in> Wellfounded.acc slot_rel"
proof (induction p)
  case (Step f k)
  have "Some (c, q) \<in> Wellfounded.acc slot_rel" if "q \<in> branches k" for q
  proof -
    from that obtain now st where q: "q = k now st" unfolding branches_def by (elim UN_E rangeE)
    show ?thesis unfolding q by (rule Step [OF rangeI [of k now] rangeI [of "k now" st]])
  qed
  then show ?case using idle_acc by - (rule accI, auto)
qed (rule accI, use idle_acc in auto)+

lemma wf_slot_rel: "wf slot_rel"
proof (rule acc_wfI, rule allI)
  fix b :: "('a \<times> prog) option"
  show "b \<in> Wellfounded.acc slot_rel" by (cases b) (use idle_acc busy_acc in auto)
qed

definition pool_rel :: "('c pool \<times> 'c pool) set" where
  "pool_rel = inv_image (less_than <*lex*> mult slot_rel) (\<lambda>pl. (length (m_Queue (pl_queue pl)), mset (pl_busy pl)))"

lemma wf_pool_rel: "wf pool_rel"
  unfolding pool_rel_def by (intro wf_inv_image wf_lex_prod wf_less_than wf_mult wf_slot_rel)

lemma mset_slot_less:
  assumes "i < length bs" "(b, bs ! i) \<in> slot_rel" shows "(mset (bs[i := b]), mset bs) \<in> mult slot_rel"
proof -
  have "(mset (bs[i := b]), mset bs) \<in> mult1 slot_rel"
    by (rule mult1I [of _ "bs ! i" "mset bs - {# bs ! i #}" _ "{# b #}"]) (use assms in \<open>auto simp: mset_update\<close>)
  then show ?thesis unfolding mult_def by (rule r_into_trancl)
qed

lemma worker_step_less: "worker_step crc srt now i pl = Some pl' \<Longrightarrow> pl' = pl \<or> (pl', pl) \<in> pool_rel"
  by (cases rule: worker_step_cases [of pl i crc srt now])
    (auto simp: pool_rel_def intro!: mset_slot_less)

definition idle_pool :: "'c pool \<Rightarrow> bool" where
  "idle_pool pl \<longleftrightarrow> m_Queue (pl_queue pl) = [] \<and> (\<forall>b \<in> set (pl_busy pl). b = None)"

text \<open>A schedule is fair when every worker always gets another turn.\<close>

definition fair_schedule :: "nat \<Rightarrow> (nat \<Rightarrow> u64 \<times> nat) \<Rightarrow> bool" where
  "fair_schedule workers sched \<longleftrightarrow> (\<forall>i < workers. \<forall>n. \<exists>m \<ge> n. snd (sched m) = i)"

lemma pool_rel_irrefl: "(pl, pl) \<notin> pool_rel"
  using wf_pool_rel by (rule wf_not_refl)

lemma turn_moves:
  assumes "i < length (pl_busy pl)" "pl_busy pl ! i \<noteq> None \<or> m_Queue (pl_queue pl) \<noteq> []"
    and "worker_step crc srt now i pl = Some pl'"
  shows "(pl', pl) \<in> pool_rel"
  using assms
  by (cases rule: worker_step_cases [of pl i crc srt now])
    (auto simp: pool_rel_def intro!: mset_slot_less)

lemma fair_turn:
  assumes "\<not> idle_pool pl" "pl_busy pl \<noteq> []" "fair_schedule (length (pl_busy pl)) sched" "owes c pl"
  shows "\<exists>m \<ge> n. worker_step crc srt (fst (sched m)) (snd (sched m)) pl \<noteq> Some pl"
proof -
  obtain i where i: "i < length (pl_busy pl)" "pl_busy pl ! i \<noteq> None \<or> m_Queue (pl_queue pl) \<noteq> []"
    using assms(1,2) by (auto simp: idle_pool_def in_set_conv_nth)
  obtain m where "m \<ge> n" "snd (sched m) = i" using assms(3) i(1) by (auto simp: fair_schedule_def)
  with turn_moves [OF i] pool_rel_irrefl show ?thesis by blast
qed

lemma run_schedule_append:
  "run_schedule crc srt (xs @ ys) pl = Option.bind (run_schedule crc srt xs pl) (run_schedule crc srt ys)"
proof (induction xs arbitrary: pl)
  case (Cons e xs)
  then show ?case by (cases e) (cases "worker_step crc srt (fst e) (snd e) pl"; simp)
qed simp

lemma run_sleeping:
  "\<forall>e \<in> set xs. worker_step crc srt (fst e) (snd e) pl = Some pl \<Longrightarrow> run_schedule crc srt xs pl = Some pl"
  by (induction xs) auto

lemma first_move:
  assumes "\<not> idle_pool pl" "pl_busy pl \<noteq> []" "fair_schedule (length (pl_busy pl)) sched" "owes c pl"
  shows "\<exists>m pl'. n < m \<and> run_schedule crc srt (map sched [n..<m]) pl = Some pl' \<and> (pl', pl) \<in> pool_rel \<and>
    owes c pl' \<and> length (pl_busy pl') = length (pl_busy pl) \<and>
    answers_to c pl' + outstanding c pl' = answers_to c pl + outstanding c pl"
proof -
  let ?moves = "\<lambda>m. n \<le> m \<and> worker_step crc srt (fst (sched m)) (snd (sched m)) pl \<noteq> Some pl"
  define m where "m = (LEAST m. ?moves m)"
  have m: "?moves m" unfolding m_def by (rule LeastI_ex) (use fair_turn [OF assms] in auto)
  have "worker_step crc srt (fst (sched j)) (snd (sched j)) pl = Some pl" if "n \<le> j" "j < m" for j
    using not_less_Least [of j ?moves] that by (auto simp: m_def)
  then have "run_schedule crc srt (map sched [n..<m]) pl = Some pl" by (intro run_sleeping) auto
  moreover obtain pl' where pl': "worker_step crc srt (fst (sched m)) (snd (sched m)) pl = Some pl'" "owes c pl'"
      "length (pl_busy pl') = length (pl_busy pl)" "answers_to c pl' + outstanding c pl' = answers_to c pl + outstanding c pl"
    using worker_step_owes [OF assms(4)] by blast
  moreover have "(pl', pl) \<in> pool_rel" using m pl'(1) worker_step_less by metis
  moreover have "run_schedule crc srt [sched m] pl = Some pl'" using pl'(1) by (cases "sched m") simp
  ultimately show ?thesis using m
    by (intro exI [of _ "Suc m"] exI [of _ pl']) (auto simp: run_schedule_append split: prod.split)
qed

lemma drains:
  assumes "owes c pl" "pl_busy pl \<noteq> []" "fair_schedule (length (pl_busy pl)) sched"
  shows "\<exists>m \<ge> n. \<exists>pl'. run_schedule crc srt (map sched [n..<m]) pl = Some pl' \<and> idle_pool pl' \<and>
    length (pl_busy pl') = length (pl_busy pl) \<and> answers_to c pl' = answers_to c pl + outstanding c pl"
  using assms
proof (induction pl arbitrary: n rule: wf_induct_rule [OF wf_pool_rel])
  case (1 pl)
  show ?case
  proof (cases "idle_pool pl")
    case True
    then have "outstanding c pl = 0" by (force simp: outstanding_def idle_pool_def count_list_0_iff)
    with True show ?thesis by (intro exI [of _ n]) simp
  next
    case False
    obtain m pl1 where m: "n < m" "run_schedule crc srt (map sched [n..<m]) pl = Some pl1" "(pl1, pl) \<in> pool_rel" "owes c pl1"
      "length (pl_busy pl1) = length (pl_busy pl)" "answers_to c pl1 + outstanding c pl1 = answers_to c pl + outstanding c pl"
      using first_move [OF False 1(3,4,2), of n crc srt] by blast
    obtain m' pl2 where m': "m \<le> m'" "run_schedule crc srt (map sched [m..<m']) pl1 = Some pl2" "idle_pool pl2"
      "length (pl_busy pl2) = length (pl_busy pl1)" "answers_to c pl2 = answers_to c pl1 + outstanding c pl1"
      using "1.IH" [OF m(3,4), of m] m(5) 1(3,4) by fastforce
    have "[n..<m'] = [n..<m] @ [m..<m']" using m(1) m'(1) upt_add_eq_append [of n m "m' - m"] by simp
    with m m' show ?thesis by (intro exI [of _ m']) (simp add: run_schedule_append)
  qed
qed

lemma new_pool_owes:
  assumes "\<forall>t \<in> set tasks. t_client t = c \<longrightarrow> answered (t_cmd t)"
  shows "owes c (new_pool workers tasks st)" "answers_to c (new_pool workers tasks st) = 0"
    "outstanding c (new_pool workers tasks st) = count_list (map t_client tasks) c"
  using assms by (auto simp: owes_def new_pool_def answers_to_def outstanding_def)

text \<open>
  (C6) With at least one worker and a scheduler that always gives every worker another turn,
  the queue is worked off and every worker is idle again, whatever the storage holds and
  however the workers interleave; a client all of whose requests are of commands with an
  answer has then got exactly one answer for each.
\<close>

theorem parallel_answers_all:
  assumes "0 < workers" "fair_schedule workers sched" "\<forall>t \<in> set tasks. t_client t = c \<longrightarrow> answered (t_cmd t)"
  shows "\<exists>n pl. run_schedule crc srt (map sched [0..<n]) (new_pool workers tasks st) = Some pl \<and>
    idle_pool pl \<and> answers_to c pl = count_list (map t_client tasks) c"
  using drains [OF new_pool_owes(1) [OF assms(3)], of workers st sched 0 crc srt] assms(1,2) new_pool_owes(2,3) [OF assms(3)]
  by (fastforce simp: new_pool_def)

end
