(* ===== verification/Parallel_System.thy ===== *)
theory Parallel_System
  imports Parallel System
begin

text \<open>
  The running server with any number of workers that interleave between the calls that lock
  the storage: the connections and the queue of \<open>System\<close>, the workers of \<open>Parallel\<close>. A worker
  that is done with a task calls the method of the \<open>ApiClient\<close> the task points to.
\<close>

section \<open>States and steps\<close>

type_synonym 'c slots = "('c \<times> prog) option list"

text \<open>The turn of worker \<open>i\<close>, and the answer it may have to hand over.\<close>

definition worker_turn :: "env \<Rightarrow> u64 \<Rightarrow> nat \<Rightarrow> 'c system \<times> 'c slots \<Rightarrow> ('c system \<times> 'c slots) option" where
  "worker_turn env now i = (\<lambda>(y, busy).
     case worker_step (e_crc env) (e_sort env) now i
         \<lparr>pl_queue = w_queue (y_workers y), pl_db = w_db (y_workers y), pl_busy = busy, pl_sent = []\<rparr> of
       None \<Rightarrow> None
     | Some pl \<Rightarrow>
         map_option (\<lambda>y'. (y', pl_busy pl))
           (deliver env now (pl_sent pl) (y\<lparr>y_workers := (y_workers y)\<lparr>w_queue := pl_queue pl, w_db := pl_db pl\<rparr>\<rparr>)))"

text \<open>What the network and the clock do; the workers stand still.\<close>

inductive outside_step :: "env \<Rightarrow> 'c system \<Rightarrow> 'c system \<Rightarrow> bool" for env where
  accept: "outside_step env y (y\<lparr>y_sessions := (y_sessions y)(c \<mapsto> new_session (e_command env))\<rparr>)"
    if "y_sessions y c = None"
| event: "outside_step env y y'" if "\<And>act. e \<noteq> Answer act" "at_session env now c e y = Some y'"

inductive parallel_step :: "env \<Rightarrow> 'c system \<times> 'c slots \<Rightarrow> 'c system \<times> 'c slots \<Rightarrow> bool" for env where
  outside: "parallel_step env (y, busy) (y', busy)" if "outside_step env y y'"
| turn: "parallel_step env z z'" if "worker_turn env now i z = Some z'"

inductive_cases parallel_stepE: "parallel_step env (y, busy) z'"

inductive parallel_reachable :: "env \<Rightarrow> nat \<Rightarrow> nat \<Rightarrow> 'c system \<times> 'c slots \<Rightarrow> bool" for env workers where
  start: "parallel_reachable env workers 0 (empty_system, replicate workers None)"
| step: "parallel_reachable env workers (Suc n) z'" if "parallel_reachable env workers n z" "parallel_step env z z'"

lemma outside_system_step: "outside_step env y y' \<Longrightarrow> system_step env y y'"
  by (cases rule: outside_step.cases) (auto intro: system_step.accept system_step.event)

lemma outside_db: "outside_step env y y' \<Longrightarrow> w_db (y_workers y') = w_db (y_workers y)"
  by (cases rule: outside_step.cases) (auto simp: at_session_db)

section \<open>The storage\<close>

definition parallel_ok :: "nat \<Rightarrow> 'c system \<times> 'c slots \<Rightarrow> bool" where
  "parallel_ok n = (\<lambda>(y, busy). pool_inv n
     \<lparr>pl_queue = w_queue (y_workers y), pl_db = w_db (y_workers y), pl_busy = busy, pl_sent = []\<rparr>)"

lemma parallel_step_ok:
  assumes "parallel_step env z z'" "parallel_ok (Suc n) z"
  shows "parallel_ok n z'"
  using assms(1)
proof cases
  case (outside y y' busy)
  then show ?thesis using assms(2) outside_db [of env y y'] chat_room_less
    by (auto simp: parallel_ok_def pool_inv_def)
next
  case (turn now i)
  obtain y busy where z: "z = (y, busy)" by fastforce
  let ?pl = "\<lparr>pl_queue = w_queue (y_workers y), pl_db = w_db (y_workers y), pl_busy = busy, pl_sent = []\<rparr>"
  obtain pl y' where pl: "worker_step (e_crc env) (e_sort env) now i ?pl = Some pl" "z' = (y', pl_busy pl)"
    "deliver env now (pl_sent pl) (y\<lparr>y_workers := (y_workers y)\<lparr>w_queue := pl_queue pl, w_db := pl_db pl\<rparr>\<rparr>) = Some y'"
    using turn by (auto simp: worker_turn_def z split: option.splits)
  have "pool_inv n pl"
    using worker_step_keeps [of n ?pl "e_crc env" "e_sort env" now i] assms(2) pl(1) by (simp add: parallel_ok_def z)
  then show ?thesis using deliver_db [OF pl(3)] pl(2) by (simp add: parallel_ok_def pool_inv_def)
qed

lemma parallel_reachable_ok:
  "parallel_reachable env workers n z \<Longrightarrow> n + m < 2 ^ 64 - 1 \<Longrightarrow> parallel_ok m z"
proof (induction arbitrary: m rule: parallel_reachable.induct)
  case start
  then show ?case
    by (simp add: parallel_ok_def pool_inv_def empty_system_def empty_storage_inv chat_room_def) (simp add: empty_storage_def)
next
  case (step n z z')
  from parallel_step_ok [OF step.hyps(2) step.IH [of "Suc m"]] step.prems show ?case by simp
qed

section \<open>One request at a time\<close>

text \<open>
  For the counting, a task that a worker is at is like one that waits: \<open>with_taken\<close> puts one
  placeholder of the same client in front of the queue for each busy worker.
\<close>

definition placeholder :: "'c \<Rightarrow> 'c task" where
  "placeholder c = \<lparr>t_ping = False, t_cmd = USER_LOGIN, t_request = no_params, t_client = c, t_storage = []\<rparr>"

definition taken :: "'c slots \<Rightarrow> 'c task list" where
  "taken busy = map (\<lambda>b. placeholder (fst (the b))) (filter (\<lambda>b. b \<noteq> None) busy)"

definition with_taken :: "'c slots \<Rightarrow> 'c system \<Rightarrow> 'c system" where
  "with_taken busy y =
     y\<lparr>y_workers := (y_workers y)\<lparr>w_queue := \<lparr>m_Queue = taken busy @ m_Queue (w_queue (y_workers y))\<rparr>\<rparr>\<rparr>"

lemma with_taken_simps [simp]:
  "y_sessions (with_taken busy y) = y_sessions y" "w_db (y_workers (with_taken busy y)) = w_db (y_workers y)"
  "m_Queue (w_queue (y_workers (with_taken busy y))) = taken busy @ m_Queue (w_queue (y_workers y))"
  by (simp_all add: with_taken_def)

lemma putTask_fold_eq: "fold putTask tq w = w\<lparr>w_queue := \<lparr>m_Queue = m_Queue (w_queue w) @ tq\<rparr>\<rparr>"
  by (intro workers.equality lock_queue.equality) simp_all

lemma at_session_with_taken:
  "at_session env now c e y = Some y' \<Longrightarrow> at_session env now c e (with_taken busy y) = Some (with_taken busy y')"
  by (auto simp: at_session_def with_taken_def putTask_fold_eq split: option.splits)

lemma with_taken_sessions: "with_taken busy (y\<lparr>y_sessions := f\<rparr>) = (with_taken busy y)\<lparr>y_sessions := f\<rparr>"
  by (cases y) (simp add: with_taken_def)

lemma outside_with_taken:
  assumes "outside_step env y y'" shows "outside_step env (with_taken busy y) (with_taken busy y')"
  using assms
proof cases
  case (accept c)
  then show ?thesis using outside_step.accept [of "with_taken busy y" c env] by (simp add: with_taken_sessions)
next
  case (event e now c)
  then show ?thesis by (blast intro: outside_step.event at_session_with_taken)
qed

lemma pending_with_taken:
  "pending c (with_taken busy y) = count_list (map (map_option fst) busy) (Some c) + pending c y"
proof -
  have "length (filter (\<lambda>t. t_client t = c) (taken busy)) = count_list (map (map_option fst) busy) (Some c)"
    by (induction busy) (auto simp: taken_def placeholder_def)
  then show ?thesis by (simp add: pending_def)
qed

definition known_clients :: "'c system \<Rightarrow> 'c slots \<Rightarrow> bool" where
  "known_clients y busy \<longleftrightarrow> (\<forall>t \<in> set (m_Queue (w_queue (y_workers y))). routed (t_cmd t) \<and> y_sessions y (t_client t) \<noteq> None) \<and>
     (\<forall>c p. Some (c, p) \<in> set busy \<longrightarrow> y_sessions y c \<noteq> None)"

lemma one_with_taken:
  "one_at_a_time (with_taken busy y) \<longleftrightarrow>
     (\<forall>c s. y_sessions y c = Some s \<longrightarrow> alternating s (count_list (map (map_option fst) busy) (Some c) + pending c y)) \<and>
     known_clients y busy"
proof -
  have "(\<forall>t \<in> set (taken busy). routed (t_cmd t) \<and> y_sessions y (t_client t) \<noteq> None) \<longleftrightarrow>
      (\<forall>c p. Some (c, p) \<in> set busy \<longrightarrow> y_sessions y c \<noteq> None)"
    by (force simp: taken_def placeholder_def routed_def)
  then show ?thesis by (auto simp: one_at_a_time_def pending_with_taken known_clients_def)
qed

text \<open>A task of a command that the routing knows calls at most one method, and it writes a response.\<close>

abbreviation plain_prog :: "prog \<Rightarrow> bool" where
  "plain_prog \<equiv> yields (\<lambda>acts. length acts \<le> 1 \<and> (\<forall>act \<in> set acts. plain_answer act))"

lemma task_plain: "routed (t_cmd task) \<Longrightarrow> plain_prog (par_task crc srt task)"
  by (cases "t_cmd task")
    (auto simp: par_task_def par_defs par_check_pass_def par_check_by_name_def routed_def Let_def
      split: list.split intro!: yields_to_api_format)

definition parallel_one :: "'c system \<times> 'c slots \<Rightarrow> bool" where
  "parallel_one = (\<lambda>(y, busy). one_at_a_time (with_taken busy y) \<and> (\<forall>c p. Some (c, p) \<in> set busy \<longrightarrow> plain_prog p))"

lemma parallel_oneD:
  assumes "parallel_one (y, busy)"
  shows "one_at_a_time (with_taken busy y)" "known_clients y busy"
    and "i < length busy \<Longrightarrow> busy ! i = Some (c, p) \<Longrightarrow> plain_prog p"
    and "t \<in> set (m_Queue (w_queue (y_workers y))) \<Longrightarrow> routed (t_cmd t)"
  using assms by (auto simp: parallel_one_def one_with_taken known_clients_def dest: nth_mem)

lemma parallel_one_set:
  assumes "parallel_one (y, busy)" "one_at_a_time (with_taken (busy[i := b]) y')" "\<And>c p. b = Some (c, p) \<Longrightarrow> plain_prog p"
  shows "parallel_one (y', busy[i := b])"
  using assms set_update_subset_insert [of busy i b] by (fastforce simp: parallel_one_def)

lemma count_slots:
  "i < length busy \<Longrightarrow> count_list (map (map_option fst) (busy[i := b])) (Some c) + of_bool (map_option fst (busy ! i) = Some c) =
     count_list (map (map_option fst) busy) (Some c) + of_bool (map_option fst b = Some c)"
  using count_list_set [of i "map (map_option fst) busy" "map_option fst b" "Some c"] by (simp add: map_update)

lemma one_takes:
  assumes "parallel_one (y, busy)" "i < length busy" "busy ! i = None" "m_Queue (w_queue (y_workers y)) = task # tasks"
  shows "parallel_one (y\<lparr>y_workers := (y_workers y)\<lparr>w_queue := \<lparr>m_Queue = tasks\<rparr>\<rparr>\<rparr>,
    busy[i := Some (t_client task, par_task crc srt task)])" (is "parallel_one (?y, ?b)")
proof (rule parallel_one_set [OF assms(1)])
  have "count_list (map (map_option fst) ?b) (Some c) + pending c ?y = count_list (map (map_option fst) busy) (Some c) + pending c y"
    for c
    using count_slots [OF assms(2), of "Some (t_client task, par_task crc srt task)" c] assms(3,4) by (auto simp: pending_def)
  moreover have "known_clients ?y ?b"
    using parallel_oneD(2) [OF assms(1)] assms(4) set_update_subset_insert [of busy i "Some (t_client task, par_task crc srt task)"]
    by (fastforce simp: known_clients_def)
  ultimately show "one_at_a_time (with_taken ?b ?y)"
    using parallel_oneD(1) [OF assms(1)] by (simp add: one_with_taken)
qed (use parallel_oneD(4) [OF assms(1), of task] assms(4) task_plain in auto)

lemma one_steps:
  assumes "parallel_one (y, busy)" "i < length busy" "busy ! i = Some (c, Step f k)"
  shows "parallel_one (y\<lparr>y_workers := (y_workers y)\<lparr>w_db := st\<rparr>\<rparr>, busy[i := Some (c, k now st')])" (is "parallel_one (?y, ?b)")
proof (rule parallel_one_set [OF assms(1)])
  have "count_list (map (map_option fst) ?b) (Some c') + pending c' ?y = count_list (map (map_option fst) busy) (Some c') + pending c' y"
    for c'
    using count_slots [OF assms(2), of "Some (c, k now st')" c'] assms(3) by (simp add: pending_def)
  moreover have "known_clients ?y ?b"
    using parallel_oneD(2) [OF assms(1)] nth_mem [OF assms(2)] assms(3) set_update_subset_insert [of busy i "Some (c, k now st')"]
    by (fastforce simp: known_clients_def)
  ultimately show "one_at_a_time (with_taken ?b ?y)"
    using parallel_oneD(1) [OF assms(1)] by (simp add: one_with_taken)
qed (use parallel_oneD(3) [OF assms] in auto)

lemma one_hands:
  assumes "parallel_one (y, busy)" "i < length busy" "busy ! i = Some (c, Return acts)" "no_poll y" "no_poll y'"
    and run: "deliver env now (map (Pair c) acts) y = Some y'"
  shows "parallel_one (y', busy[i := None])"
proof (rule parallel_one_set [OF assms(1)])
  let ?b = "busy[i := None]"
  have count: "count_list (map (map_option fst) ?b) (Some c') + (if c' = c then 1 else 0) = count_list (map (map_option fst) busy) (Some c')"
    for c'
    using count_slots [OF assms(2), of None c'] assms(3) by (auto split: if_splits)
  have known: "known_clients y ?b"
    using parallel_oneD(2) [OF assms(1)] set_update_subset_insert [of busy i None] by (fastforce simp: known_clients_def)
  have owed: "alternating s (pending c' (with_taken ?b y) + (if c' = c then 1 else 0))"
    if "y_sessions (with_taken ?b y) c' = Some s" for c' s
    using parallel_oneD(1) [OF assms(1)] that count [of c']
    by (simp add: one_with_taken pending_with_taken split: if_splits) (metis add.commute add_Suc plus_1_eq_Suc)+
  have tasks: "\<forall>t \<in> set (m_Queue (w_queue (y_workers (with_taken ?b y)))). routed (t_cmd t) \<and>
      y_sessions (with_taken ?b y) (t_client t) \<noteq> None"
    using known by (force simp: known_clients_def taken_def placeholder_def routed_def)
  have calm: "no_poll (with_taken ?b y)" "no_poll (with_taken ?b y')" using assms(4,5) by (simp_all add: no_poll_def)
  from parallel_oneD(3) [OF assms(1-3)] consider "acts = []" | act where "acts = [act]" "plain_answer act"
    by (cases acts) auto
  then show "one_at_a_time (with_taken ?b y')"
  proof cases
    case 1
    then have "y' = y" using run by simp
    moreover have "alternating s (pending c' (with_taken ?b y))" if "y_sessions y c' = Some s" for c' s
      using owed [of c' s] that alternating_less by (cases "c' = c") auto
    ultimately show ?thesis using tasks by (simp add: one_at_a_time_def)
  next
    case (2 act)
    then have "at_session env now c (Answer act) (with_taken ?b y) = Some (with_taken ?b y')"
      using run by (intro at_session_with_taken) (simp split: bind_splits)
    from at_session_one [OF owed tasks this calm(2,1)] 2(2) show ?thesis by simp
  qed
qed simp

lemma turn_one:
  assumes inv: "parallel_one (y, busy)" and run: "worker_turn env now i (y, busy) = Some (y', busy')"
    and calm: "no_poll y" "no_poll y'"
  shows "parallel_one (y', busy')"
proof -
  let ?pl = "\<lparr>pl_queue = w_queue (y_workers y), pl_db = w_db (y_workers y), pl_busy = busy, pl_sent = []\<rparr>"
  obtain pl where pl: "worker_step (e_crc env) (e_sort env) now i ?pl = Some pl" "busy' = pl_busy pl"
    "deliver env now (pl_sent pl) (y\<lparr>y_workers := (y_workers y)\<lparr>w_queue := pl_queue pl, w_db := pl_db pl\<rparr>\<rparr>) = Some y'"
    using run by (auto simp: worker_turn_def split: option.splits)
  show ?thesis
  proof (cases rule: worker_step_cases [of ?pl i "e_crc env" "e_sort env" now])
    case (takes task tasks)
    then show ?thesis using one_takes [OF inv, of i task tasks "e_crc env" "e_sort env"] pl by auto
  next
    case (hands c acts)
    then have "y\<lparr>y_workers := (y_workers y)\<lparr>w_queue := pl_queue pl, w_db := pl_db pl\<rparr>\<rparr> = y" "pl_sent pl = map (Pair c) acts"
      "pl_busy pl = busy[i := None]" using pl(1) by auto
    then show ?thesis using one_hands [OF inv _ _ calm, of i c acts env now] hands pl(2,3) by simp
  next
    case (steps c f k)
    then show ?thesis using one_steps [OF inv, of i c f k] pl by auto
  qed (use inv pl in auto)
qed

text \<open>The states reached as long as no connection has started the long poll.\<close>

inductive parallel_calm :: "env \<Rightarrow> nat \<Rightarrow> nat \<Rightarrow> 'c system \<times> 'c slots \<Rightarrow> bool" for env workers where
  start: "parallel_calm env workers 0 (empty_system, replicate workers None)"
| step: "parallel_calm env workers (Suc n) z'"
    if "parallel_calm env workers n z" "parallel_step env z z'" "no_poll (fst z')"

lemma parallel_calm_no_poll: "parallel_calm env workers n z \<Longrightarrow> no_poll (fst z)"
  by (cases rule: parallel_calm.cases) (auto simp: no_poll_def empty_system_def)

lemma outside_one:
  assumes "parallel_one (y, busy)" "outside_step env y y'" "no_poll y" "no_poll y'" "storage_inv (w_db (y_workers y))"
  shows "parallel_one (y', busy)"
proof -
  have "one_at_a_time (with_taken busy y')"
    using one_at_a_time_step [OF parallel_oneD(1) [OF assms(1)] outside_system_step [OF outside_with_taken [OF assms(2)]]] assms(3-5)
    by (simp add: no_poll_def)
  then show ?thesis using assms(1) by (simp add: parallel_one_def)
qed

lemma parallel_calm_reachable: "parallel_calm env workers n z \<Longrightarrow> parallel_reachable env workers n z"
  by (induction rule: parallel_calm.induct) (auto intro: parallel_reachable.intros)

lemma parallel_calm_one: "parallel_calm env workers n z \<Longrightarrow> n < 2 ^ 64 - 1 \<Longrightarrow> parallel_one z"
proof (induction rule: parallel_calm.induct)
  case start
  have "one_at_a_time (with_taken (replicate workers None) (empty_system :: 'a system))"
    unfolding one_with_taken by (simp add: known_clients_def empty_system_def)
  then show ?case by (simp add: parallel_one_def)
next
  case (step n z z')
  obtain y busy y' busy' where z: "z = (y, busy)" "z' = (y', busy')" by fastforce
  have inv: "parallel_one (y, busy)" using step z by simp
  have calm: "no_poll y" "no_poll y'"
    using parallel_calm_no_poll [OF step.hyps(1)] step.hyps(3) by (simp_all add: z)
  have db: "storage_inv (w_db (y_workers y))"
    using parallel_reachable_ok [OF parallel_calm_reachable [OF step.hyps(1)], of 0] step.prems
    by (simp add: z parallel_ok_def pool_inv_def)
  from step.hyps(2) show ?case unfolding z
    by cases (use inv calm db in \<open>auto intro: outside_one turn_one\<close>)
qed

section \<open>The server with its workers in parallel\<close>

text \<open>
  (C4) In every state the server can reach, with any number of workers and any interleaving of
  accepted connections, received bytes, failures, timers, finished writes and steps of the
  workers between their locked calls, the storage satisfies its invariant: keys number the
  rows, user names are unique, every user is a member of a chat of its own name, and
  membership and message rows refer to existing rows.
\<close>

theorem parallel_server_keeps_storage:
  assumes "parallel_reachable env workers n (y, busy)" "n < 2 ^ 64 - 1"
  shows "storage_inv (w_db (y_workers y))"
  using parallel_reachable_ok [OF assms(1), of 0] assms(2) by (simp add: parallel_ok_def pool_inv_def)

text \<open>
  (C5) With any number of workers whose steps interleave, as long as no connection has started
  the long poll, each connection waits for at most one thing - the next request, the end of
  one write, a task in the queue, or a task a worker is at - and no read or write of the
  socket is started while another is in flight.
\<close>

theorem parallel_one_in_flight:
  assumes "parallel_calm env workers n (y, busy)" "n < 2 ^ 64 - 1" "y_sessions y c = Some s"
  shows "in_flight s (count_list (map (map_option fst) busy) (Some c) + pending c y) \<le> 1 \<and> \<not> s_overlap s"
  using parallel_oneD(1) [OF parallel_calm_one [OF assms(1,2)]] assms(3)
  unfolding one_with_taken by (simp add: alternating_def)

section \<open>A task in one go\<close>

text \<open>
  \<open>System\<close> lets a worker run a task without interruption. Here that is one of the schedules:
  the turns of one worker in a row.
\<close>

primrec turns :: "env \<Rightarrow> u64 \<Rightarrow> nat \<Rightarrow> nat \<Rightarrow> 'c system \<times> 'c slots \<Rightarrow> ('c system \<times> 'c slots) option" where
  "turns env now i 0 z = Some z"
| "turns env now i (Suc k) z = Option.bind (worker_turn env now i z) (turns env now i k)"

definition with_db :: "storage \<Rightarrow> 'c system \<Rightarrow> 'c system" where
  "with_db st y = y\<lparr>y_workers := (y_workers y)\<lparr>w_db := st\<rparr>\<rparr>"

lemma turn_step:
  "i < length busy \<Longrightarrow> worker_turn env now i (with_db st y, busy[i := Some (c, Step f k)]) =
     Some (with_db (f now st) y, busy[i := Some (c, k now st)])"
  by (simp add: worker_turn_def worker_step_def with_db_def)

lemma turns_run_alone:
  "run_alone now p st = Some (st', acts) \<Longrightarrow> i < length busy \<Longrightarrow>
     \<exists>k. \<forall>m. turns env now i (k + m) (with_db st y, busy[i := Some (c, p)]) =
       turns env now i m (with_db st' y, busy[i := Some (c, Return acts)])"
proof (induction p arbitrary: st)
  case (Step f q)
  have "run_alone now (q now st) (f now st) = Some (st', acts)" using Step.prems(1) by simp
  from Step.IH [OF rangeI rangeI this Step.prems(2)] obtain k where
    "\<forall>m. turns env now i (k + m) (with_db (f now st) y, busy[i := Some (c, q now st)]) =
       turns env now i m (with_db st' y, busy[i := Some (c, Return acts)])" by blast
  then show ?case using turn_step [OF Step.prems(2)] by (intro exI [of _ "Suc k"]) simp
qed (auto intro: exI [of _ 0])

lemma nothing_sent: "w_sent w = [] \<Longrightarrow> w\<lparr>w_queue := q, w_db := st, w_sent := []\<rparr> = w\<lparr>w_queue := q, w_db := st\<rparr>"
  by (cases w) simp

text \<open>
  (C8) A round of the worker loop, in which one worker takes a task, works on it without
  interruption and calls the connection back, is one of the schedules of the parallel server:
  the turns of one idle worker in a row lead to the same state.
\<close>

theorem round_as_turns:
  assumes "storage_inv (w_db (y_workers y))" "w_sent (y_workers y) = []" "i < length busy" "busy ! i = None"
    and round: "worker_round env now y = Some y'"
  shows "\<exists>k. turns env now i k (y, busy) = Some (y', busy)"
proof -
  let ?w = "(y_workers y)\<lparr>w_sent := []\<rparr>"
  have w: "?w = y_workers y" using assms(2) by simp
  obtain w' where w': "processQueue_round (e_crc env) (e_sort env) InMemoryConnection now (y_workers y) = Some w'"
    "deliver env now (w_sent w') (y\<lparr>y_workers := w'\<lparr>w_sent := []\<rparr>\<rparr>) = Some y'"
    using round by (auto simp: worker_round_def w split: option.splits)
  show ?thesis
  proof (cases rule: round_cases [of "y_workers y" "e_crc env" "e_sort env" InMemoryConnection now])
    case idle
    have "w' = y_workers y" using idle w'(1) by simp
    then have "y\<lparr>y_workers := ?w\<rparr> = y'" using w'(2) assms(2) by simp
    then have "y = y'" unfolding w by simp
    then have "turns env now i 0 (y, busy) = Some (y', busy)" by simp
    then show ?thesis by blast
  next
    case (task t tr st acts)
    let ?y = "y\<lparr>y_workers := (y_workers y)\<lparr>w_queue := \<lparr>m_Queue = tr\<rparr>\<rparr>\<rparr>"
    let ?p = "par_task (e_crc env) (e_sort env) t"
    have take: "worker_turn env now i (y, busy) = Some (with_db (w_db (y_workers y)) ?y, busy[i := Some (t_client t, ?p)])"
      using assms(3,4) task(1) by (simp add: worker_turn_def worker_step_def getTask_def with_db_def)
    have "run_alone now ?p (w_db (y_workers y)) = Some (st, acts)"
      unfolding run_alone_task [OF assms(1)] by (rule task(2))
    from turns_run_alone [OF this assms(3)] obtain k where k:
      "\<And>m. turns env now i (k + m) (with_db (w_db (y_workers y)) ?y, busy[i := Some (t_client t, ?p)]) =
         turns env now i m (with_db st ?y, busy[i := Some (t_client t, Return acts)])" by metis
    have "worker_turn env now i (with_db st ?y, busy[i := Some (t_client t, Return acts)]) = Some (y', busy)"
      using w' task(3) assms by (auto simp: worker_turn_def worker_step_def with_db_def nothing_sent list_update_same_conv)
    with take k [of 1] have "turns env now i (Suc (k + 1)) (y, busy) = Some (y', busy)" by simp
    then show ?thesis by blast
  qed
qed

end
