(* ===== verification/Parallel_Late.thy ===== *)
theory Parallel_Late
  imports Parallel
begin

text \<open>
  Two workers and two messages: \<open>database_worker.cpp\<close> reads the clock before \<open>saveMessage\<close> takes
  the lock of the storage, so messages can be stored in the other order than their times.
\<close>

section \<open>A worker that is not interrupted\<close>




section \<open>A late message\<close>





end
