(* ===== verification/Parallel_Demo.thy ===== *)
theory Parallel_Demo
  imports Parallel_System Parallel_Late Wire_Demo
begin

text \<open>
  The parallel workers at work on the storage \<open>demo\<close>: the properties of \<open>Parallel\<close> at concrete
  inputs, and a schedule of two workers that saves two messages out of the order of their times.
\<close>

definition send_bob :: "nat \<Rightarrow> string \<Rightarrow> nat task" where
  "send_bob c msg = (demo_task MESSAGE_SEND (alice_params\<lparr>p_to_user := ''bob'', p_message := msg\<rparr>))\<lparr>t_client := c\<rparr>"

definition poll_bob :: "nat \<Rightarrow> u64 \<Rightarrow> nat task" where
  "poll_bob c t = (demo_task IDLE (bob_params\<lparr>p_ts := t\<rparr>))\<lparr>t_client := c\<rparr>"

section \<open>The properties at work\<close>

lemma demo_chat_room: "n < 1000 \<Longrightarrow> chat_room n demo"
  by (simp add: chat_room_def demo_def)

lemma task_atomic_steps_witness:
  "run_alone 20 (par_task demo_crc demo_sort (send_bob 1 ''first'')) demo =
     process_task demo_crc demo_sort 20 InMemoryConnection (send_bob 1 ''first'') demo"
  by (rule task_atomic_steps [OF demo_inv])

lemma parallel_keeps_storage_witness:
  "\<exists>pl. run_schedule demo_crc demo_sort [(1, 0), (1, 1), (2, 1), (2, 0), (3, 1), (3, 0), (4, 0), (4, 1)]
      (new_pool 2 [send_bob 1 ''first'', send_bob 2 ''second''] demo) = Some pl \<and>
    storage_inv (pl_db pl) \<and> grows demo (pl_db pl)"
  by (rule parallel_keeps_storage [OF demo_inv]) (simp add: demo_chat_room)

lemma parallel_answers_all_witness:
  "\<exists>n pl. run_schedule demo_crc demo_sort (map (\<lambda>n. (of_nat n, n mod 2)) [0..<n])
      (new_pool 2 [send_bob 1 ''first'', poll_bob 2 0, send_bob 1 ''second''] demo) = Some pl \<and>
    idle_pool pl \<and> answers_to 1 pl = 2"
proof -
  have "fair_schedule 2 (\<lambda>n. (of_nat n, n mod 2))" unfolding fair_schedule_def
  proof (intro allI impI)
    fix i n :: nat assume "i < 2"
    then show "\<exists>m \<ge> n. snd (of_nat m :: u64, m mod 2) = i" by (intro exI [of _ "2 * n + i"]) simp
  qed
  from parallel_answers_all [OF _ this, of "[send_bob 1 ''first'', poll_bob 2 0, send_bob 1 ''second'']" 1 demo_crc demo_sort demo]
  show ?thesis by (simp add: send_bob_def poll_bob_def answered_def numeral_2_eq_2)
qed

section \<open>Messages out of order\<close>

text \<open>
  Worker 0 takes the first message and reads the clock at 30. Worker 1 sends the second one at
  31 and answers a poll. Then worker 0 saves the first message, with time 30.
\<close>

definition race :: "(u64 \<times> nat) list" where
  "race = map (Pair 30) [0, 0, 0, 0] @ map (Pair 31) [1, 1, 1, 1, 1, 1] @ map (Pair 32) (replicate 24 1) @ map (Pair 33) [0, 0]"

lemma demo_race:
  "case run_schedule demo_crc demo_sort race (new_pool 2 [send_bob 1 ''first'', send_bob 2 ''second'', poll_bob 3 30] demo) of
     None \<Rightarrow> False
   | Some pl \<Rightarrow>
       map (\<lambda>m. (ts m, message m)) (drop 5 (messages (pl_db pl))) = [(31, ''second''), (30, ''first'')] \<and>
       filter (\<lambda>(c, _). c = 3) (pl_sent pl) =
         [(3, SendMessagesToIdleConn [\<lparr>am_ts = 31, am_from = ''alice'', am_to = ''bob'', am_msg = ''second''\<rparr>])] \<and>
       answers_to 1 pl = 1 \<and>
       map_option snd (process_task demo_crc demo_sort 34 InMemoryConnection (poll_bob 3 31) (pl_db pl)) = Some []"
  by code_simp


section \<open>The parallel server at work\<close>

definition demo_slots :: "nat slots" where
  "demo_slots = [None, None]"

lemma one_connection_parallel: "parallel_calm demo_env 2 1 (one_connection, demo_slots)"
proof -
  have "outside_step demo_env empty_system one_connection"
    using outside_step.accept [of empty_system 7 demo_env] by (simp add: empty_system_def one_connection_def)
  then have "parallel_step demo_env (empty_system, replicate 2 None) (one_connection, demo_slots)"
    by (auto simp: demo_slots_def numeral_2_eq_2 intro: parallel_step.outside)
  moreover have "no_poll one_connection" by (simp add: no_poll_def one_connection_def empty_system_def)
  ultimately show ?thesis using parallel_calm.step [OF parallel_calm.start] by fastforce
qed

lemma parallel_server_keeps_storage_witness: "storage_inv (w_db (y_workers one_connection))"
  by (rule parallel_server_keeps_storage [OF parallel_calm_reachable [OF one_connection_parallel]]) simp

lemma parallel_one_in_flight_witness:
  "in_flight (new_session CMD_LAST) (count_list (map (map_option fst) demo_slots) (Some 7) + pending 7 one_connection) \<le> 1 \<and>
    \<not> s_overlap (new_session CMD_LAST)"
  by (rule parallel_one_in_flight [OF one_connection_parallel]) (simp_all add: one_connection_def)

text \<open>A server with one connection whose request waits in the queue.\<close>

definition demo_work :: "nat system" where
  "demo_work = \<lparr>y_sessions = [7 \<mapsto> (new_session CMD_LAST)\<lparr>s_read := None\<rparr>],
     y_workers = \<lparr>w_queue = \<lparr>m_Queue = [send_bob 7 ''first'']\<rparr>, w_db = demo, w_sent = []\<rparr>\<rparr>"

lemma demo_round: "\<not> Option.is_none (worker_round demo_env 20 demo_work)"
  by code_simp

lemma round_as_turns_witness:
  "\<exists>y' k. worker_round demo_env 20 demo_work = Some y' \<and> turns demo_env 20 1 k (demo_work, demo_slots) = Some (y', demo_slots)"
proof -
  obtain y' where "worker_round demo_env 20 demo_work = Some y'"
    using demo_round by (auto simp: Option.is_none_def)
  with round_as_turns [of demo_work 1 demo_slots demo_env 20 y'] show ?thesis
    by (simp add: demo_work_def demo_slots_def demo_inv)
qed

end
