(* ===== verification/Lifecycle.thy ===== *)
theory Lifecycle
  imports Prelude
begin

text \<open>
  Start and stop of the server: \<open>Server::run\<close> and \<open>handleStop\<close> (\<open>server.cpp\<close>), \<open>IoThread\<close>
  (\<open>common/io_thread.hpp\<close>), and the threads of \<open>DatabaseWorker\<close> as far as their loop condition.
  The main thread goes from one statement of \<open>run\<close> to the next; the handler of the signals runs
  in the thread of \<open>m_MainIo\<close>, at any time after that one has started.
\<close>

section \<open>Threads\<close>

datatype thread_state = Not_started | Running | Ended

text \<open>The flag of the \<open>io_service\<close> and the thread.\<close>

record io_thread =
  it_stopped :: bool
  it_thread :: thread_state

definition new_io_thread :: io_thread where
  "new_io_thread = \<lparr>it_stopped = False, it_thread = Not_started\<rparr>"

definition io_start :: "io_thread \<Rightarrow> io_thread" where
  "io_start t = t\<lparr>it_stopped := False, it_thread := Running\<rparr>"

definition io_stop :: "io_thread \<Rightarrow> io_thread" where
  "io_stop t = t\<lparr>it_stopped := True\<rparr>"

text \<open>\<open>join\<close> returns; a thread that was not started is not joinable.\<close>

definition io_joins :: "io_thread \<Rightarrow> bool" where
  "io_joins t \<longleftrightarrow> it_thread t \<noteq> Running"

text \<open>
  The loop of \<open>IoThread::run\<close>: what the calls of \<open>m_IoService.run\<close> do, whether one throws and
  whether the service is stopped then. An exception is logged and the loop goes on. The result
  is the number of calls; \<open>None\<close>: it is still in the loop.
\<close>

fun io_run :: "bool \<Rightarrow> (bool \<times> bool) list \<Rightarrow> nat option" where
  "io_run stopped calls =
     (if stopped then Some 0
      else (case calls of
              [] \<Rightarrow> None
            | (throws, stopped') # rest \<Rightarrow> map_option Suc (io_run stopped' rest)))"

declare io_run.simps [simp del]

text \<open>Exceptions make no difference: the loop leaves after the first call that finds the service stopped.\<close>

theorem io_run_until_stopped:
  "io_run False calls = (if list_all (\<lambda>c. \<not> snd c) calls then None else Some (Suc (length (takeWhile (\<lambda>c. \<not> snd c) calls))))"
proof (induction calls)
  case (Cons c calls)
  obtain throws stopped where "c = (throws, stopped)" by fastforce
  with Cons show ?case by (cases stopped) (simp_all add: io_run.simps [of False] io_run.simps [of True])
qed (simp add: io_run.simps)

section \<open>The server\<close>

text \<open>
  The statements of \<open>Server::run\<close>; \<open>L_start\<close> is the second one in the body of its loop. At
  \<open>L_killed\<close> the process is gone.
\<close>

datatype location = L_main | L_clear | L_create | L_start | L_db | L_accept | L_join_db | L_join_main | L_join_io nat | L_done | L_killed

record server_life =
  sl_pc :: location
  sl_need_stop :: bool
  sl_signals :: bool
  sl_main :: io_thread
  sl_io :: "io_thread list"
  sl_workers :: "thread_state list"

definition server_start :: server_life where
  "server_start = \<lparr>sl_pc = L_main, sl_need_stop = False, sl_signals = True, sl_main = new_io_thread, sl_io = [],
     sl_workers = []\<rparr>"

text \<open>\<open>handleStop\<close> is registered once: \<open>sl_signals\<close> says that it still is.\<close>

definition handleStop :: "server_life \<Rightarrow> server_life" where
  "handleStop z = z\<lparr>sl_need_stop := True, sl_signals := False, sl_main := io_stop (sl_main z), sl_io := map io_stop (sl_io z)\<rparr>"

text \<open>
  One statement of \<open>run\<close>; \<open>None\<close>: it waits, or \<open>run\<close> has returned. \<open>startAccept\<close> divides by the
  number of io threads, and a division by zero kills the process.
\<close>

definition run_statement :: "nat \<Rightarrow> nat \<Rightarrow> server_life \<Rightarrow> server_life option" where
  "run_statement pool workers z =
     (case sl_pc z of
        L_main \<Rightarrow> Some (z\<lparr>sl_main := io_start (sl_main z), sl_pc := L_clear\<rparr>)
      | L_clear \<Rightarrow> Some (z\<lparr>sl_io := [], sl_pc := L_create\<rparr>)
      | L_create \<Rightarrow>
          if length (sl_io z) < pool then Some (z\<lparr>sl_io := sl_io z @ [new_io_thread], sl_pc := L_start\<rparr>)
          else Some (z\<lparr>sl_pc := L_db\<rparr>)
      | L_start \<Rightarrow> Some (z\<lparr>sl_io := butlast (sl_io z) @ [io_start (last (sl_io z))], sl_pc := L_create\<rparr>)
      | L_db \<Rightarrow> Some (z\<lparr>sl_workers := replicate workers Running, sl_pc := L_accept\<rparr>)
      | L_accept \<Rightarrow> Some (z\<lparr>sl_pc := if sl_io z = [] then L_killed else L_join_db\<rparr>)
      | L_join_db \<Rightarrow> if Running \<in> set (sl_workers z) then None else Some (z\<lparr>sl_pc := L_join_main\<rparr>)
      | L_join_main \<Rightarrow> if io_joins (sl_main z) then Some (z\<lparr>sl_pc := L_join_io 0\<rparr>) else None
      | L_join_io i \<Rightarrow>
          if length (sl_io z) \<le> i then Some (z\<lparr>sl_pc := L_done\<rparr>)
          else if io_joins (sl_io z ! i) then Some (z\<lparr>sl_pc := L_join_io (Suc i)\<rparr>) else None
      | L_done \<Rightarrow> None
      | L_killed \<Rightarrow> None)"

inductive life_step :: "nat \<Rightarrow> nat \<Rightarrow> server_life \<Rightarrow> server_life \<Rightarrow> bool" for pool workers where
  statement: "life_step pool workers z z'" if "run_statement pool workers z = Some z'"
| signal: "life_step pool workers z (handleStop z)"
    if "sl_pc z \<noteq> L_killed" "sl_signals z" "it_thread (sl_main z) = Running" "\<not> it_stopped (sl_main z)"
| worker_ends: "life_step pool workers z (z\<lparr>sl_workers := (sl_workers z)[i := Ended]\<rparr>)"
    if "sl_pc z \<noteq> L_killed" "sl_need_stop z" "i < length (sl_workers z)" "sl_workers z ! i = Running"
| main_ends: "life_step pool workers z (z\<lparr>sl_main := (sl_main z)\<lparr>it_thread := Ended\<rparr>\<rparr>)"
    if "sl_pc z \<noteq> L_killed" "it_stopped (sl_main z)" "it_thread (sl_main z) = Running"
| io_ends: "life_step pool workers z (z\<lparr>sl_io := (sl_io z)[i := (sl_io z ! i)\<lparr>it_thread := Ended\<rparr>]\<rparr>)"
    if "sl_pc z \<noteq> L_killed" "i < length (sl_io z)" "it_stopped (sl_io z ! i)" "it_thread (sl_io z ! i) = Running"

inductive_cases life_stepE: "life_step pool workers z z'"

inductive life_reach :: "nat \<Rightarrow> nat \<Rightarrow> server_life \<Rightarrow> server_life \<Rightarrow> bool" for pool workers z where
  start: "life_reach pool workers z z"
| step: "life_reach pool workers z z''" if "life_reach pool workers z z'" "life_step pool workers z' z''"

section \<open>The return of run\<close>

fun joined :: "location \<Rightarrow> nat \<Rightarrow> bool" where
  "joined (L_join_io i) j \<longleftrightarrow> j < i"
| "joined L_done j \<longleftrightarrow> True"
| "joined _ j \<longleftrightarrow> False"

definition starting :: "location \<Rightarrow> bool" where
  "starting pc \<longleftrightarrow> pc \<in> {L_main, L_clear, L_create, L_start}"

definition life_inv :: "server_life \<Rightarrow> bool" where
  "life_inv z \<longleftrightarrow>
     (sl_pc z = L_main \<longleftrightarrow> it_thread (sl_main z) = Not_started) \<and>
     Not_started \<notin> set (sl_workers z) \<and>
     (sl_pc z = L_start \<longrightarrow> sl_io z \<noteq> []) \<and>
     (\<forall>i < length (sl_io z). it_thread (sl_io z ! i) = Not_started \<longrightarrow> sl_pc z = L_start \<and> Suc i = length (sl_io z)) \<and>
     ((\<exists>i. sl_pc z = L_join_io i) \<or> sl_pc z \<in> {L_join_main, L_done} \<longrightarrow> Running \<notin> set (sl_workers z)) \<and>
     ((\<exists>i. sl_pc z = L_join_io i) \<or> sl_pc z = L_done \<longrightarrow> it_thread (sl_main z) = Ended) \<and>
     (\<forall>j < length (sl_io z). joined (sl_pc z) j \<longrightarrow> it_thread (sl_io z ! j) = Ended)"

lemma thread_ended: "t \<noteq> Not_started \<Longrightarrow> t \<noteq> Running \<Longrightarrow> t = Ended"
  by (cases t) simp_all

lemma io_op_simps [simp]:
  "it_thread (io_stop t) = it_thread t" "it_stopped (io_stop t)"
  "it_thread (io_start t) = Running" "\<not> it_stopped (io_start t)"
  "it_thread new_io_thread = Not_started" "\<not> it_stopped new_io_thread"
  by (simp_all add: io_stop_def io_start_def new_io_thread_def)

lemma statement_inv:
  assumes "run_statement pool workers z = Some z'" "life_inv z"
  shows "life_inv z'"
proof (cases "sl_pc z")
  case L_start
  obtain ts t where io: "sl_io z = ts @ [t]"
    using assms(2) L_start by (cases "sl_io z" rule: rev_cases) (auto simp: life_inv_def)
  then show ?thesis using assms L_start
    by (auto simp: run_statement_def life_inv_def nth_append less_Suc_eq split: if_splits)
next
  case L_create
  then show ?thesis using assms
    by (auto simp: run_statement_def life_inv_def nth_append less_Suc_eq split: if_splits)
next
  case (L_join_io i)
  then show ?thesis using assms thread_ended
    by (auto simp: run_statement_def life_inv_def io_joins_def less_Suc_eq split: if_splits)
next
  case L_join_db
  then show ?thesis using assms by (auto simp: run_statement_def life_inv_def split: if_splits)
qed (use assms thread_ended in \<open>auto simp: run_statement_def life_inv_def io_joins_def split: if_splits\<close>)

lemma life_step_inv: "life_step pool workers z z' \<Longrightarrow> life_inv z \<Longrightarrow> life_inv z'"
proof (induction rule: life_step.induct)
  case (statement z z')
  then show ?case by (rule statement_inv)
next
  case (signal z)
  then show ?case by (auto simp: life_inv_def handleStop_def)
next
  case (worker_ends z i)
  then show ?case using set_update_subset_insert [of "sl_workers z" i Ended] by (auto simp: life_inv_def)
next
  case (main_ends z)
  then show ?case by (auto simp: life_inv_def)
next
  case (io_ends z i)
  have nth: "it_thread ((sl_io z)[i := (sl_io z ! i)\<lparr>it_thread := Ended\<rparr>] ! j) = (if j = i then Ended else it_thread (sl_io z ! j))" if "j < length (sl_io z)" for j
    using that by (simp add: nth_list_update)
  from io_ends show ?case unfolding life_inv_def by (simp add: nth)
qed

lemma life_reach_inv: "life_reach pool workers z z' \<Longrightarrow> life_inv z \<Longrightarrow> life_inv z'"
  by (induction rule: life_reach.induct) (auto intro: life_step_inv)

lemma start_inv: "life_inv server_start"
  by (simp add: life_inv_def server_start_def)

theorem no_thread_left:
  assumes "life_reach pool workers server_start z" "sl_pc z = L_done"
  shows "it_thread (sl_main z) = Ended \<and> (\<forall>t \<in> set (sl_io z). it_thread t = Ended) \<and> (\<forall>w \<in> set (sl_workers z). w = Ended)"
  using life_reach_inv [OF assms(1) start_inv] assms(2) thread_ended
  by (auto simp: life_inv_def in_set_conv_nth)

section \<open>A stop of the running server\<close>

text \<open>
  The signal came when all io threads were started, one at least: the server stops, in finitely many steps
  of any scheduler.
\<close>

definition stopping :: "server_life \<Rightarrow> bool" where
  "stopping z \<longleftrightarrow> sl_need_stop z \<and> it_stopped (sl_main z) \<and> list_all it_stopped (sl_io z) \<and> sl_io z \<noteq> [] \<and>
     \<not> starting (sl_pc z) \<and> sl_pc z \<noteq> L_killed \<and> \<not> sl_signals z"

fun statements_left :: "nat \<Rightarrow> nat \<Rightarrow> location \<Rightarrow> nat" where
  "statements_left workers n L_db = n + workers + 6"
| "statements_left workers n L_accept = n + 5"
| "statements_left workers n L_join_db = n + 4"
| "statements_left workers n L_join_main = n + 3"
| "statements_left workers n (L_join_io i) = (n - i) + 2"
| "statements_left workers n L_done = 0"
| "statements_left workers n _ = 0"

definition life_measure :: "nat \<Rightarrow> server_life \<Rightarrow> nat" where
  "life_measure workers z = statements_left workers (length (sl_io z)) (sl_pc z) + count_list (sl_workers z) Running +
     (if it_thread (sl_main z) = Running then 1 else 0) + count_list (map it_thread (sl_io z)) Running"

lemma count_list_ended:
  "i < length ts \<Longrightarrow> ts ! i = Running \<Longrightarrow> count_list (ts[i := Ended]) Running < count_list ts Running"
proof (induction ts arbitrary: i)
  case (Cons t ts)
  then show ?case using Cons.IH [of "i - 1"] by (cases i) auto
qed simp

lemma count_replicate: "count_list (replicate n x) x = n"
  by (induction n) auto

lemma stopping_step:
  assumes "life_step pool workers z z'" "stopping z" "life_inv z"
  shows "stopping z' \<and> life_measure workers z' < life_measure workers z"
  using assms(1)
proof cases
  case statement
  then show ?thesis using assms(2,3) statement
    by (auto simp: run_statement_def stopping_def starting_def life_measure_def count_replicate split: location.splits if_splits)
next
  case signal
  then show ?thesis using assms(2) by (simp add: stopping_def)
next
  case (worker_ends i)
  then show ?thesis using assms(2) count_list_ended [of i "sl_workers z"] by (simp add: stopping_def life_measure_def)
next
  case main_ends
  then show ?thesis using assms(2) by (simp add: stopping_def life_measure_def)
next
  case (io_ends i)
  then show ?thesis
    using assms(2) count_list_ended [of i "map it_thread (sl_io z)"]
    by (auto simp: stopping_def life_measure_def map_update list_all_iff dest!: set_update_subset_insert [THEN subsetD])
qed

lemma stopping_moves:
  assumes "stopping z" "life_inv z" "sl_pc z \<noteq> L_done"
  shows "\<exists>z'. life_step pool workers z z'"
proof (cases "run_statement pool workers z")
  case (Some z')
  then show ?thesis using life_step.statement by blast
next
  case None
  then consider "sl_pc z = L_join_db" "Running \<in> set (sl_workers z)" | "sl_pc z = L_join_main" "it_thread (sl_main z) = Running"
    | i where "sl_pc z = L_join_io i" "i < length (sl_io z)" "it_thread (sl_io z ! i) = Running"
    using assms(1,3) by (auto simp: run_statement_def stopping_def starting_def io_joins_def split: location.splits if_splits)
  then show ?thesis
  proof cases
    case 1
    then show ?thesis using assms(1) life_step.worker_ends [of z] by (auto simp: stopping_def in_set_conv_nth)
  next
    case 2
    then show ?thesis using assms(1) life_step.main_ends [of z] by (auto simp: stopping_def)
  next
    case 3
    then show ?thesis using assms(1) life_step.io_ends [of z i] by (auto simp: stopping_def list_all_length)
  qed
qed

lemma stopping_reach:
  "life_reach pool workers z z' \<Longrightarrow> stopping z \<Longrightarrow> life_inv z \<Longrightarrow> stopping z' \<and> life_inv z'"
  by (induction rule: life_reach.induct) (auto dest: stopping_step life_step_inv)

text \<open>When all threads are started there are as many as the option says.\<close>

definition pool_full :: "nat \<Rightarrow> server_life \<Rightarrow> bool" where
  "pool_full pool z \<longleftrightarrow> starting (sl_pc z) \<or> pool \<le> length (sl_io z)"

lemma pool_full_step: "life_step pool workers z z' \<Longrightarrow> pool_full pool z \<Longrightarrow> pool_full pool z'"
  by (induction rule: life_step.induct)
    (auto simp: pool_full_def starting_def run_statement_def handleStop_def split: location.splits if_splits)

lemma pool_started: "life_reach pool workers server_start z \<Longrightarrow> pool_full pool z"
proof (induction rule: life_reach.induct)
  case start
  show ?case by (simp add: pool_full_def starting_def server_start_def)
next
  case (step z' z'')
  then show ?case using pool_full_step by blast
qed

text \<open>
  (C18) A signal that arrives when the io threads are started, one at least, stops the server:
  from then on some thread can always make a step until run returns, and every step of any
  scheduler lowers a measure of the statements left and the threads that run.
\<close>

theorem stop_ends:
  assumes "0 < pool" "life_reach pool workers server_start z" "sl_signals z" "it_thread (sl_main z) = Running" "\<not> starting (sl_pc z)" "sl_pc z \<noteq> L_killed"
    and "life_reach pool workers (handleStop z) z'"
  shows "(sl_pc z' \<noteq> L_done \<longrightarrow> (\<exists>z''. life_step pool workers z' z'')) \<and>
    (\<forall>z''. life_step pool workers z' z'' \<longrightarrow> life_measure workers z'' < life_measure workers z')"
proof -
  have "stopping (handleStop z)"
    using pool_started [OF assms(2)] assms(1,5,6) by (auto simp: stopping_def handleStop_def list_all_iff pool_full_def)
  moreover have "life_inv (handleStop z)"
    using life_reach_inv [OF assms(2) start_inv] by (auto simp: life_inv_def handleStop_def)
  ultimately have "stopping z' \<and> life_inv z'"
    using stopping_reach [OF assms(7)] by simp
  then show ?thesis using stopping_moves stopping_step by blast
qed

text \<open>Without io threads the server does not live to serve anyone.\<close>

theorem no_io_threads_killed:
  "life_reach 0 workers server_start z \<Longrightarrow> sl_pc z \<in> {L_main, L_clear, L_create, L_db, L_accept, L_killed} \<and> sl_io z = []"
proof (induction rule: life_reach.induct)
  case (step z' z'')
  from step.hyps(2) step.IH show ?case
    by (induction rule: life_step.induct) (auto simp: run_statement_def handleStop_def)
qed (simp add: server_start_def)

section \<open>A stop while the server starts\<close>

text \<open>
  The signal came after \<open>m_MainIo\<close> was started and before the first io thread was: \<open>handleStop\<close>
  finds no io thread to stop, the ones that are started after it run for ever, and so does the
  main thread that waits for them.
\<close>

definition runs_on :: "io_thread list \<Rightarrow> bool" where
  "runs_on ts \<longleftrightarrow> ts \<noteq> [] \<and> it_thread (hd ts) = Running \<and> \<not> it_stopped (hd ts)"

definition hangs :: "server_life \<Rightarrow> bool" where
  "hangs z \<longleftrightarrow> \<not> sl_signals z \<and>
     (case sl_pc z of
        L_main \<Rightarrow> False
      | L_clear \<Rightarrow> True
      | L_create \<Rightarrow> sl_io z = [] \<or> runs_on (sl_io z)
      | L_start \<Rightarrow> (\<exists>t. sl_io z = [t]) \<or> (runs_on (sl_io z) \<and> 1 < length (sl_io z))
      | L_join_io i \<Rightarrow> i = 0 \<and> runs_on (sl_io z)
      | L_done \<Rightarrow> False
      | L_killed \<Rightarrow> False
      | _ \<Rightarrow> runs_on (sl_io z))"

lemma runs_on_append: "runs_on ts \<Longrightarrow> runs_on (ts @ us)"
  by (simp add: runs_on_def)

lemma hangs_step:
  assumes "life_step pool workers z z'" "hangs z" "0 < pool"
  shows "hangs z'"
  using assms(1)
proof cases
  case statement
  show ?thesis
  proof (cases "sl_pc z")
    case L_start
    then obtain ts t where io: "sl_io z = ts @ [t]"
      using assms(2) by (cases "sl_io z" rule: rev_cases) (auto simp: hangs_def runs_on_def)
    then show ?thesis using assms(2) statement L_start
      by (cases ts) (auto simp: run_statement_def hangs_def runs_on_def)
  next
    case (L_join_io i)
    then show ?thesis using assms(2) statement
      by (cases "sl_io z") (auto simp: run_statement_def hangs_def runs_on_def io_joins_def split: if_splits)
  qed (use assms(2,3) statement in \<open>auto simp: run_statement_def hangs_def runs_on_def split: if_splits\<close>)
next
  case signal
  then show ?thesis using assms(2) by (simp add: hangs_def)
next
  case (io_ends i)
  then show ?thesis using assms(2)
    by (cases "sl_io z"; cases i) (auto simp: hangs_def runs_on_def split: location.splits)
qed (use assms(2) in \<open>auto simp: hangs_def split: location.splits\<close>)

lemma hangs_not_done: "hangs z \<Longrightarrow> sl_pc z \<noteq> L_done"
  by (auto simp: hangs_def)

text \<open>
  (C19) There is a moment, after the main io thread was started and before the first of the
  others, at which a signal is handled and lost: handleStop finds no thread to stop, the
  threads started after it never end, and run never returns, whatever the scheduler does from
  then on.
\<close>

theorem early_stop_hangs:
  assumes "0 < pool"
  shows "\<exists>z. life_reach pool workers server_start z \<and> sl_need_stop z \<and>
    (\<forall>z'. life_reach pool workers z z' \<longrightarrow> sl_pc z' \<noteq> L_done)"
proof -
  let ?z = "server_start\<lparr>sl_main := io_start new_io_thread, sl_pc := L_clear\<rparr>"
  have "life_step pool workers server_start ?z"
    by (rule life_step.statement) (simp add: run_statement_def server_start_def)
  moreover have "life_step pool workers ?z (handleStop ?z)"
    by (rule life_step.signal) (simp_all add: server_start_def)
  ultimately have "life_reach pool workers server_start (handleStop ?z)"
    using life_reach.start life_reach.step by blast
  moreover have "hangs z'" if "life_reach pool workers (handleStop ?z) z'" for z'
    using that by (induction rule: life_reach.induct) (use hangs_step [OF _ _ assms] in \<open>auto simp: hangs_def handleStop_def\<close>)
  ultimately show ?thesis
    using hangs_not_done by (intro exI [of _ "handleStop ?z"]) (simp add: handleStop_def)
qed

section \<open>Witnesses\<close>

primrec statements :: "nat \<Rightarrow> nat \<Rightarrow> nat \<Rightarrow> server_life \<Rightarrow> server_life option" where
  "statements pool workers 0 z = Some z"
| "statements pool workers (Suc k) z = Option.bind (run_statement pool workers z) (statements pool workers k)"

lemma statements_reach:
  "statements pool workers k z' = Some z'' \<Longrightarrow> life_reach pool workers z z' \<Longrightarrow> life_reach pool workers z z''"
  by (induction k arbitrary: z') (auto split: bind_splits intro: life_reach.step life_step.statement)

definition demo_running :: server_life where
  "demo_running = the (statements 1 2 7 server_start)"

lemma demo_running: "life_reach 1 2 server_start demo_running" "sl_pc demo_running = L_join_db" "sl_signals demo_running"
  "it_thread (sl_main demo_running) = Running"
proof -
  have "statements 1 2 7 server_start = Some demo_running"
    unfolding demo_running_def by code_simp
  then show "life_reach 1 2 server_start demo_running" by (rule statements_reach [OF _ life_reach.start])
qed code_simp+

lemma stop_ends_witness:
  "\<exists>z''. life_step 1 2 (handleStop demo_running) z'' \<and> life_measure 2 z'' < life_measure 2 (handleStop demo_running)"
proof -
  have "\<not> starting (sl_pc demo_running)" "sl_pc demo_running \<noteq> L_killed" by (simp_all add: demo_running(2) starting_def)
  from stop_ends [OF _ demo_running(1,3,4) this life_reach.start] show ?thesis
    by (auto simp: handleStop_def demo_running(2))
qed

lemma early_stop_hangs_witness:
  "\<exists>z. life_reach 3 5 server_start z \<and> sl_need_stop z \<and> (\<forall>z'. life_reach 3 5 z z' \<longrightarrow> sl_pc z' \<noteq> L_done)"
  by (rule early_stop_hangs) simp

end
