(* ===== verification/Net_Connect.thy ===== *)
theory Net_Connect
  imports Cxx_Std
begin

text \<open>
  Connecting to one of several endpoints: \<open>RangeConnectOp\<close> of \<open>net/async_connect.hpp\<close>,
  \<open>SyncConnector\<close> of \<open>net/sync_connect.hpp\<close> with the timer and the wait of \<open>sync_connect\<close>, and
  from \<open>net/client.cpp\<close> \<open>resolve\<close>, \<open>asyncConnect\<close> with the TLS handshake, and the loop of
  \<open>write\<close>. What boost answers is an argument: \<open>opened ep\<close>, the error of opening a socket for
  the endpoint, and \<open>attempt i ep\<close>, the error of the \<open>i\<close>-th connect; \<open>None\<close> is success.
\<close>

section \<open>Endpoints one after the other\<close>

datatype net_error = Operation_aborted | Timed_out | Not_found | No_recovery | Net_error nat

text \<open>The call of the handler: the error and the endpoint, \<open>None\<close> for a default endpoint.\<close>

type_synonym 'ep connected = "net_error option \<times> 'ep option"

fun start_connect ::
  "('ep \<Rightarrow> net_error option) \<Rightarrow> (nat \<Rightarrow> 'ep \<Rightarrow> net_error option) \<Rightarrow> nat \<Rightarrow> 'ep \<Rightarrow> 'ep list \<Rightarrow> 'ep connected" where
  "start_connect opened attempt i ep rest =
     (case opened ep of
        Some ec \<Rightarrow> (Some ec, None)
      | None \<Rightarrow>
          let ec = attempt i ep in
          if ec = None \<or> ec = Some Operation_aborted then (ec, if ec = None then Some ep else None)
          else
            (case rest of
               next_ep # rest' \<Rightarrow> start_connect opened attempt (Suc i) next_ep rest'
             | [] \<Rightarrow> (ec, None)))"

text \<open>\<open>asyncConnect\<close>: no endpoint is a failed assertion.\<close>

definition range_connect ::
  "('ep \<Rightarrow> net_error option) \<Rightarrow> (nat \<Rightarrow> 'ep \<Rightarrow> net_error option) \<Rightarrow> 'ep list \<Rightarrow> 'ep connected option" where
  "range_connect opened attempt endpoints =
     (case endpoints of [] \<Rightarrow> None | ep # rest \<Rightarrow> Some (start_connect opened attempt 0 ep rest))"

text \<open>\<open>resolve\<close>: the addresses found, in the order \<open>std::random_shuffle\<close> gives them.\<close>

definition resolve :: "('ep list \<Rightarrow> 'ep list) \<Rightarrow> 'ep list \<Rightarrow> cxx_exn + 'ep list" where
  "resolve shuffle found =
     (let valid_domains = shuffle found; ips_found = length found
      in if valid_domains = [] \<and> ips_found \<noteq> 0 then
           Inl (Runtime_error ''connect failed : all resolved IPs are blacklisted'')
         else if ips_found = 0 then Inl (Runtime_error ''connect failed : not found'')
         else Inr valid_domains)"

text \<open>
  \<open>AsyncHttpClient::asyncConnect\<close>: the error its handler gets. \<open>found\<close> is what the resolver
  finds, \<open>None\<close> if it throws; \<open>made\<close> the error of \<open>makeConnected\<close>, \<open>handshake\<close> the one of TLS.
\<close>

definition handleConnect :: "bool \<Rightarrow> net_error option \<Rightarrow> net_error option \<Rightarrow> net_error option" where
  "handleConnect ssl handshake error =
     (if error \<noteq> None then error else if \<not> ssl then None else handshake)"

definition http_asyncConnect ::
  "('ep list \<Rightarrow> 'ep list) \<Rightarrow> 'ep list option \<Rightarrow> ('ep \<Rightarrow> net_error option) \<Rightarrow> (nat \<Rightarrow> 'ep \<Rightarrow> net_error option) \<Rightarrow>
     net_error option \<Rightarrow> bool \<Rightarrow> net_error option \<Rightarrow> net_error option option" where
  "http_asyncConnect shuffle found opened attempt made ssl handshake =
     (case found of
        None \<Rightarrow> Some (Some No_recovery)
      | Some eps \<Rightarrow>
          (case resolve shuffle eps of
             Inl _ \<Rightarrow> Some (Some No_recovery)
           | Inr hosts \<Rightarrow>
               map_option (\<lambda>(ec, _). handleConnect ssl handshake (if ec = None then made else ec))
                 (range_connect opened attempt hosts)))"

section \<open>The blocking connect\<close>

record 'ep sync_context =
  sc_next_endpoint :: nat
  sc_timer_finished :: bool
  sc_connect_finished :: bool
  sc_connect_result :: "net_error option"
  sc_connecting :: "'ep option"

text \<open>\<open>sc_connecting\<close> is the endpoint whose \<open>async_connect\<close> is in flight.\<close>

definition finish_connect :: "net_error option \<Rightarrow> 'ep sync_context \<Rightarrow> 'ep sync_context" where
  "finish_connect ec c = c\<lparr>sc_connect_result := ec, sc_connect_finished := True, sc_connecting := None\<rparr>"

definition startConnect ::
  "('ep \<Rightarrow> net_error option) \<Rightarrow> 'ep list \<Rightarrow> net_error option \<Rightarrow> 'ep sync_context \<Rightarrow> 'ep sync_context" where
  "startConnect opened endpoints last_error c =
     (if sc_next_endpoint c \<ge> length endpoints then
        finish_connect (if last_error \<noteq> None then last_error else Some Not_found) c
      else
        let endpoint = endpoints ! sc_next_endpoint c in
        case opened endpoint of
          Some open_error \<Rightarrow> finish_connect (Some open_error) c
        | None \<Rightarrow> c\<lparr>sc_connecting := Some endpoint\<rparr>)"

definition async_connect_handler ::
  "('ep \<Rightarrow> net_error option) \<Rightarrow> 'ep list \<Rightarrow> net_error option \<Rightarrow> 'ep sync_context \<Rightarrow> 'ep sync_context" where
  "async_connect_handler opened endpoints ec c =
     (if ec = None then finish_connect None c
      else if sc_timer_finished c then finish_connect (Some Timed_out) c
      else startConnect opened endpoints ec (c\<lparr>sc_next_endpoint := sc_next_endpoint c + 1\<rparr>))"

text \<open>The callback of the timer, after its time or when \<open>finish_connect\<close> cancels it.\<close>

definition timer_callback :: "'ep sync_context \<Rightarrow> 'ep sync_context" where
  "timer_callback c = c\<lparr>sc_timer_finished := True\<rparr>"

definition sync_start :: "('ep \<Rightarrow> net_error option) \<Rightarrow> 'ep list \<Rightarrow> 'ep sync_context" where
  "sync_start opened endpoints =
     startConnect opened endpoints None
       \<lparr>sc_next_endpoint = 0, sc_timer_finished = False, sc_connect_finished = False,
        sc_connect_result = None, sc_connecting = None\<rparr>"

text \<open>The steps of the event loop while \<open>sync_connect\<close> waits.\<close>

inductive sync_step :: "('ep \<Rightarrow> net_error option) \<Rightarrow> 'ep list \<Rightarrow> 'ep sync_context \<Rightarrow> 'ep sync_context \<Rightarrow> bool"
  for opened endpoints where
  connect_done: "sync_step opened endpoints c (async_connect_handler opened endpoints ec (c\<lparr>sc_connecting := None\<rparr>))"
    if "sc_connecting c = Some ep"
| timer: "sync_step opened endpoints c (timer_callback c)" if "\<not> sc_timer_finished c"

inductive_cases sync_stepE: "sync_step opened endpoints c c'"

inductive sync_reach :: "('ep \<Rightarrow> net_error option) \<Rightarrow> 'ep list \<Rightarrow> 'ep sync_context \<Rightarrow> bool" for opened endpoints where
  start: "sync_reach opened endpoints (sync_start opened endpoints)"
| step: "sync_reach opened endpoints c'" if "sync_reach opened endpoints c" "sync_step opened endpoints c c'"

text \<open>The condition of the wait, and the exception after it.\<close>

definition sync_waits :: "'ep sync_context \<Rightarrow> bool" where
  "sync_waits c \<longleftrightarrow> \<not> sc_timer_finished c \<or> \<not> sc_connect_finished c"

section \<open>Blocking write\<close>

text \<open>The loop of \<open>write\<close> with the results of \<open>write_some\<close>; \<open>None\<close>: it still waits for the next one.\<close>

fun write_loop :: "(net_error + nat) list \<Rightarrow> string \<Rightarrow> nat \<Rightarrow> (net_error + nat) option" where
  "write_loop rs str bytes =
     (if bytes < length str then
        (case rs of
           [] \<Rightarrow> None
         | Inl ec # _ \<Rightarrow> Some (Inl ec)
         | Inr w # rs' \<Rightarrow> write_loop rs' str (bytes + w))
      else Some (Inr bytes))"

section \<open>The first endpoint that works\<close>

text \<open>What makes the connector go on to the next endpoint.\<close>

definition failed_attempt :: "('ep \<Rightarrow> net_error option) \<Rightarrow> (nat \<Rightarrow> 'ep \<Rightarrow> net_error option) \<Rightarrow> nat \<Rightarrow> 'ep \<Rightarrow> bool" where
  "failed_attempt opened attempt i ep \<longleftrightarrow>
     opened ep = None \<and> attempt i ep \<noteq> None \<and> attempt i ep \<noteq> Some Operation_aborted"

lemma start_connect_cases:
  "start_connect opened attempt i ep rest =
     (if opened ep \<noteq> None then (opened ep, None)
      else if attempt i ep = None then (None, Some ep)
      else if attempt i ep = Some Operation_aborted \<or> rest = [] then (attempt i ep, None)
      else start_connect opened attempt (Suc i) (hd rest) (tl rest))"
  by (cases rest) (auto simp: Let_def split: option.split)

declare start_connect.simps [simp del]

lemma start_connect_first:
  "start_connect opened attempt i ep rest = (None, Some ep') \<longleftrightarrow>
     (\<exists>j < length (ep # rest). (ep # rest) ! j = ep' \<and> opened ep' = None \<and> attempt (i + j) ep' = None \<and>
        (\<forall>k < j. failed_attempt opened attempt (i + k) ((ep # rest) ! k)))"
proof (induction rest arbitrary: i ep)
  case Nil
  show ?case by (subst start_connect_cases) (auto simp: failed_attempt_def)
next
  case (Cons e rest)
  show ?case
    by (subst start_connect_cases)
      (auto simp: Cons.IH failed_attempt_def Ex_less_Suc2 All_less_Suc2 simp del: All_less_Suc)
qed

text \<open>
  The connector ends with an endpoint exactly when it is the first in the order of the
  addresses whose socket opens and whose connect succeeds, and every endpoint before it opened
  and failed with an error other than an abort.
\<close>

theorem connects_to_first_working:
  "range_connect opened attempt endpoints = Some (None, Some ep) \<longleftrightarrow>
     (\<exists>i < length endpoints. endpoints ! i = ep \<and> opened ep = None \<and> attempt i ep = None \<and>
        (\<forall>j < i. failed_attempt opened attempt j (endpoints ! j)))"
  using start_connect_first [of opened attempt 0] by (auto simp: range_connect_def split: list.split)

text \<open>The first address refuses, the second one answers.\<close>

lemma connects_to_first_working_witness:
  "range_connect (\<lambda>_. None) (\<lambda>i _. if i = 0 then Some (Net_error 111) else None) [7, 8 :: nat] = Some (None, Some 8)"
  by (rule connects_to_first_working [THEN iffD2], rule exI [of _ "Suc 0"]) (simp add: failed_attempt_def)

section \<open>The blocking connect ends\<close>

definition sync_inv :: "'ep list \<Rightarrow> 'ep sync_context \<Rightarrow> bool" where
  "sync_inv endpoints c \<longleftrightarrow>
     (if sc_connect_finished c then sc_connecting c = None
      else sc_next_endpoint c < length endpoints \<and> sc_connecting c = Some (endpoints ! sc_next_endpoint c))"

definition sync_measure :: "'ep list \<Rightarrow> 'ep sync_context \<Rightarrow> nat" where
  "sync_measure endpoints c = (if sc_timer_finished c then 0 else 1) +
     (if sc_connect_finished c then 0 else 1 + (length endpoints - sc_next_endpoint c))"

lemma startConnect_inv: "\<not> sc_connect_finished c \<Longrightarrow> sync_inv endpoints (startConnect opened endpoints e c)"
  by (auto simp: startConnect_def finish_connect_def sync_inv_def Let_def split: option.split)

lemma async_connect_handler_inv:
  "\<not> sc_connect_finished c \<Longrightarrow> sync_inv endpoints (async_connect_handler opened endpoints ec c)"
  by (auto simp: async_connect_handler_def startConnect_inv)
    (auto simp: finish_connect_def sync_inv_def)

lemma sync_reach_inv: "sync_reach opened endpoints c \<Longrightarrow> sync_inv endpoints c"
proof (induction rule: sync_reach.induct)
  case start
  show ?case unfolding sync_start_def by (rule startConnect_inv) simp
next
  case (step c c')
  from step.hyps(2) step.IH show ?case
  proof cases
    case (connect_done ep ec)
    with step.IH have "\<not> sc_connect_finished c" by (auto simp: sync_inv_def split: if_splits)
    with connect_done show ?thesis by (simp add: async_connect_handler_inv)
  next
    case timer
    with step.IH show ?thesis by (simp add: timer_callback_def sync_inv_def)
  qed
qed

lemma async_connect_handler_less:
  assumes "\<not> sc_connect_finished c" "sc_next_endpoint c < length endpoints"
  shows "sync_measure endpoints (async_connect_handler opened endpoints ec (c\<lparr>sc_connecting := x\<rparr>)) < sync_measure endpoints c"
  using assms
  by (auto simp: async_connect_handler_def startConnect_def finish_connect_def sync_measure_def Let_def
      split: option.split)

text \<open>
  The blocking connect ends: as long as it waits, the timer or a connect can still
  report; every report lowers a measure of the endpoints left and the timer; once it is
  finished no connect is in flight.
\<close>

theorem sync_connect_ends:
  assumes "sync_reach opened endpoints c"
  shows "(sync_waits c \<longrightarrow> (\<exists>c'. sync_step opened endpoints c c')) \<and>
    (\<forall>c'. sync_step opened endpoints c c' \<longrightarrow> sync_measure endpoints c' < sync_measure endpoints c) \<and>
    (sc_connect_finished c \<longrightarrow> sc_connecting c = None)"
proof (intro conjI allI impI)
  have inv: "sync_inv endpoints c" by (rule sync_reach_inv [OF assms])
  assume w: "sync_waits c"
  show "\<exists>c'. sync_step opened endpoints c c'"
  proof (cases "sc_timer_finished c")
    case True
    with w inv have "sc_connecting c = Some (endpoints ! sc_next_endpoint c)"
      by (auto simp: sync_waits_def sync_inv_def)
    then show ?thesis by (blast intro: sync_step.connect_done)
  next
    case False
    then show ?thesis by (blast intro: sync_step.timer)
  qed
next
  fix c' assume "sync_step opened endpoints c c'"
  then show "sync_measure endpoints c' < sync_measure endpoints c"
  proof cases
    case (connect_done ep ec)
    with sync_reach_inv [OF assms] have "\<not> sc_connect_finished c" "sc_next_endpoint c < length endpoints"
      by (auto simp: sync_inv_def split: if_splits)
    with connect_done show ?thesis by (simp add: async_connect_handler_less)
  next
    case timer
    then show ?thesis by (simp add: timer_callback_def sync_measure_def)
  qed
next
  assume "sc_connect_finished c"
  with sync_reach_inv [OF assms] show "sc_connecting c = None" by (simp add: sync_inv_def)
qed

lemma sync_connect_ends_witness:
  "sync_waits (sync_start (\<lambda>_. None) [7 :: nat]) \<and>
    (\<exists>c'. sync_step (\<lambda>_. None) [7 :: nat] (sync_start (\<lambda>_. None) [7]) c')"
proof -
  have "sync_waits (sync_start (\<lambda>_. None) [7 :: nat])"
    by (simp add: sync_waits_def sync_start_def startConnect_def)
  with sync_connect_ends [OF sync_reach.start [of "\<lambda>_. None" "[7 :: nat]"]] show ?thesis by blast
qed

section \<open>A write is complete\<close>

lemma write_loop_complete: "write_loop rs str bytes = Some (Inr n) \<Longrightarrow> length str \<le> n"
  by (induction rs str bytes rule: write_loop.induct)
    (auto split: if_splits list.splits sum.splits simp: write_loop.simps)

end
