(* ===== verification/Net_Read.thy ===== *)
theory Net_Read
  imports Net_Connect Http
begin

text \<open>
  The blocking \<open>read_until\<close> and \<open>read\<close> of \<open>BasicTcpClient\<close> (\<open>net/client.cpp\<close>): the part that
  takes bytes from the buffer, and the wait, which is a race between the handler of an
  asynchronous read and the handler of a timer. Both handlers run one at a time, as the strand
  makes them, and wake the waiting thread by a handler posted to a private \<open>io_service\<close>.
\<close>

section \<open>The wait\<close>

text \<open>
  A handler: its operation is pending, or is over and the handler is queued with an error code
  and a number of bytes, or the handler has run. Cancelling a pending operation queues its
  handler with \<open>operation_aborted\<close>; cancelling one that is over has no effect.
\<close>

datatype handler = Pending | Queued "net_error option" nat | Ran

fun cancelled :: "handler \<Rightarrow> handler" where
  "cancelled Pending = Queued (Some Operation_aborted) 0"
| "cancelled (Queued e n) = Queued e n"
| "cancelled Ran = Ran"

record sync_wait =
  sw_timer :: handler
  sw_read :: handler
  sw_bytes :: nat
  sw_timer_result :: "net_error option option"
  sw_read_result :: "net_error option option"
  sw_posts :: nat

definition wait_start :: sync_wait where
  "wait_start = \<lparr>sw_timer = Pending, sw_read = Pending, sw_bytes = 0, sw_timer_result = None, sw_read_result = None,
     sw_posts = 0\<rparr>"

definition read_completed :: "net_error option \<Rightarrow> nat \<Rightarrow> sync_wait \<Rightarrow> sync_wait" where
  "read_completed error transferred w =
     (if error = Some Operation_aborted then w
      else w\<lparr>sw_timer := cancelled (sw_timer w), sw_read_result := Some error,
             sw_bytes := (if error = None then transferred else sw_bytes w), sw_posts := sw_posts w + 1\<rparr>)"

definition timeout_expired :: "net_error option \<Rightarrow> sync_wait \<Rightarrow> sync_wait" where
  "timeout_expired error w =
     (if error = Some Operation_aborted then w
      else w\<lparr>sw_read := cancelled (sw_read w), sw_timer_result := Some error, sw_posts := sw_posts w + 1\<rparr>)"

text \<open>
  The timer expires; the read ends with its result \<open>res\<close>, an error or a number of bytes, or it
  is aborted as the socket is cancelled elsewhere; a queued handler runs.
\<close>

inductive wait_step :: "net_error option \<times> nat \<Rightarrow> sync_wait \<Rightarrow> sync_wait \<Rightarrow> bool" for res where
  expire: "wait_step res w (w\<lparr>sw_timer := Queued None 0\<rparr>)" if "sw_timer w = Pending"
| arrive: "wait_step res w (w\<lparr>sw_read := Queued (fst res) (snd res)\<rparr>)" if "sw_read w = Pending"
| abort: "wait_step res w (w\<lparr>sw_read := cancelled (sw_read w)\<rparr>)" if "sw_read w = Pending"
| read_handler: "wait_step res w (read_completed e n (w\<lparr>sw_read := Ran\<rparr>))" if "sw_read w = Queued e n"
| timer_handler: "wait_step res w (timeout_expired e (w\<lparr>sw_timer := Ran\<rparr>))" if "sw_timer w = Queued e n"

inductive_cases wait_stepE: "wait_step res w w'"

inductive wait_reach :: "net_error option \<times> nat \<Rightarrow> sync_wait \<Rightarrow> bool" for res where
  start: "wait_reach res wait_start"
| step: "wait_reach res w'" if "wait_reach res w" "wait_step res w w'"

text \<open>
  \<open>run_one\<close> returns after the first post. Then the call throws, or goes on with the bytes.
\<close>

datatype wait_outcome = Blocked | Throws_timeout | Throws_read net_error | Goes_on nat

definition wait_outcome :: "sync_wait \<Rightarrow> wait_outcome" where
  "wait_outcome w =
     (if sw_posts w = 0 then Blocked
      else if sw_timer_result w \<noteq> None then Throws_timeout
      else (case sw_read_result w of Some (Some e) \<Rightarrow> Throws_read e | _ \<Rightarrow> Goes_on (sw_bytes w)))"

section \<open>The buffer\<close>

text \<open>
  The fast path finds what it needs in the buffer and returns the number of bytes before the
  delimiter. The slow path waits; \<open>arrived\<close> is what the socket has added to the buffer when
  the wait is over, and the number returned is the one of the read, delimiter included.
\<close>

definition sync_read_until ::
  "string \<Rightarrow> wait_outcome \<Rightarrow> string \<Rightarrow> string \<Rightarrow> (wait_outcome + nat \<times> string \<times> string)" where
  "sync_read_until delimiter res arrived buf =
     (case (if buf = [] then None else read_until delimiter buf) of
        Some (resp, rest) \<Rightarrow> Inr (length resp, resp, rest)
      | None \<Rightarrow>
          (case res of
             Goes_on bytes \<Rightarrow>
               Inr (bytes, take (bytes - length delimiter) (buf @ arrived), drop bytes (buf @ arrived))
           | _ \<Rightarrow> Inl res))"

text \<open>\<open>read\<close> takes the bytes that are in the buffer first, and then reads past the buffer.\<close>

definition sync_read :: "nat \<Rightarrow> wait_outcome \<Rightarrow> string \<Rightarrow> string \<Rightarrow> (wait_outcome + nat \<times> string \<times> string)" where
  "sync_read need_bytes res arrived buf =
     (let already = min need_bytes (length buf)
      in if already = need_bytes then Inr (need_bytes, take need_bytes buf, drop already buf)
         else (case res of
                 Goes_on _ \<Rightarrow> Inr (need_bytes, take already buf @ take (need_bytes - already) arrived, drop already buf)
               | _ \<Rightarrow> Inl res))"

section \<open>The wait ends\<close>

fun handler_left :: "handler \<Rightarrow> nat" where
  "handler_left Pending = 2"
| "handler_left (Queued e n) = 1"
| "handler_left Ran = 0"

definition wait_measure :: "sync_wait \<Rightarrow> nat" where
  "wait_measure w = handler_left (sw_timer w) + handler_left (sw_read w)"

lemma cancelled_left: "handler_left (cancelled h) \<le> handler_left h"
  by (cases h) simp_all

lemma wait_step_less: "wait_step res w w' \<Longrightarrow> wait_measure w' < wait_measure w"
proof (induction rule: wait_step.induct)
  case (read_handler w e n)
  then show ?case using cancelled_left [of "sw_timer w"] by (auto simp: wait_measure_def read_completed_def)
next
  case (timer_handler w e n)
  then show ?case using cancelled_left [of "sw_read w"] by (auto simp: wait_measure_def timeout_expired_def)
qed (simp_all add: wait_measure_def)

text \<open>
  Before the first post nothing is decided and the timer will report; what is reported later is
  the result of the read or the expiry of the timer.
\<close>

definition wait_inv :: "net_error option \<times> nat \<Rightarrow> sync_wait \<Rightarrow> bool" where
  "wait_inv res w \<longleftrightarrow>
     (if sw_posts w = 0 then sw_timer w \<in> {Pending, Queued None 0} \<and> sw_timer_result w = None \<and> sw_read_result w = None
      else sw_timer_result w \<noteq> None \<or> sw_read_result w \<noteq> None) \<and>
     sw_timer w \<in> {Pending, Queued None 0, Queued (Some Operation_aborted) 0, Ran} \<and>
     sw_read w \<in> {Pending, Queued (fst res) (snd res), Queued (Some Operation_aborted) 0, Ran} \<and>
     sw_timer_result w \<in> {None, Some None} \<and>
     (case sw_read_result w of None \<Rightarrow> True | Some e \<Rightarrow> fst res = e \<and> (e = None \<longrightarrow> sw_bytes w = snd res))"

lemma wait_reach_inv: "wait_reach res w \<Longrightarrow> wait_inv res w"
proof (induction rule: wait_reach.induct)
  case start
  show ?case by (simp add: wait_inv_def wait_start_def)
next
  case (step w w')
  from step.hyps(2) step.IH show ?case
    by (cases res) (auto elim!: wait_stepE simp: wait_inv_def read_completed_def timeout_expired_def split: if_splits option.splits)
qed

theorem blocking_wait_ends:
  assumes "wait_reach res w"
  shows "(wait_outcome w = Blocked \<longrightarrow> (\<exists>w'. wait_step res w w')) \<and>
    (\<forall>w'. wait_step res w w' \<longrightarrow> wait_measure w' < wait_measure w)"
proof -
  have "\<exists>w'. wait_step res w w'" if "wait_outcome w = Blocked"
  proof -
    have "sw_timer w \<in> {Pending, Queued None 0}"
      using that wait_reach_inv [OF assms] by (auto simp: wait_outcome_def wait_inv_def split: if_splits option.splits)
    then show ?thesis by (auto intro: wait_step.expire wait_step.timer_handler)
  qed
  with wait_step_less show ?thesis by blast
qed

lemma wait_outcome_result:
  assumes "wait_reach res w"
  shows "wait_outcome w = Goes_on n \<Longrightarrow> res = (None, n)" "wait_outcome w = Throws_read e \<Longrightarrow> fst res = Some e"
  using wait_reach_inv [OF assms] by (auto simp: wait_outcome_def wait_inv_def prod_eq_iff split: if_splits option.splits)

section \<open>What the blocking calls return\<close>

text \<open>
  (C38) The blocking read_until throws the timeout or returns the text before the delimiter
  that a reader of the whole stream finds, with the rest left in the buffer, in whatever order
  the handlers of the read and the timer run and however much was in the buffer before.
\<close>

theorem blocking_read_until:
  assumes "wait_reach (None, length resp + length d) w" "wait_outcome w \<noteq> Blocked" "d \<noteq> []"
    and "read_until d (buf @ arrived) = Some (resp, rest)"
  shows "sync_read_until d (wait_outcome w) arrived buf = Inl Throws_timeout \<or>
    (\<exists>n rest'. sync_read_until d (wait_outcome w) arrived buf = Inr (n, resp, rest') \<and>
      rest \<in> {rest', rest' @ arrived} \<and> n \<in> {length resp, length resp + length d})"
proof (cases "read_until d buf")
  case (Some r)
  obtain resp1 rest1 where r: "r = (resp1, rest1)" by fastforce
  have "buf \<noteq> []" using Some assms(3) by (auto simp: read_until_def)
  moreover have "read_until d (buf @ arrived) = Some (resp1, rest1 @ arrived)"
    using read_until_extend [of d buf resp1 rest1 arrived] Some r by simp
  ultimately show ?thesis using Some r assms(4) by (simp add: sync_read_until_def)
next
  case None
  obtain p where p: "find_off d (buf @ arrived) 0 = Some p" "resp = take p (buf @ arrived)" "rest = drop (p + length d) (buf @ arrived)"
    using assms(4) by (auto simp: read_until_def split: option.splits)
  have "p \<le> length (buf @ arrived)" using find_off_bound [OF p(1)] by simp
  then have len: "length resp = p" using p(2) by simp
  have "wait_outcome w = Throws_timeout \<or> wait_outcome w = Goes_on (p + length d)"
    using wait_outcome_result [OF assms(1)] assms(2) len by (cases "wait_outcome w") fastforce+
  then show ?thesis using None p len by (auto simp: sync_read_until_def)
qed

theorem blocking_read:
  assumes "wait_reach (None, need - length buf) w" "wait_outcome w \<noteq> Blocked" "need \<le> length (buf @ arrived)"
    and "length buf \<le> need \<Longrightarrow> length arrived = need - length buf"
  shows "sync_read need (wait_outcome w) arrived buf = Inl Throws_timeout \<or>
    (\<exists>rest. sync_read need (wait_outcome w) arrived buf = Inr (need, take need (buf @ arrived), rest) \<and>
      drop need (buf @ arrived) \<in> {rest, rest @ arrived})"
proof (cases "length buf < need")
  case True
  then have "wait_outcome w = Throws_timeout \<or> wait_outcome w = Goes_on (need - length buf)"
    using wait_outcome_result [OF assms(1)] assms(2) by (cases "wait_outcome w") fastforce+
  then show ?thesis using True assms(3,4) by (auto simp: sync_read_def)
qed (simp add: sync_read_def Let_def)

section \<open>Both handlers\<close>

text \<open>
  The read has ended well, its handler has run, and yet the call throws the timeout: the timer
  expired before the handler of the read could cancel it.
\<close>

definition both_in_time :: "net_error option \<times> nat \<Rightarrow> sync_wait" where
  "both_in_time res = wait_start\<lparr>sw_timer := Queued None 0, sw_read := Queued (fst res) (snd res)\<rparr>"

lemma both_in_time_reach: "wait_reach res (both_in_time res)"
proof -
  have "wait_reach res (wait_start\<lparr>sw_timer := Queued None 0\<rparr>)"
    by (rule wait_reach.step [OF wait_reach.start]) (rule wait_step.expire, simp add: wait_start_def)
  moreover have "wait_step res (wait_start\<lparr>sw_timer := Queued None 0\<rparr>) (both_in_time res)"
    using wait_step.arrive [of "wait_start\<lparr>sw_timer := Queued None 0\<rparr>" res] by (simp add: both_in_time_def wait_start_def)
  ultimately show ?thesis by (rule wait_reach.step)
qed

theorem timeout_after_read:
  "\<exists>w. wait_reach (None, n) w \<and> sw_read_result w = Some None \<and> sw_bytes w = n \<and> wait_outcome w = Throws_timeout"
proof -
  let ?w1 = "read_completed None n ((both_in_time (None, n))\<lparr>sw_read := Ran\<rparr>)"
  let ?w2 = "timeout_expired None (?w1\<lparr>sw_timer := Ran\<rparr>)"
  have "wait_reach (None, n) ?w1"
    by (rule wait_reach.step [OF both_in_time_reach]) (rule wait_step.read_handler, simp add: both_in_time_def)
  then have "wait_reach (None, n) ?w2"
    by (rule wait_reach.step) (rule wait_step.timer_handler, simp add: read_completed_def both_in_time_def wait_start_def)
  moreover have "sw_read_result ?w2 = Some None \<and> sw_bytes ?w2 = n \<and> wait_outcome ?w2 = Throws_timeout"
    by (simp add: read_completed_def timeout_expired_def both_in_time_def wait_start_def wait_outcome_def)
  ultimately show ?thesis by blast
qed

text \<open>
  The call goes on with the bytes while the handler of the timer is still queued, and not with
  \<open>operation_aborted\<close>: it will write to \<open>timer_result\<close> and post to \<open>local_io\<close>, locals of a call
  that has returned, and cancel the operations of the socket.
\<close>

theorem handler_after_return:
  "\<exists>w. wait_reach (None, n) w \<and> wait_outcome w = Goes_on n \<and> sw_timer w = Queued None 0 \<and>
    sw_posts (timeout_expired None (w\<lparr>sw_timer := Ran\<rparr>)) = sw_posts w + 1"
proof -
  let ?w1 = "read_completed None n ((both_in_time (None, n))\<lparr>sw_read := Ran\<rparr>)"
  have "wait_reach (None, n) ?w1"
    by (rule wait_reach.step [OF both_in_time_reach]) (rule wait_step.read_handler, simp add: both_in_time_def)
  then show ?thesis
    by (intro exI [of _ ?w1]) (simp add: read_completed_def timeout_expired_def both_in_time_def wait_start_def wait_outcome_def)
qed

theorem read_until_counts:
  "\<exists>w. wait_reach (None, 3) w \<and>
    sync_read_until ''!'' (wait_outcome w) [] ''ab!'' = Inr (2, ''ab'', []) \<and>
    sync_read_until ''!'' (wait_outcome w) ''!'' ''ab'' = Inr (3, ''ab'', [])"
proof -
  obtain w where w: "wait_reach (None, 3) w" "wait_outcome w = Goes_on 3"
    using handler_after_return [of 3] by blast
  have "read_until ''!'' ''ab!'' = Some (''ab'', [])" "read_until ''!'' ''ab'' = None" by code_simp+
  with w show ?thesis by (intro exI [of _ w]) (simp add: sync_read_until_def)
qed

section \<open>Witnesses\<close>

lemma demo_wait: "\<exists>w. wait_reach (None, n) w \<and> wait_outcome w = Goes_on n"
  using handler_after_return by blast

lemma blocking_wait_ends_witness:
  "(\<exists>w'. wait_step (None, 4) wait_start w') \<and> (\<forall>w'. wait_step (None, 4) wait_start w' \<longrightarrow> wait_measure w' < wait_measure wait_start)"
  using blocking_wait_ends [OF wait_reach.start [of "(None, 4)"]] by (simp add: wait_outcome_def wait_start_def)

lemma blocking_read_until_witness:
  "\<exists>w n rest. wait_reach (None, 4) w \<and> sync_read_until ''!'' (wait_outcome w) ''c!d'' ''ab'' = Inr (n, ''abc'', rest)"
proof -
  obtain w where w: "wait_reach (None, 4) w" "wait_outcome w = Goes_on 4" using demo_wait by blast
  have "read_until ''!'' (''ab'' @ ''c!d'') = Some (''abc'', ''d'')" by code_simp
  moreover have "wait_reach (None, length ''abc'' + length ''!'') w" using w(1) by (simp add: eval_nat_numeral)
  moreover have "read_until ''!'' ''ab'' = None" by code_simp
  moreover have "sync_read_until ''!'' (wait_outcome w) ''c!d'' ''ab'' \<noteq> Inl Throws_timeout"
    using w(2) calculation(3) by (simp add: sync_read_until_def)
  ultimately show ?thesis
    using blocking_read_until [of "''abc''" "''!''" w "''ab''" "''c!d''" "''d''"] w by fastforce
qed

lemma blocking_read_witness:
  "\<exists>w rest. wait_reach (None, 2) w \<and> sync_read 4 (wait_outcome w) ''cd'' ''ab'' = Inr (4, ''abcd'', rest)"
proof -
  obtain w where w: "wait_reach (None, 2) w" "wait_outcome w = Goes_on 2" using demo_wait by blast
  have "sync_read 4 (wait_outcome w) ''cd'' ''ab'' \<noteq> Inl Throws_timeout" using w(2) by (simp add: sync_read_def)
  moreover have "wait_reach (None, 4 - length ''ab'') w" using w(1) by (simp add: eval_nat_numeral)
  ultimately obtain rest where "sync_read 4 (wait_outcome w) ''cd'' ''ab'' = Inr (4, take 4 (''ab'' @ ''cd''), rest)"
    using blocking_read [of 4 "''ab''" w "''cd''"] w(2) by auto
  then show ?thesis using w(1) by auto
qed

end
