(* ===== verification/Net_Client.thy ===== *)
theory Net_Client
  imports Net_Read
begin

text \<open>
  The rest of \<open>net/client.cpp\<close> and \<open>client.hpp\<close>: the match conditions of \<open>asyncRead\<close>, the state of
  a \<open>TcpClient\<close>, its connects and the handshake of the server, and \<open>gzipInflate\<close> around zlib.
\<close>

section \<open>Match conditions\<close>

text \<open>
  A condition looks at the bytes from an iterator to the end: where it matched, or where the
  next search starts, and whether it matched. Offsets stand for iterators; a match at the end is
  no match.
\<close>

definition contains_t :: "string \<Rightarrow> string \<Rightarrow> nat \<times> bool" where
  "contains_t delimiter s = (case find_off delimiter s 0 of Some pos \<Rightarrow> (if pos < length s then (pos, True) else (0, False)) | None \<Rightarrow> (0, False))"

definition exactly_t :: "nat \<Rightarrow> string \<Rightarrow> nat \<times> bool" where
  "exactly_t n s = (let size = length s in if size \<ge> n then (size, True) else (0, False))"

text \<open>
  \<open>async_read_until\<close> with a condition, over the buffer and the segments that arrive: the offset
  passed to the handler, the buffer then, and the segments not read; \<open>None\<close>: it still waits. A
  connection that fails or is closed calls the handler with an error instead, which is \<open>http_fail\<close>.
\<close>

fun asyncRead :: "(string \<Rightarrow> nat \<times> bool) \<Rightarrow> nat \<Rightarrow> string \<Rightarrow> string list \<Rightarrow> (nat \<times> string \<times> string list) option" where
  "asyncRead condition start buf segs =
     (case condition (drop start buf) of
        (off, True) \<Rightarrow> Some (start + off, buf, segs)
      | (off, False) \<Rightarrow>
          (case segs of [] \<Rightarrow> None | seg # rest \<Rightarrow> asyncRead condition (start + off) (buf @ seg) rest))"

declare asyncRead.simps [simp del]

section \<open>The state of a connection\<close>

record tcp_client =
  tc_Timeout :: int
  tc_IsOpen :: bool
  tc_Ssl :: bool
  tc_WriteBuffer :: string
  tc_RemoteAddr :: string
  tc_LocalAddr :: string

text \<open>The constructor with a context does not set \<open>m_Timeout\<close>: \<open>garbage\<close> is what is there.\<close>

definition new_tcp_client :: "bool \<Rightarrow> u32 \<Rightarrow> tcp_client" where
  "new_tcp_client ssl timeout = \<lparr>tc_Timeout = sint timeout, tc_IsOpen = False, tc_Ssl = ssl, tc_WriteBuffer = [],
     tc_RemoteAddr = [], tc_LocalAddr = []\<rparr>"

definition new_tcp_client_ctx :: "int \<Rightarrow> tcp_client" where
  "new_tcp_client_ctx garbage = \<lparr>tc_Timeout = garbage, tc_IsOpen = False, tc_Ssl = True, tc_WriteBuffer = [],
     tc_RemoteAddr = [], tc_LocalAddr = []\<rparr>"

definition setTimeout :: "u32 \<Rightarrow> tcp_client \<Rightarrow> u32 \<times> tcp_client" where
  "setTimeout val c = (word_of_int (tc_Timeout c), c\<lparr>tc_Timeout := sint val\<rparr>)"

text \<open>The timeout a blocking read takes.\<close>

definition read_timeout :: "int \<Rightarrow> tcp_client \<Rightarrow> int" where
  "read_timeout timeout c = (if timeout < 0 then tc_Timeout c else timeout)"

text \<open>\<open>is_open\<close>: what the socket answers, \<open>None\<close> when it throws.\<close>

definition isOpen :: "bool option \<Rightarrow> tcp_client \<Rightarrow> bool" where
  "isOpen is_open c = (if \<not> tc_IsOpen c then False else case is_open of Some b \<Rightarrow> b | None \<Rightarrow> False)"

definition tcp_close :: "tcp_client \<Rightarrow> tcp_client" where
  "tcp_close c = c\<lparr>tc_IsOpen := False\<rparr>"

definition shrinkToFit :: "tcp_client \<Rightarrow> tcp_client" where
  "shrinkToFit c = c\<lparr>tc_WriteBuffer := []\<rparr>"

definition asyncWrite :: "string \<Rightarrow> tcp_client \<Rightarrow> tcp_client" where
  "asyncWrite data c = c\<lparr>tc_WriteBuffer := data\<rparr>"

text \<open>
  \<open>makeConnected\<close>: what the socket answers for an endpoint, an error or its address, which may
  come with an error of \<open>to_string\<close>. The result is the error code.
\<close>

type_synonym endpoint_answer = "net_error + string \<times> net_error option"

definition tcp_makeConnected :: "endpoint_answer \<Rightarrow> endpoint_answer \<Rightarrow> tcp_client \<Rightarrow> net_error option \<times> tcp_client" where
  "tcp_makeConnected remote local c =
     (let c = c\<lparr>tc_IsOpen := True\<rparr> in
      case remote of
        Inl ec \<Rightarrow> (Some ec, c)
      | Inr (addr, ec) \<Rightarrow>
          (let c = c\<lparr>tc_RemoteAddr := addr\<rparr> in
           if ec \<noteq> None then (ec, c)
           else (case local of
                   Inl ec \<Rightarrow> (Some ec, c)
                 | Inr (addr, ec) \<Rightarrow> (ec, c\<lparr>tc_LocalAddr := addr\<rparr>))))"

text \<open>
  The blocking \<open>connect\<close>: \<open>res\<close> is the result of \<open>sync_connect\<close>. The error is the exception.
\<close>

definition tcp_connect ::
  "net_error option \<Rightarrow> endpoint_answer \<Rightarrow> endpoint_answer \<Rightarrow> tcp_client \<Rightarrow> string option \<times> tcp_client" where
  "tcp_connect res remote local c =
     (if res \<noteq> None then (Some ''connect failed : '', c)
      else (case tcp_makeConnected remote local c of
              (ec, c') \<Rightarrow> (if ec = None then None else Some ''make connected failed: '', c')))"

text \<open>\<open>TcpClient::asyncConnect\<close>: the error its handler gets; \<open>None\<close> if it is not called.\<close>

definition tcp_asyncConnect ::
  "('ep list \<Rightarrow> 'ep list) \<Rightarrow> 'ep list option \<Rightarrow> ('ep \<Rightarrow> net_error option) \<Rightarrow> (nat \<Rightarrow> 'ep \<Rightarrow> net_error option) \<Rightarrow>
     endpoint_answer \<Rightarrow> endpoint_answer \<Rightarrow> tcp_client \<Rightarrow> net_error option option \<times> tcp_client" where
  "tcp_asyncConnect shuffle found opened attempt remote local c =
     (case found of
        None \<Rightarrow> (Some (Some No_recovery), c)
      | Some eps \<Rightarrow>
          (case resolve shuffle eps of
             Inl _ \<Rightarrow> (Some (Some No_recovery), c)
           | Inr hosts \<Rightarrow>
               (case range_connect opened attempt hosts of
                  None \<Rightarrow> (None, c)
                | Some (ec, _) \<Rightarrow>
                    if ec = None then (case tcp_makeConnected remote local c of (ec', c') \<Rightarrow> (Some ec', c'))
                    else (Some ec, c))))"

definition asyncHandshakeAsServer :: "net_error option \<Rightarrow> tcp_client \<Rightarrow> net_error option" where
  "asyncHandshakeAsServer handshake c = (if \<not> tc_Ssl c then None else handshake)"

section \<open>Unpacking\<close>

text \<open>
  \<open>inflate\<close> is zlib's: from the state of the stream and the room in the buffer it gives a
  status, the bytes written and the new state. \<open>avail_in\<close> and \<open>avail_out\<close> are 32 bits wide.
\<close>

datatype z_status = Z_OK | Z_STREAM_END | Z_BUF_ERROR | Z_DATA_ERROR | Z_other

type_synonym 's inflater = "'s \<Rightarrow> nat \<Rightarrow> z_status \<times> string \<times> 's"

definition avail :: "nat \<Rightarrow> nat" where
  "avail n = n mod 2 ^ 32"

text \<open>The loop; \<open>out\<close> is what is in the buffer up to \<open>total_out\<close>, \<open>cap\<close> is the size of the buffer.\<close>

partial_function (option) gzip_loop ::
  "'s inflater \<Rightarrow> nat \<Rightarrow> nat \<Rightarrow> string \<Rightarrow> 's \<Rightarrow> (z_status \<times> string \<times> 's) option" where
  "gzip_loop inflate half_length cap out strm =
     (let cap' = (if length out \<ge> cap then cap + half_length else cap) in
      case inflate strm (avail (cap' - length out)) of
        (status, bytes, strm') \<Rightarrow>
          if status = Z_OK then gzip_loop inflate half_length cap' (out @ bytes) strm'
          else Some (status, out @ bytes, strm'))"

declare gzip_loop.simps [code]

text \<open>\<open>init\<close>: the result of \<open>inflateInit2\<close>; \<open>end_ok\<close>: whether \<open>inflateEnd\<close> gives \<open>Z_OK\<close>.\<close>

definition gzipInflate ::
  "(string \<Rightarrow> 's option) \<Rightarrow> 's inflater \<Rightarrow> ('s \<Rightarrow> bool) \<Rightarrow> string \<Rightarrow> string option option" where
  "gzipInflate init inflate end_ok compressed =
     (if compressed = [] then Some (Some [])
      else (case init (take (avail (length compressed)) compressed) of
              None \<Rightarrow> Some None
            | Some strm \<Rightarrow>
                (let half_length = length compressed div 2 in
                 map_option (\<lambda>(status, out, strm').
                     if \<not> end_ok strm' \<and> status \<noteq> Z_STREAM_END then None else Some out)
                   (gzip_loop inflate half_length (half_length * 3) [] strm))))"

lemma find_off_start:
  assumes "find_off d s 0 = Some pos" "s \<noteq> []"
  shows "pos < length s"
proof (cases "d = []")
  case True
  with assms show ?thesis by (cases s) auto
next
  case False
  with find_off_bound [OF assms(1)] show ?thesis by (cases d) auto
qed

section \<open>What the conditions wait for\<close>

text \<open>
  In whatever segments the bytes arrive, the handler is called exactly when the delimiter, or
  the number of bytes, is there, as the search starts again at the same place.
\<close>

lemma asyncRead_restart:
  assumes "\<And>s. \<not> snd (condition s) \<Longrightarrow> fst (condition s) = 0"
    and "\<And>s t. snd (condition s) \<Longrightarrow> snd (condition (s @ t))"
  shows "(asyncRead condition 0 buf segs = None \<longleftrightarrow> \<not> snd (condition (buf @ concat segs))) \<and>
    (\<forall>off buf' rest. asyncRead condition 0 buf segs = Some (off, buf', rest) \<longrightarrow>
      condition buf' = (off, True) \<and> buf' @ concat rest = buf @ concat segs)"
proof (induction segs arbitrary: buf)
  case Nil
  show ?case using assms(1) [of buf] by (subst (1 2) asyncRead.simps) (auto split: prod.splits bool.splits)
next
  case (Cons seg segs)
  show ?case
  proof (cases "snd (condition buf)")
    case True
    then obtain off where "condition buf = (off, True)" by (cases "condition buf") auto
    with assms(2) [OF True] show ?thesis by (subst (1 2) asyncRead.simps) auto
  next
    case False
    with assms(1) [OF this] have c: "condition buf = (0, False)" by (cases "condition buf") auto
    with Cons.IH [of "buf @ seg"] show ?thesis by (subst (1 2) asyncRead.simps) auto
  qed
qed

lemma contains_restart:
  "\<not> snd (contains_t d s) \<Longrightarrow> fst (contains_t d s) = 0" "snd (contains_t d s) \<Longrightarrow> snd (contains_t d (s @ t))"
  using find_off_extend [of d s 0 _ t] by (auto simp: contains_t_def split: option.splits if_splits)

lemma exactly_restart:
  "\<not> snd (exactly_t n s) \<Longrightarrow> fst (exactly_t n s) = 0" "snd (exactly_t n s) \<Longrightarrow> snd (exactly_t n (s @ t))"
  by (auto simp: exactly_t_def Let_def split: if_splits)

text \<open>
  (C39) In whatever segments the bytes arrive, an asynchronous read with the condition
  contains_t or exactly_t calls its handler exactly when there are bytes and the whole stream
  has the delimiter, or has the number of bytes, so that the blocking read in the handler
  finds them.
\<close>

theorem conditions_met:
  "(asyncRead (contains_t d) 0 buf segs = None \<longleftrightarrow> buf @ concat segs = [] \<or> read_until d (buf @ concat segs) = None) \<and>
   (asyncRead (exactly_t n) 0 buf segs = None \<longleftrightarrow> read_bytes n (buf @ concat segs) = None)"
proof -
  have "\<not> snd (contains_t d s) \<longleftrightarrow> s = [] \<or> read_until d s = None" for s
    using find_off_start [of d s] by (auto simp: contains_t_def read_until_def split: option.splits)
  note c = this
  have e: "\<not> snd (exactly_t n s) \<longleftrightarrow> read_bytes n s = None" for s
    by (auto simp: exactly_t_def read_bytes_def Let_def)
  have "asyncRead (contains_t d) 0 buf segs = None \<longleftrightarrow> \<not> snd (contains_t d (buf @ concat segs))"
    using asyncRead_restart [where condition = "contains_t d", OF contains_restart] by blast
  moreover have "asyncRead (exactly_t n) 0 buf segs = None \<longleftrightarrow> \<not> snd (exactly_t n (buf @ concat segs))"
    using asyncRead_restart [where condition = "exactly_t n", OF exactly_restart] by blast
  ultimately show ?thesis by (simp only: c e simp_thms)
qed

text \<open>The handler finds what it waited for in the buffer, so the blocking read in it does not wait.\<close>

theorem handler_reads_buffer:
  assumes "asyncRead (contains_t d) 0 buf segs = Some (off, buf', rest)" "d \<noteq> []"
  shows "\<exists>resp left. read_until d buf' = Some (resp, left) \<and> length resp = off \<and>
    sync_read_until d res arrived buf' = Inr (off, resp, left) \<and> buf' @ concat rest = buf @ concat segs"
proof -
  have c: "contains_t d buf' = (off, True)" "buf' @ concat rest = buf @ concat segs"
    using asyncRead_restart [of "contains_t d" buf segs, OF contains_restart] assms(1) by blast+
  then have f: "find_off d buf' 0 = Some off" by (auto simp: contains_t_def split: option.splits if_splits)
  then have "buf' \<noteq> []" using assms(2) by auto
  moreover have "length (take off buf') = off" using find_off_bound [OF f] by simp
  ultimately show ?thesis using f c(2) by (simp add: read_until_def sync_read_until_def)
qed

section \<open>Unpacking ends\<close>

text \<open>
  What zlib documents of \<open>inflate\<close>: it writes no more than there is room for. \<open>Z_OK\<close> is progress,
  so something of the stream gets less (\<open>rank\<close>). With room in the buffer any other status, the
  end, an error in the data or no more input, is reported when all that can be unpacked before
  it has been written; \<open>unpack\<close> is the text that can still be unpacked.
\<close>

definition zlib_stream :: "'s inflater \<Rightarrow> ('s \<Rightarrow> nat) \<Rightarrow> ('s \<Rightarrow> string) \<Rightarrow> bool" where
  "zlib_stream inflate rank unpack \<longleftrightarrow>
     (\<forall>s n status b s'. inflate s n = (status, b, s') \<longrightarrow>
        unpack s = b @ unpack s' \<and> length b \<le> n \<and> (status = Z_OK \<longrightarrow> rank s' < rank s) \<and>
        (status \<noteq> Z_OK \<and> 0 < n \<longrightarrow> unpack s' = []))"

lemma zlib_streamD:
  assumes "zlib_stream inflate rank unpack" "inflate s n = (status, b, s')"
  shows "unpack s = b @ unpack s'" "length b \<le> n" "status = Z_OK \<Longrightarrow> rank s' < rank s"
    "status \<noteq> Z_OK \<Longrightarrow> 0 < n \<Longrightarrow> unpack s' = []"
  using assms by (simp_all add: zlib_stream_def)

text \<open>There is room in each round, as a full buffer grows, and the room fits into \<open>avail_out\<close>.\<close>

lemma gzip_loop_ends:
  assumes "zlib_stream inflate rank unpack" "0 < h" "3 * h < 2 ^ 32"
    and "length out \<le> cap" "cap \<le> length out + 3 * h"
  shows "\<exists>status strm'. gzip_loop inflate h cap out strm = Some (status, out @ unpack strm, strm')"
  using assms(4,5)
proof (induction "rank strm" arbitrary: cap out strm rule: less_induct)
  case less
  let ?cap = "if length out \<ge> cap then cap + h else cap"
  have room: "0 < ?cap - length out" "?cap \<le> length out + 3 * h" using assms(2) less.prems by auto
  then have n: "avail (?cap - length out) = ?cap - length out" using assms(3) by (simp add: avail_def)
  obtain status b s' where i: "inflate strm (?cap - length out) = (status, b, s')" by (cases "inflate strm (?cap - length out)")
  note D = zlib_streamD [OF assms(1) i]
  show ?case
  proof (cases "status = Z_OK")
    case True
    have "length (out @ b) \<le> ?cap" "?cap \<le> length (out @ b) + 3 * h" using D(2) room by simp_all
    from less.hyps [OF D(3) [OF True] this] show ?thesis
      using D(1) i True n by (subst gzip_loop.simps) (simp add: Let_def)
  next
    case False
    with D(1) D(4) [OF False room(1)] i n show ?thesis by (subst gzip_loop.simps) (simp add: Let_def)
  qed
qed

text \<open>
  (C37) Unpacking ends and gives exactly the text that can be unpacked, as a success, also
  when the data is damaged or cut off after it, as long as inflateEnd succeeds: for every
  inflater that, as zlib documents, writes no more than there is room for, reports Z_OK only
  when it made progress, and reports anything else with room left only when it has written all
  there is; and for compressed data of two bytes or more whose length fits into the 32 bits of
  avail_out with the buffer half as long again.
\<close>

theorem gzip_never_fails:
  assumes "zlib_stream inflate rank unpack"
    and "2 \<le> length compressed" "3 * (length compressed div 2) < 2 ^ 32"
    and "init compressed = Some strm" "\<And>s. end_ok s"
  shows "gzipInflate init inflate end_ok compressed = Some (Some (unpack strm))"
proof -
  let ?h = "length compressed div 2"
  have "0 < ?h" "compressed \<noteq> []" using assms(2) by auto
  then obtain status strm' where "gzip_loop inflate ?h (?h * 3) [] strm = Some (status, unpack strm, strm')"
    using gzip_loop_ends [OF assms(1) _ assms(3), of "[]" "?h * 3" strm] by auto
  moreover have "take (avail (length compressed)) compressed = compressed" using assms(3) by (simp add: avail_def)
  ultimately show ?thesis using assms(4,5) \<open>compressed \<noteq> []\<close> by (simp add: gzipInflate_def Let_def)
qed

text \<open>An inflater whose text is followed by an error in the data; the buffer grows for it.\<close>

definition demo_inflate :: "string inflater" where
  "demo_inflate s n = (if s = [] then (Z_DATA_ERROR, [], []) else if n = 0 then (Z_BUF_ERROR, [], s) else (Z_OK, take n s, drop n s))"

lemma gzip_never_fails_witness:
  "gzipInflate (\<lambda>_. Some ''hello, world'') demo_inflate (\<lambda>_. True) ''packed'' = Some (Some ''hello, world'')"
  by (rule gzip_never_fails [of _ length "\<lambda>s. s"]) (auto simp: zlib_stream_def demo_inflate_def)

section \<open>The state of a connection\<close>

text \<open>\<open>isOpen\<close> after a \<open>makeConnected\<close> that failed.\<close>

theorem open_after_failed_connect:
  "fst (tcp_connect None (Inl ec) local c) = Some ''make connected failed: '' \<and>
   isOpen (Some True) (snd (tcp_connect None (Inl ec) local c)) \<and>
   \<not> isOpen is_open (tcp_close (snd (tcp_connect None (Inl ec) local c)))"
  by (simp add: tcp_connect_def tcp_makeConnected_def isOpen_def tcp_close_def)

theorem timeout_garbage: "read_timeout (-1) (new_tcp_client_ctx garbage) = garbage"
  by (simp add: read_timeout_def new_tcp_client_ctx_def)

end
