(* ===== verification/Start_Up.thy ===== *)
theory Start_Up
  imports Cli_Client Net_Connect "HOL-Library.Stream" "HOL-Library.Signed_Division"
begin

text \<open>
  What the two programs compute around their event loops: the options they check
  (\<open>client/src/main.cpp\<close>, \<open>server/src/main.cpp\<close>), the choice of an io thread for a connection
  (\<open>Server::startAccept\<close>), the identifier of a session (\<open>generate_session_id\<close> in
  \<open>server/src/apiclient.cpp\<close> with \<open>gen_random\<close> of \<open>common/utils.cpp\<close>), and the clocks of
  \<open>utils.hpp\<close>. The results of \<open>rand\<close> are a stream of which each call takes the first element.
\<close>

section \<open>The options\<close>

text \<open>\<open>check_config_or_die\<close> of the client; \<open>False\<close> is \<open>exit(-1)\<close>.\<close>

definition check_server :: "string \<Rightarrow> bool" where
  "check_server server =
     (if server = [] then False
      else
        let ip_parts = the (split server '':'')
        in if length ip_parts \<noteq> 2 then False
           else (case stoi (ip_parts ! 1) of Inl _ \<Rightarrow> False | Inr _ \<Rightarrow> True))"

text \<open>The client that \<open>main\<close> starts; a failed \<open>stoi\<close> is caught and only logged.\<close>

definition client_main :: "string \<Rightarrow> string \<Rightarrow> string \<Rightarrow> client option" where
  "client_main server user pass =
     (if \<not> check_server server then None
      else
        let ip_parts = the (split server '':'')
        in case stoi (ip_parts ! 1) of
             Inl _ \<Rightarrow> None
           | Inr port \<Rightarrow> Some (new_client (ip_parts ! 0) port user pass))"

definition check_sert :: "string \<Rightarrow> bool" where
  "check_sert sert \<longleftrightarrow> sert \<noteq> []"

section \<open>Accepting connections\<close>

text \<open>
  \<open>rand_r(&seedp) % m_IoThreads.size()\<close>; \<open>None\<close> is the division by zero. \<open>Server::run\<close> starts
  one thread for each \<open>i\<close> below the pool size, an \<open>int\<close> compared as \<open>size_t\<close>.
\<close>

definition io_threads :: "int \<Rightarrow> nat" where
  "io_threads pool = unat (word_of_int pool :: u64)"

definition pick_thread :: "nat \<Rightarrow> nat \<Rightarrow> nat option" where
  "pick_thread threads r = (if threads = 0 then None else Some (r mod threads))"

text \<open>The handler of \<open>async_accept\<close>: whether it serves the connection. It accepts again in any case.\<close>

definition accepted :: "net_error option \<Rightarrow> net_error option \<Rightarrow> bool" where
  "accepted e tmp \<longleftrightarrow> e = None \<and> tmp = None"

section \<open>Random strings\<close>

definition alphanum :: string where
  "alphanum = ''0123456789ABCDEFGHIJKLMNOPQRSTUVWXYZabcdefghijklmnopqrstuvwxyz''"

definition gen_random :: "nat \<Rightarrow> nat stream \<Rightarrow> string \<times> nat stream" where
  "gen_random len rs = (map (\<lambda>r. alphanum ! (r mod 62)) (stake len rs), sdrop len rs)"

definition isalpha :: "char \<Rightarrow> bool" where
  "isalpha c \<longleftrightarrow> isupper c \<or> islower c"

definition toupper :: "char \<Rightarrow> char" where
  "toupper c = (if islower c then char_of (code c - 32) else c)"

fun random_case :: "string \<Rightarrow> nat stream \<Rightarrow> string \<times> nat stream" where
  "random_case [] rs = ([], rs)"
| "random_case (c # cs) rs =
     (case random_case cs (stl rs) of
        (s, rs') \<Rightarrow> ((if shd rs mod 2 \<noteq> 0 \<and> isalpha c then toupper c else c) # s, rs'))"

text \<open>\<open>std::hex\<close> prints the checksum, an \<open>int\<close>, as an unsigned number.\<close>

definition generate_session_id ::
  "(string \<Rightarrow> u32) \<Rightarrow> string \<Rightarrow> string \<Rightarrow> int \<Rightarrow> nat stream \<Rightarrow> string \<times> nat stream" where
  "generate_session_id crc thread_id local_addr clock rs =
     (case gen_random 10 rs of
        (salt, rs1) \<Rightarrow>
          (case random_case (show_hex (unat (crc (thread_id @ local_addr @ show_int clock @ salt)))) rs1 of
             (hex_str, rs2) \<Rightarrow>
               (case gen_random 2 rs2 of (tail, rs3) \<Rightarrow> (hex_str @ tail, rs3))))"

section \<open>Clocks\<close>

record mtime_t =
  mt_sec :: nat
  mt_msec :: nat

definition time_ms :: "nat \<Rightarrow> mtime_t" where
  "time_ms count = \<lparr>mt_sec = count div 1000, mt_msec = count mod 1000\<rparr>"

definition show_mtime :: "mtime_t \<Rightarrow> string" where
  "show_mtime t = show_nat (mt_sec t) @ ''.'' @ show_nat (mt_msec t)"

text \<open>\<open>PerfTimer\<close>; a reading of \<open>gettimeofday\<close> is a pair of seconds and microseconds.\<close>

record perf_timer =
  pt_timer :: int
  pt_start :: "int \<times> int"

definition perf_reset :: "int \<times> int \<Rightarrow> perf_timer" where
  "perf_reset now = \<lparr>pt_timer = 0, pt_start = now\<rparr>"

definition perf_ms :: "int \<times> int \<Rightarrow> perf_timer \<Rightarrow> int \<times> perf_timer" where
  "perf_ms now t =
     (let t' = t\<lparr>pt_timer := pt_timer t + (fst now - fst (pt_start t)) * 1000000 + (snd now - snd (pt_start t))\<rparr>
      in (pt_timer t' sdiv 1000, t'))"

definition perf_sec :: "int \<times> int \<Rightarrow> perf_timer \<Rightarrow> int \<times> perf_timer" where
  "perf_sec now t =
     (let t' = t\<lparr>pt_timer := pt_timer t + (fst now - fst (pt_start t)) * 1000000 + (snd now - snd (pt_start t))\<rparr>
      in (pt_timer t' sdiv 1000000, t'))"

section \<open>The address of the server\<close>

lemma check_server_main: "check_server server \<longleftrightarrow> client_main server user pass \<noteq> None"
  by (auto simp: client_main_def check_server_def Let_def split: sum.splits)

lemma client_main_address:
  assumes "CHR '':'' \<notin> set host" "n < 2 ^ 31"
  shows "client_main (host @ '':'' @ show_nat n) user pass = Some (new_client host (int n) user pass)"
proof -
  have "CHR '':'' \<notin> set (show_nat n)" using show_nat_digits [of n] by (auto simp: isdigit_def)
  then have "split (join [host, show_nat n] '':'') '':'' = Some [host, show_nat n]"
    using assms(1) parts_of_join [of "[host, show_nat n]" "CHR '':''"] by (simp add: split_parts_of)
  then have "split (host @ '':'' @ show_nat n) '':'' = Some [host, show_nat n]" by (simp add: join_def)
  then show ?thesis using stoi_show_nat [OF assms(2)] by (simp add: client_main_def check_server_def)
qed

text \<open>No io thread, or one for every number below \<open>2 ^ 64\<close>.\<close>

lemma io_workers_zero: "pick_thread (io_threads 0) r = None"
  by (simp add: pick_thread_def io_threads_def)

lemma io_workers_negative: "io_threads (- 1) = 2 ^ 64 - 1"
  by (simp add: io_threads_def unsigned_minus_1_eq_mask mask_eq_exp_minus_1)

lemma pick_thread_bound: "pick_thread n r = Some i \<Longrightarrow> i < n"
  by (auto simp: pick_thread_def split: if_splits)

section \<open>The identifier of a session\<close>

definition isalnum :: "char \<Rightarrow> bool" where
  "isalnum c \<longleftrightarrow> isalpha c \<or> isdigit c"

lemma alphanum_isalnum: "list_all isalnum alphanum"
  by code_simp

lemma length_alphanum: "length alphanum = 62"
  by code_simp

lemma gen_random_alnum: "list_all isalnum (fst (gen_random n rs))" "length (fst (gen_random n rs)) = n"
  using alphanum_isalnum length_alphanum by (auto simp: gen_random_def list_all_iff)

lemma length_random_case: "length (fst (random_case s rs)) = length s"
  by (induction s rs rule: random_case.induct) (auto split: prod.splits)

lemma code_toupper: "islower c \<Longrightarrow> code (toupper c) = code c - 32"
  by (auto simp: toupper_def code_char_of islower_def)

lemma toupper_isalnum: "isalnum c \<Longrightarrow> isalnum (toupper c)"
  by (cases "islower c")
    (auto simp: isalnum_def isalpha_def isupper_def islower_def isdigit_def toupper_def code_char_of)

lemma random_case_alnum: "list_all isalnum s \<Longrightarrow> list_all isalnum (fst (random_case s rs))"
  by (induction s rs rule: random_case.induct) (auto simp: toupper_isalnum split: prod.splits)

lemma isxdigit_isalnum: "isxdigit c \<Longrightarrow> isalnum c"
  by (auto simp: isxdigit_def isalnum_def isalpha_def isupper_def islower_def)

lemma xdigit_val_toupper: "isxdigit c \<Longrightarrow> xdigit_val (toupper c) = xdigit_val c"
  by (cases "islower c")
    (auto simp: xdigit_val_def toupper_def isxdigit_def code_char_of islower_def isdigit_def)

lemma random_case_value:
  "list_all isxdigit s \<Longrightarrow> xdigits_val n (fst (random_case s rs)) = xdigits_val n s"
  by (induction s rs arbitrary: n rule: random_case.induct)
    (auto simp: xdigits_val_def xdigit_val_toupper split: prod.splits)

lemma length_show_hex: "n < 16 ^ Suc k \<Longrightarrow> length (show_hex n) \<le> Suc k"
proof (induction k arbitrary: n)
  case 0
  then show ?case by (subst show_hex.simps) simp
next
  case (Suc k)
  show ?case
  proof (cases "n < 16")
    case False
    have "n div 16 < 16 ^ Suc k" using Suc.prems by (simp add: div_less_iff_less_mult mult.commute)
    from Suc.IH [OF this] False show ?thesis by (subst show_hex.simps) simp
  qed (subst show_hex.simps, simp)
qed

text \<open>
  The identifier has three to ten letters and digits, and the letters and digits before the
  last two are the checksum, in capitals or not.
\<close>

theorem session_id_shape:
  "(case generate_session_id crc thread_id local_addr clock rs of (sid, _) \<Rightarrow>
     3 \<le> length sid \<and> length sid \<le> 10 \<and> list_all isalnum sid \<and>
     xdigits_val 0 (take (length sid - 2) sid) =
       unat (crc (thread_id @ local_addr @ show_int clock @ fst (gen_random 10 rs))))"
proof -
  let ?u = "unat (crc (thread_id @ local_addr @ show_int clock @ fst (gen_random 10 rs)))"
  obtain hex_str rs2 where hex: "random_case (show_hex ?u) (snd (gen_random 10 rs)) = (hex_str, rs2)" by fastforce
  obtain tail rs3 where tail: "gen_random 2 rs2 = (tail, rs3)" by fastforce
  have id: "generate_session_id crc thread_id local_addr clock rs = (hex_str @ tail, rs3)"
    using hex tail by (simp add: generate_session_id_def case_prod_unfold)
  have digits: "list_all isxdigit (show_hex ?u)" using show_hex_xdigits [of ?u] by (simp add: list_all_iff)
  have "length hex_str = length (show_hex ?u)" using length_random_case [of "show_hex ?u" "snd (gen_random 10 rs)"] hex by simp
  moreover have "length (show_hex ?u) \<le> Suc 7"
    by (rule length_show_hex) (use unsigned_less [of "crc (thread_id @ local_addr @ show_int clock @ fst (gen_random 10 rs))"] in simp)
  moreover have "1 \<le> length (show_hex ?u)" by (simp add: Suc_le_eq)
  moreover have "list_all isalnum hex_str"
    using random_case_alnum [of "show_hex ?u" "snd (gen_random 10 rs)"] digits isxdigit_isalnum hex
    by (auto simp: list_all_iff)
  moreover have "xdigits_val 0 hex_str = ?u"
    using random_case_value [OF digits, of 0 "snd (gen_random 10 rs)"] hex by (simp add: xdigits_val_show_hex)
  moreover have "length tail = 2" "list_all isalnum tail" using gen_random_alnum [where n = 2 and rs = rs2] tail by simp_all
  ultimately show ?thesis by (simp add: id)
qed

section \<open>Readings of the clocks\<close>

text \<open>\<open>PerfTimer\<close> adds the time since the start at every reading, so a second one counts it twice.\<close>

lemma perf_timer_twice:
  "fst (perf_ms t2 (snd (perf_ms t1 (perf_reset t0)))) =
     (((fst t1 - fst t0) * 1000000 + (snd t1 - snd t0)) + ((fst t2 - fst t0) * 1000000 + (snd t2 - snd t0))) sdiv 1000"
  by (simp add: perf_ms_def perf_reset_def algebra_simps)

lemma perf_timer_one_second: "fst (perf_ms (1, 0) (snd (perf_ms (1, 0) (perf_reset (0, 0))))) = 2000"
  by (simp add: perf_timer_twice)

text \<open>Milliseconds are printed without leading zeros.\<close>

lemma show_mtime_ambiguous: "show_mtime (time_ms 1005) = ''1.5''" "show_mtime (time_ms 1500) = ''1.500''"
  by code_simp+

end
