(* ===== verification/Cli_Overlap.thy ===== *)
theory Cli_Overlap
  imports Cli_Client Answers
begin

text \<open>
  Commands typed before the answer to the previous one: \<open>Client\<close> keeps one \<open>m_LastCmd\<close>, and
  an answer is read as the answer to the command typed last.
\<close>

lemma send_body_state:
  "send_body cmd api_cmd body k = Some (k', es) \<Longrightarrow> k' = k\<lparr>k_LastCmd := cmd\<rparr> \<and> (\<exists>req. es = [HttpRequest req])"
  by (auto simp: send_body_def sendRequest_def split: option.splits)

text \<open>A line changes the last command, the password and the mode, and nothing else.\<close>

lemma typed_state:
  assumes "onUserInput line k = Some (k', es)"
  shows "k' = k\<lparr>k_LastCmd := k_LastCmd k', k_Password := k_Password k', k_state_mode := k_state_mode k',
    k_state_user := k_state_user k'\<rparr>"
proof -
  have "onCommand args k = Some (k', es) \<Longrightarrow> ?thesis" for args
    by (cases "ar_cmd args") (auto simp: onCommand_def dest!: send_body_state)
  with assms show ?thesis by (auto simp: onUserInput_def Let_def dest!: send_body_state split: if_splits)
qed

text \<open>The other answers leave the account as it is and do not start the long poll.\<close>

lemma other_answer:
  assumes "onHttpRead res k = Some (k', es)" "k_LastCmd k \<noteq> I_LOGIN"
  shows "k' = k \<and> IdleConnect \<notin> set es"
proof -
  obtain e reply where res: "res = (e, reply)" by fastforce
  have "IdleConnect \<notin> set es'" if "show_messages b = Some es'" for b es'
    using that by (auto simp: show_messages_def show_response_def split: option.splits if_splits)
  with assms show ?thesis
    by (auto simp: onHttpRead_def res split: if_splits option.splits input_cmd.splits)
qed

theorem login_answer_lost:
  assumes "onUserInput l1 k = Some (k1, es1)" "onUserInput l2 k1 = Some (k2, es2)" "k_LastCmd k2 \<noteq> I_LOGIN"
    and "h_status r = 200" "ok_body_user now u = Some (h_body r)"
  shows "\<exists>es. onHttpRead (None, r) k2 = Some (k2, es) \<and> k_SelfId k2 = k_SelfId k \<and> IdleConnect \<notin> set es"
proof -
  have parse: "parse_response_aswer (h_body r) no_response = Some (\<lparr>r_uid = user_id u, r_chatid = self_chat_id u,
      r_heartbit = heartbit u, r_server_ts = now\<rparr>, [])"
    using user_answer_read [of now u no_response] assms(5) by simp
  have "h_body r = serialize (JObject [(''id'', JInt (uint (user_id u))), (''chatid'', JInt (uint (self_chat_id u))),
      (''heartbit'', JInt (uint (heartbit u))), (''name'', JString (c_str (user_name u))), (''server_ts'', JInt (uint now))])"
    using assms(5) by (simp add: ok_body_user_text)
  then have "parse_msg_response (h_body r) [] = Some ([], ''bad message'')"
    by (simp add: parse_msg_response_def)
  then have "onHttpRead (None, r) k2 \<noteq> None"
    using assms(3,4) parse by (simp add: onHttpRead_def show_messages_def split: input_cmd.split)
  then obtain k' es where run: "onHttpRead (None, r) k2 = Some (k', es)" by auto
  moreover have "k_SelfId k2 = k_SelfId k1" "k_SelfId k1 = k_SelfId k"
    using arg_cong [OF typed_state [OF assms(1)], of k_SelfId] arg_cong [OF typed_state [OF assms(2)], of k_SelfId] by simp_all
  ultimately show ?thesis using other_answer [OF run assms(3)] by auto
qed

text \<open>
  (C33) A console that sends another command before the login reads the answer of that command
  as the answer to the login: after the answer to a message it takes user id 0, starts the
  connection for the long poll, and asks there for the messages of user 0.
\<close>

theorem answer_taken_for_login:
  assumes "onUserInput l1 k = Some (k1, es1)" "onUserInput l2 k1 = Some (k2, es2)" "k_LastCmd k2 = I_LOGIN"
    and "h_status r = 200" "h_body r = status_ok" "\<not> k_IdleOpen k"
  shows "\<exists>k3 b. onHttpRead (None, r) k2 = Some (k3, [CancelTimeout, ShowLine ''200 OK'', IdleConnect]) \<and> k_SelfId k3 = 0 \<and>
    onHttpIdleConnect None (makeConnected k3) = Some (makeConnected k3,
      [IdleRequest (build_request (cmd2string IDLE) ''application/json'' b)]) \<and>
    (c_str (k_Password k2) \<noteq> [] \<longrightarrow> parse_meta n p b IDLE = Some (p\<lparr>p_password := c_str (k_Password k2), p_uid := 0\<rparr>, []))"
proof -
  have "Parse status_ok = Inr (JObject [(''status'', JInt 0)])" by (rule Parse_status_ok)
  then have "parse_response_aswer (h_body r) no_response = Some (no_response, [])"
    using assms(5) by (simp add: parse_response_aswer_def uint64_or_def no_response_def)
  moreover have "\<not> k_IdleOpen k2"
    using arg_cong [OF typed_state [OF assms(1)], of k_IdleOpen] arg_cong [OF typed_state [OF assms(2)], of k_IdleOpen] assms(6)
    by simp
  moreover obtain b where b: "build_user_send_msg_body 0 0 [] [] (k_Password k2) = Some b"
    by (simp add: build_user_send_msg_body_text)
  moreover have "c_str (k_Password k2) \<noteq> [] \<Longrightarrow> parse_meta n p b IDLE = Some (p\<lparr>p_password := c_str (k_Password k2), p_uid := 0\<rparr>, [])"
    using idle_request_read [of 0 "k_Password k2" 0 "[]" "[]" n p] b by simp
  ultimately show ?thesis
    using assms(3,4)
    by (intro exI [of _ "k2\<lparr>k_SelfId := 0, k_SelfChatId := 0, k_HeartBit := 0\<rparr>"] exI [of _ b])
      (simp add: onHttpRead_def onHttpIdleConnect_def makeConnected_def no_response_def)
qed

section \<open>Witnesses\<close>

definition demo_fresh :: client where
  "demo_fresh = new_client ''localhost'' 7788 [] []"

lemma demo_lines:
  "ar_cmd (parse_input ''status bob'') = I_STATUS_USER" "ar_cmd (parse_input ''login alice secret12'') = I_LOGIN"
  "ar_login_pass (parse_input ''login alice secret12'') = ''secret12''"
  by code_simp+

lemma demo_typed:
  "\<exists>es. onUserInput ''status bob'' (demo_fresh\<lparr>k_LastCmd := c, k_Password := pw\<rparr>) =
    Some (demo_fresh\<lparr>k_LastCmd := I_STATUS_USER, k_Password := pw\<rparr>, es)"
  "\<exists>es. onUserInput ''login alice secret12'' (demo_fresh\<lparr>k_LastCmd := c\<rparr>) =
    Some (demo_fresh\<lparr>k_LastCmd := I_LOGIN, k_Password := ''secret12''\<rparr>, es)"
  by (simp_all add: onUserInput_def onCommand_def demo_lines demo_fresh_def new_client_def send_body_def sendRequest_def
      build_user_history_msg_body_text build_user_pass_body_text)

lemma login_answer_lost_witness:
  "\<exists>k1 es1 k2 es2 b es. onUserInput ''login alice secret12'' demo_fresh = Some (k1, es1) \<and>
    onUserInput ''status bob'' k1 = Some (k2, es2) \<and> ok_body_user 9 (mk_user 3 4 ''alice'' ''p'' []) = Some b \<and>
    onHttpRead (None, demo_answer b) k2 = Some (k2, es) \<and> k_SelfId k2 = 0 \<and> IdleConnect \<notin> set es"
proof -
  obtain es1 where 1: "onUserInput ''login alice secret12'' demo_fresh =
      Some (demo_fresh\<lparr>k_LastCmd := I_LOGIN, k_Password := ''secret12''\<rparr>, es1)"
    using demo_typed(2) [of "k_LastCmd demo_fresh"] by auto
  obtain es2 where 2: "onUserInput ''status bob'' (demo_fresh\<lparr>k_LastCmd := I_LOGIN, k_Password := ''secret12''\<rparr>) =
      Some (demo_fresh\<lparr>k_LastCmd := I_STATUS_USER, k_Password := ''secret12''\<rparr>, es2)"
    using demo_typed(1) by blast
  obtain b where b: "ok_body_user 9 (mk_user 3 4 ''alice'' ''p'' []) = Some b" by (simp add: ok_body_user_text)
  from login_answer_lost [OF 1 2 _ _ , of "demo_answer b" 9 "mk_user 3 4 ''alice'' ''p'' []"] b 1 2 show ?thesis
    by (fastforce simp: demo_fresh_def new_client_def)
qed

lemma answer_taken_for_login_witness:
  "\<exists>k1 es1 k2 es2 k3 b. onUserInput ''status bob'' (demo_fresh\<lparr>k_LastCmd := I_NONE, k_Password := ''x''\<rparr>) = Some (k1, es1) \<and>
    onUserInput ''login alice secret12'' k1 = Some (k2, es2) \<and>
    onHttpRead (None, demo_answer status_ok) k2 = Some (k3, [CancelTimeout, ShowLine ''200 OK'', IdleConnect]) \<and>
    k_SelfId k3 = 0 \<and> parse_meta (-1) no_params b IDLE = Some (no_params\<lparr>p_password := ''secret12'', p_uid := 0\<rparr>, [])"
proof -
  let ?k = "demo_fresh\<lparr>k_LastCmd := I_NONE, k_Password := ''x''\<rparr>"
  obtain es1 where 1: "onUserInput ''status bob'' ?k = Some (demo_fresh\<lparr>k_LastCmd := I_STATUS_USER, k_Password := ''x''\<rparr>, es1)"
    using demo_typed(1) by blast
  obtain k2 es2 where 2: "onUserInput ''login alice secret12'' (demo_fresh\<lparr>k_LastCmd := I_STATUS_USER, k_Password := ''x''\<rparr>) =
      Some (k2, es2)" "k_LastCmd k2 = I_LOGIN" "k_Password k2 = ''secret12''"
    by (simp add: onUserInput_def onCommand_def demo_lines demo_fresh_def new_client_def send_body_def sendRequest_def
      build_user_pass_body_text)
  have "c_str ''secret12'' = ''secret12''" by (simp add: c_str_def NUL_Char)
  with answer_taken_for_login [OF 1 2(1,2), of "demo_answer status_ok" "-1" no_params] 1 2 show ?thesis
    by (fastforce simp: demo_fresh_def new_client_def)
qed

end
