(* ===== verification/Cli_Lifecycle.thy ===== *)
theory Cli_Lifecycle
  imports Lifecycle Net_Client Start_Up Cli_Overlap
begin

text \<open>
  Start and stop of the client: \<open>main\<close> (\<open>client/src/main.cpp\<close>), \<open>Client::run\<close>, its timer and
  \<open>handleStop\<close> (\<open>client.cpp\<close>), and the threads of the console (\<open>ui.cpp\<close>) and of the events worker
  (\<open>event_worker.cpp\<close>). What the events do to the account is in \<open>Cli_Client\<close>.
\<close>

section \<open>The program\<close>

text \<open>
  The options, as they are parsed; the exit code, and the client that is constructed. Its \<open>run\<close> is
  called next.
\<close>

record client_options =
  co_help :: bool
  co_server :: string
  co_user :: string
  co_password :: string

definition client_program :: "client_options option \<Rightarrow> int \<times> client option" where
  "client_program opt =
     (case opt of
        None \<Rightarrow> (-1, None)
      | Some opt \<Rightarrow>
          if co_help opt then (0, None)
          else if \<not> check_server (co_server opt) then (-1, None)
          else (0, client_main (co_server opt) (co_user opt) (co_password opt)))"

definition createConnect :: "bool \<Rightarrow> tcp_client" where
  "createConnect use_ssl = (if use_ssl then new_tcp_client True 10 else new_tcp_client False 10)"

text \<open>Without a message for the user a client is started exactly when the address can be used.\<close>

theorem client_program_starts:
  "snd (client_program (Some opt)) \<noteq> None \<longleftrightarrow> \<not> co_help opt \<and> check_server (co_server opt)"
  by (auto simp: client_program_def check_server_main [of _ "co_user opt" "co_password opt"])

section \<open>The threads\<close>

text \<open>The statements of \<open>Client::run\<close>, and the thread of the console: before its loop condition or in \<open>getline\<close>.\<close>

datatype client_location = C_worker | C_ui | C_connect | C_timer | C_io | C_join_ui | C_join_worker | C_join_io | C_done

datatype console = Console_off | Console_checks | Console_reads | Console_ended

record client_life =
  cl_pc :: client_location
  cl_need_stop :: bool
  cl_io :: io_thread
  cl_console :: console
  cl_queue :: "ui_event lock_queue"
  cl_workers :: "thread_state list"
  cl_connecting :: bool
  cl_timer :: "handler option"
  cl_timed_out :: bool
  cl_cancels :: nat

definition client_start :: client_life where
  "client_start = \<lparr>cl_pc = C_worker, cl_need_stop = False, cl_io = new_io_thread, cl_console = Console_off,
     cl_queue = \<lparr>m_Queue = []\<rparr>, cl_workers = [], cl_connecting = False, cl_timer = None, cl_timed_out = False, cl_cancels = 0\<rparr>"

definition client_handleStop :: "client_life \<Rightarrow> client_life" where
  "client_handleStop z = z\<lparr>cl_need_stop := True, cl_io := io_stop (cl_io z)\<rparr>"

text \<open>The handler of the timer; \<open>cl_cancels\<close> counts the calls of \<open>m_Http->cancel\<close>.\<close>

definition client_timeout :: "net_error option \<Rightarrow> client_life \<Rightarrow> client_life" where
  "client_timeout ec z = (if ec = None then z\<lparr>cl_timed_out := True, cl_cancels := cl_cancels z + 1\<rparr> else z)"

text \<open>\<open>run\<close> and \<open>join\<close> of the events worker and of the console: whether \<open>join\<close> returns.\<close>

definition events_run :: "nat \<Rightarrow> thread_state list" where
  "events_run workers = replicate workers Running"

definition events_join :: "thread_state list \<Rightarrow> bool" where
  "events_join threads \<longleftrightarrow> Running \<notin> set threads"

definition console_run :: console where
  "console_run = Console_checks"

definition console_join :: "console \<Rightarrow> bool" where
  "console_join c \<longleftrightarrow> c \<in> {Console_off, Console_ended}"

text \<open>One statement of \<open>run\<close>; \<open>None\<close>: it waits, or \<open>run\<close> has returned.\<close>

definition client_statement :: "client_life \<Rightarrow> client_life option" where
  "client_statement z =
     (case cl_pc z of
        C_worker \<Rightarrow> Some (z\<lparr>cl_workers := events_run 1, cl_pc := C_ui\<rparr>)
      | C_ui \<Rightarrow> Some (z\<lparr>cl_console := console_run, cl_pc := C_connect\<rparr>)
      | C_connect \<Rightarrow> Some (z\<lparr>cl_connecting := True, cl_pc := C_timer\<rparr>)
      | C_timer \<Rightarrow> Some (z\<lparr>cl_timer := Some Pending, cl_pc := C_io\<rparr>)
      | C_io \<Rightarrow> Some (z\<lparr>cl_io := io_start (cl_io z), cl_pc := C_join_ui\<rparr>)
      | C_join_ui \<Rightarrow> if console_join (cl_console z) then Some (z\<lparr>cl_pc := C_join_worker\<rparr>) else None
      | C_join_worker \<Rightarrow> if events_join (cl_workers z) then Some (z\<lparr>cl_pc := C_join_io\<rparr>) else None
      | C_join_io \<Rightarrow> if io_joins (cl_io z) then Some (z\<lparr>cl_pc := C_done\<rparr>) else None
      | C_done \<Rightarrow> None)"

text \<open>
  The steps of the process, with the line that is typed, if any. The worker takes an event in a
  round that it has begun, also after the flag is set. \<open>onHttpRead\<close> and a failed write cancel the timer.
\<close>

inductive client_step :: "client_life \<Rightarrow> string list \<Rightarrow> client_life \<Rightarrow> bool" where
  statement: "client_step z [] z'" if "client_statement z = Some z'"
| console_checks: "client_step z [] (z\<lparr>cl_console := if cl_need_stop z then Console_ended else Console_reads\<rparr>)"
    if "cl_console z = Console_checks"
| line: "client_step z [l] (z\<lparr>cl_console := Console_checks, cl_queue := pollingUserInput l (cl_queue z)\<rparr>)"
    if "cl_console z = Console_reads"
| worker_takes: "client_step z [] (z\<lparr>cl_queue := q\<rparr>)"
    if "Running \<in> set (cl_workers z)" "getTask (cl_queue z) = Some (e, q)"
| worker_ends: "client_step z [] (z\<lparr>cl_workers := (cl_workers z)[i := Ended]\<rparr>)"
    if "cl_need_stop z" "i < length (cl_workers z)" "cl_workers z ! i = Running"
| io_ends: "client_step z [] (z\<lparr>cl_io := (cl_io z)\<lparr>it_thread := Ended\<rparr>\<rparr>)"
    if "it_stopped (cl_io z)" "it_thread (cl_io z) = Running"
| timer_expires: "client_step z [] (z\<lparr>cl_timer := Some (Queued None 0)\<rparr>)" if "cl_timer z = Some Pending"
| timer_cancelled: "client_step z [] (z\<lparr>cl_timer := Some (cancelled Pending)\<rparr>)"
    if "cl_timer z = Some Pending" "it_thread (cl_io z) = Running"
| timer_handler: "client_step z [] (client_timeout ec (z\<lparr>cl_timer := Some Ran\<rparr>))"
    if "cl_timer z = Some (Queued ec n)" "it_thread (cl_io z) = Running"

inductive client_run :: "client_life \<Rightarrow> string list \<Rightarrow> client_life \<Rightarrow> bool" for z where
  start: "client_run z [] z"
| step: "client_run z (ls @ ls') z''" if "client_run z ls z'" "client_step z' ls' z''"

section \<open>The client does not stop\<close>

lemmas life_defs = events_run_def events_join_def console_run_def console_join_def client_statement_def client_timeout_def client_handleStop_def

text \<open>
  No event calls \<open>handleStop\<close>: the flag is never set, the console reads for ever, and \<open>run\<close>
  does not return, whatever is typed and whatever the scheduler does.
\<close>

definition serving :: "client_life \<Rightarrow> bool" where
  "serving z \<longleftrightarrow> \<not> cl_need_stop z \<and> cl_console z \<noteq> Console_ended \<and> cl_pc z \<notin> {C_join_worker, C_join_io, C_done} \<and>
     (cl_console z = Console_off \<longrightarrow> cl_pc z \<in> {C_worker, C_ui})"

lemma serving_step: "client_step z ls z' \<Longrightarrow> serving z \<Longrightarrow> serving z'"
  by (induction rule: client_step.induct) (auto simp: serving_def life_defs split: client_location.splits if_splits)

theorem client_never_stops:
  "client_run client_start ls z \<Longrightarrow> \<not> cl_need_stop z \<and> cl_console z \<noteq> Console_ended \<and> cl_pc z \<noteq> C_done"
proof -
  assume "client_run client_start ls z"
  then have "serving z"
  proof (induction rule: client_run.induct)
    case start
    show ?case by (simp add: serving_def client_start_def)
  next
    case (step ls z ls' z')
    then show ?case using serving_step by blast
  qed
  then show ?thesis by (auto simp: serving_def)
qed

section \<open>What a stop would do\<close>

text \<open>With \<open>handleStop\<close> called while the console is in \<open>getline\<close>, \<open>run\<close> waits for another line.\<close>

definition reading :: "client_life \<Rightarrow> bool" where
  "reading z \<longleftrightarrow> cl_console z = Console_reads \<and> cl_pc z \<notin> {C_worker, C_ui, C_join_worker, C_join_io, C_done}"

lemma reading_step: "client_step z ls z' \<Longrightarrow> ls = [] \<Longrightarrow> reading z \<Longrightarrow> reading z'"
  by (induction rule: client_step.induct) (auto simp: reading_def life_defs split: client_location.splits if_splits)

theorem stop_waits_for_line:
  assumes "client_run (client_handleStop z) ls z'" "ls = []" "cl_console z = Console_reads" "cl_pc z \<in> {C_connect, C_timer, C_io, C_join_ui}"
  shows "cl_console z' = Console_reads \<and> cl_pc z' \<noteq> C_done"
proof -
  from assms(1,2) have "reading z'"
  proof (induction rule: client_run.induct)
    case start
    show ?case using assms(3,4) by (auto simp: reading_def client_handleStop_def)
  next
    case (step ls z ls' z')
    then show ?case using reading_step by blast
  qed
  then show ?thesis by (auto simp: reading_def)
qed

text \<open>
  A stop that comes after the io thread was started ends the client, with at most one more line:
  some step is possible until run returns, and every step lowers a measure.
\<close>

definition io_started :: "client_life \<Rightarrow> bool" where
  "io_started z \<longleftrightarrow> cl_pc z \<in> {C_join_ui, C_join_worker, C_join_io, C_done} \<and> cl_console z \<noteq> Console_off \<and>
     it_thread (cl_io z) \<noteq> Not_started \<and> Not_started \<notin> set (cl_workers z)"

definition client_stopping :: "client_life \<Rightarrow> bool" where
  "client_stopping z \<longleftrightarrow> cl_need_stop z \<and> it_stopped (cl_io z) \<and> io_started z"

fun joins_left :: "client_location \<Rightarrow> nat" where
  "joins_left C_join_ui = 3"
| "joins_left C_join_worker = 2"
| "joins_left C_join_io = 1"
| "joins_left _ = 0"

fun console_left :: "console \<Rightarrow> nat" where
  "console_left Console_reads = 3"
| "console_left Console_checks = 1"
| "console_left _ = 0"

definition client_measure :: "client_life \<Rightarrow> nat" where
  "client_measure z = joins_left (cl_pc z) + console_left (cl_console z) + length (m_Queue (cl_queue z)) +
     count_list (cl_workers z) Running + (if it_thread (cl_io z) = Running then 1 else 0) +
     (case cl_timer z of None \<Rightarrow> 0 | Some h \<Rightarrow> handler_left h)"

lemma polling_length: "length (m_Queue (pollingUserInput l q)) \<le> Suc (length (m_Queue q))"
  by (simp add: pollingUserInput_def Let_def push_def)

lemma getTask_length: "getTask q = Some (e, q') \<Longrightarrow> length (m_Queue q') < length (m_Queue q)"
  by (auto simp: getTask_def split: list.splits)

lemma client_stopping_step:
  assumes "client_step z ls z'" "client_stopping z"
  shows "client_stopping z' \<and> client_measure z' < client_measure z"
  using assms(1)
proof cases
  case (line l)
  then show ?thesis using assms(2) polling_length [of l "cl_queue z"]
    by (auto simp: client_stopping_def io_started_def client_measure_def)
next
  case (worker_takes e q)
  then show ?thesis using assms(2) getTask_length [of "cl_queue z" e q]
    by (auto simp: client_stopping_def io_started_def client_measure_def)
next
  case (worker_ends i)
  then show ?thesis using assms(2) count_list_ended [of i "cl_workers z"] set_update_subset_insert [of "cl_workers z" i Ended]
    by (auto simp: client_stopping_def io_started_def client_measure_def)
qed (use assms(2) in \<open>auto simp: client_stopping_def io_started_def client_measure_def life_defs
       split: client_location.splits if_splits option.splits\<close>)

lemma client_stopping_moves:
  assumes "client_stopping z" "cl_pc z \<noteq> C_done"
  shows "\<exists>ls z'. client_step z ls z'"
proof (cases "client_statement z")
  case (Some z')
  then show ?thesis using client_step.statement by blast
next
  case None
  then consider "cl_pc z = C_join_ui" "cl_console z \<notin> {Console_off, Console_ended}" | "Running \<in> set (cl_workers z)" | "it_thread (cl_io z) = Running"
    using assms(2) by (auto simp: life_defs io_joins_def split: client_location.splits if_splits)
  then show ?thesis
  proof cases
    case 1
    then show ?thesis using assms(1) client_step.console_checks [of z] client_step.line [of z]
      by (cases "cl_console z") (auto simp: client_stopping_def io_started_def)
  next
    case 2
    then show ?thesis using assms(1) client_step.worker_ends [of z] by (auto simp: client_stopping_def in_set_conv_nth)
  next
    case 3
    then show ?thesis using assms(1) client_step.io_ends [of z] by (auto simp: client_stopping_def)
  qed
qed

lemma client_stopping_run: "client_run z ls z' \<Longrightarrow> client_stopping z \<Longrightarrow> client_stopping z'"
proof (induction rule: client_run.induct)
  case (step ls z' ls' z'')
  then show ?case using client_stopping_step by blast
qed

definition client_inv :: "client_life \<Rightarrow> bool" where
  "client_inv z \<longleftrightarrow> cl_pc z \<in> {C_worker, C_ui, C_connect, C_timer, C_io} \<or> io_started z"

definition client_inv_early :: "client_life \<Rightarrow> bool" where
  "client_inv_early z \<longleftrightarrow> Not_started \<notin> set (cl_workers z) \<and> (cl_pc z \<in> {C_connect, C_timer, C_io} \<longrightarrow> cl_console z \<noteq> Console_off)"

lemma client_inv_step:
  "client_step z ls z' \<Longrightarrow> client_inv z \<and> client_inv_early z \<Longrightarrow> client_inv z' \<and> client_inv_early z'"
proof (induction rule: client_step.induct)
  case (worker_ends z i)
  then show ?case using set_update_subset_insert [of "cl_workers z" i Ended]
    by (auto simp: client_inv_def client_inv_early_def io_started_def)
qed (auto simp: client_inv_def client_inv_early_def io_started_def life_defs split: client_location.splits if_splits)

lemma client_run_inv: "client_run client_start ls z \<Longrightarrow> client_inv z \<and> client_inv_early z"
proof (induction rule: client_run.induct)
  case start
  show ?case by (simp add: client_inv_def client_inv_early_def client_start_def)
next
  case (step ls z ls' z')
  then show ?case using client_inv_step by blast
qed

theorem client_stop_ends:
  assumes "client_run client_start ls z" "cl_pc z = C_join_ui" "client_run (client_handleStop z) ls' z'"
  shows "(cl_pc z' \<noteq> C_done \<longrightarrow> (\<exists>ls'' z''. client_step z' ls'' z'')) \<and>
    (\<forall>ls'' z''. client_step z' ls'' z'' \<longrightarrow> client_measure z'' < client_measure z')"
proof -
  have "client_stopping (client_handleStop z)"
    using client_run_inv [OF assms(1)] assms(2) by (simp add: client_inv_def client_stopping_def io_started_def client_handleStop_def)
  from client_stopping_run [OF assms(3) this] show ?thesis using client_stopping_moves client_stopping_step by blast
qed

section \<open>The timer\<close>

text \<open>
  The timer is started once and cancelled by the first answer. When it expires before, the
  operation on the command connection is cancelled, once: this is the handler of a typed login
  that waits for its answer.
\<close>

theorem timeout_once:
  "client_run client_start ls z \<Longrightarrow> cl_cancels z = (if cl_timed_out z then 1 else 0)"
proof -
  assume "client_run client_start ls z"
  then have "cl_cancels z = (if cl_timed_out z then 1 else 0) \<and> (cl_timed_out z \<longrightarrow> cl_timer z = Some Ran) \<and>
    (cl_pc z \<in> {C_worker, C_ui, C_connect, C_timer} \<longrightarrow> cl_timer z = None)"
  proof (induction rule: client_run.induct)
    case start
    show ?case by (simp add: client_start_def)
  next
    case (step ls z ls' z')
    from step.hyps(2) step.IH show ?case
      by (induction rule: client_step.induct) (auto simp: life_defs split: client_location.splits if_splits)
  qed
  then show ?thesis by simp
qed

text \<open>
  A login that was typed is not sent again on the new connection, unless user and password were
  given as options: the user sees that he is connected and is not logged in.
\<close>

theorem login_cancelled:
  assumes "onUserInput l k = Some (k', es)" "k_User k = []" "e \<noteq> None"
  shows "onHttpRead (e, r) k' = Some (k', [CancelTimeout, NewHttp, HttpConnect]) \<and>
    (\<exists>s. onHttpConnect None k' = Some (k', [ShowLine s])) \<and> k_SelfId k' = k_SelfId k"
proof -
  have "k_User k' = []" "k_SelfId k' = k_SelfId k"
    using arg_cong [OF typed_state [OF assms(1)], of k_User] arg_cong [OF typed_state [OF assms(1)], of k_SelfId] assms(2)
    by simp_all
  with assms(3) show ?thesis by (auto simp: onHttpRead_def onHttpConnect_def Let_def)
qed

end
