(* ===== verification/Sys_Utils.thy ===== *)
theory Sys_Utils
  imports Start_Up
begin

text \<open>
  The helpers of \<open>common/utils.cpp\<close> and \<open>common/sysutils.cpp\<close> around system calls, and \<open>main\<close> of
  the server. What the system answers is an argument: an open file is its content, a failed
  call \<open>None\<close> or \<open>False\<close>. The result of a function that throws is a sum with the message.
\<close>

section \<open>Files\<close>

definition file_exist :: "string option \<Rightarrow> bool" where
  "file_exist opened = (case opened of None \<Rightarrow> False | Some _ \<Rightarrow> True)"

definition read_file :: "(string \<Rightarrow> string option) \<Rightarrow> string \<Rightarrow> string \<Rightarrow> string + string" where
  "read_file opened errno path =
     (if path = [] then Inl ''path is empty''
      else case opened path of
             None \<Rightarrow> Inl (''cannot open file: '' @ path @ '', errno: '' @ errno)
           | Some content \<Rightarrow> Inr content)"

text \<open>The loop over \<open>readdir\<close>.\<close>

fun listdir_loop :: "string list \<Rightarrow> string list \<Rightarrow> string list" where
  "listdir_loop [] res = res"
| "listdir_loop (name # entries) res = listdir_loop entries (if name \<noteq> ''.'' \<and> name \<noteq> ''..'' then res @ [name] else res)"

definition listdir :: "(string \<Rightarrow> string list option) \<Rightarrow> string \<Rightarrow> string + string list" where
  "listdir opened path =
     (case opened path of
        None \<Rightarrow> Inl (c_str (path @ '': Failed to open directory''))
      | Some entries \<Rightarrow> Inr (listdir_loop entries []))"

definition file_mtime :: "(string \<Rightarrow> (int \<times> u64) option) \<Rightarrow> string \<Rightarrow> string + int" where
  "file_mtime stat name = (case stat name of None \<Rightarrow> Inl (''error gettings file stat: '' @ name) | Some (mtime, _) \<Rightarrow> Inr mtime)"

definition file_size :: "(string \<Rightarrow> (int \<times> u64) option) \<Rightarrow> string \<Rightarrow> string + u64" where
  "file_size stat name = (case stat name of None \<Rightarrow> Inl (''error gettings file stat: '' @ name) | Some (_, n) \<Rightarrow> Inr n)"

definition get_home_dir :: "string option \<Rightarrow> string" where
  "get_home_dir pw_dir = (case pw_dir of None \<Rightarrow> [] | Some d \<Rightarrow> d)"

definition my_hostname :: "string option \<Rightarrow> string \<Rightarrow> string + string" where
  "my_hostname host_name errno =
     (case host_name of
        Some (c # cs) \<Rightarrow> if c = NUL then Inl (''error get hostname: '' @ errno) else Inr (c_str (c # cs))
      | _ \<Rightarrow> Inl (''error get hostname: '' @ errno))"

section \<open>Base64\<close>

text \<open>\<open>encode\<close> stands for the iterators of Boost, which give one digit for each 6 bits begun.\<close>

definition to_base64 :: "(string \<Rightarrow> string) \<Rightarrow> string \<Rightarrow> string" where
  "to_base64 encode s = encode s @ replicate ((3 - length s mod 3) mod 3) (CHR ''='')"

section \<open>Owners\<close>

definition do_chown :: "(string \<Rightarrow> nat option) \<Rightarrow> (string \<Rightarrow> nat option) \<Rightarrow> (nat \<Rightarrow> nat \<Rightarrow> bool) \<Rightarrow> string \<Rightarrow> string \<Rightarrow> string + unit" where
  "do_chown getpwnam getgrnam chown user grp =
     (case getpwnam user of
        None \<Rightarrow> Inl ''Failed to get uid''
      | Some uid \<Rightarrow>
          (case getgrnam grp of
             None \<Rightarrow> Inl ''Failed to get gid''
           | Some gid \<Rightarrow> if chown uid gid then Inr () else Inl ''chown fail''))"

text \<open>The calls that give up the rights of root, and the calls made.\<close>

datatype syscall = Initgroups string nat | Setgid nat | Setegid nat | Setuid nat | Seteuid nat

fun run_calls :: "(syscall \<Rightarrow> bool) \<Rightarrow> (syscall \<times> string) list \<Rightarrow> syscall list \<times> (string + unit)" where
  "run_calls succeeds [] = ([], Inr ())"
| "run_calls succeeds ((call, err) # rest) =
     (if \<not> succeeds call then ([call], Inl err)
      else case run_calls succeeds rest of (calls, r) \<Rightarrow> (call # calls, r))"

definition change_process_privileges ::
  "(string \<Rightarrow> (nat \<times> nat) option) \<Rightarrow> (syscall \<Rightarrow> bool) \<Rightarrow> string \<Rightarrow> string \<Rightarrow> syscall list \<times> (string + unit)" where
  "change_process_privileges getpwnam succeeds errno user =
     (case getpwnam user of
        None \<Rightarrow> ([], Inl (''couldn't find user uid: '' @ user))
      | Some (uid, gid) \<Rightarrow>
          run_calls succeeds
            [(Initgroups user gid, ''couldn't change to: '' @ user @ '' (initgroups('' @ user @ '', '' @ show_nat gid @ '')): '' @ errno),
             (Setgid gid, ''couldn't change to: '' @ user @ '', setgid: '' @ errno),
             (Setegid gid, ''couldn't change to: '' @ user @ '', setegid: '' @ errno),
             (Setuid uid, ''couldn't change to: '' @ user @ '', setuid: '' @ errno),
             (Seteuid uid, ''couldn't change to: '' @ user @ '', seteuid: '' @ errno)])"

section \<open>The server program\<close>

definition drop_privileges :: "(string \<Rightarrow> syscall list \<times> (string + unit)) \<Rightarrow> string \<Rightarrow> syscall list \<times> (string + unit)" where
  "drop_privileges change run_as = (if run_as = [] then ([], Inr ()) else change run_as)"

text \<open>
  \<open>main\<close>: the options, as they are parsed, and whether the constructor of the server throws; the
  exit code, and the calls made before \<open>run\<close> if it is reached.
\<close>

record options =
  o_help :: bool
  o_sert :: string
  o_run_as :: string

definition server_main ::
  "(string \<Rightarrow> syscall list \<times> (string + unit)) \<Rightarrow> bool \<Rightarrow> options option \<Rightarrow> int \<times> syscall list option" where
  "server_main change listens opt =
     (case opt of
        None \<Rightarrow> (-1, None)
      | Some opt \<Rightarrow>
          if o_help opt then (0, None)
          else if \<not> check_sert (o_sert opt) then (-1, None)
          else if \<not> listens then (0, None)
          else (case drop_privileges change (o_run_as opt) of
                  (calls, Inl _) \<Rightarrow> (0, None)
                | (calls, Inr _) \<Rightarrow> (0, Some calls)))"

section \<open>Processes\<close>

text \<open>
  \<open>char name[1024]\<close> as a list of its bytes: \<open>snprintf\<close> writes the path and a zero byte over
  \<open>garbage\<close>. Reading it as a C string runs past the array when there is no zero byte: \<open>None\<close>.
\<close>

definition overwrite :: "string \<Rightarrow> string \<Rightarrow> string" where
  "overwrite bytes buf = bytes @ drop (length bytes) buf"

definition c_read :: "string \<Rightarrow> string option" where
  "c_read buf = (if NUL \<in> set buf then Some (c_str buf) else None)"

definition cmdline_path :: "int \<Rightarrow> string" where
  "cmdline_path pid = ''/proc/'' @ show_int pid @ ''/cmdline''"

definition process_name_by_pid :: "string \<Rightarrow> (string \<Rightarrow> string option) \<Rightarrow> int \<Rightarrow> string option" where
  "process_name_by_pid garbage opened pid =
     (let path = cmdline_path pid;
          name = overwrite (path @ [NUL]) garbage
      in c_read
           (case opened path of
              None \<Rightarrow> name
            | Some content \<Rightarrow>
                (let bytes = take 1024 content;
                     name = overwrite bytes name;
                     n = length bytes
                 in if 0 < n \<and> name ! (n - 1) = CHR 0x0A then name[n - 1 := NUL] else name)))"

definition contains_only_numbers :: "string \<Rightarrow> bool" where
  "contains_only_numbers item = list_all isdigit (c_str item)"

text \<open>
  The loop of \<open>processList\<close> over the entries of \<open>/proc\<close>: the name, whether it is a directory, and
  its command line if it can be opened. \<open>fscanf\<close> with \<open>%s\<close> skips blanks and reads up to the next
  blank, zero bytes included; \<open>None\<close>: it writes past \<open>char name[1024]\<close>. Process ids are in the range of
  \<open>int\<close>, so \<open>atoi\<close> gives their value.
\<close>

record proc_entry =
  pe_name :: string
  pe_dir :: bool
  pe_cmdline :: "string option"

definition scan_word :: "string \<Rightarrow> string" where
  "scan_word s = takeWhile (\<lambda>c. \<not> isspace c) (dropWhile isspace s)"

fun processList_loop :: "proc_entry list \<Rightarrow> (int \<times> string) list \<Rightarrow> (int \<times> string) list option" where
  "processList_loop [] ret = Some ret"
| "processList_loop (dir # dirs) ret =
     (if \<not> pe_dir dir \<or> \<not> contains_only_numbers (pe_name dir) then processList_loop dirs ret
      else (case pe_cmdline dir of
              None \<Rightarrow> processList_loop dirs ret
            | Some f \<Rightarrow>
                (let name = scan_word f
                 in if name = [] then processList_loop dirs ret
                    else if 1024 \<le> length name then None
                    else processList_loop dirs (ret @ [(int (digits_val 0 (c_str (pe_name dir))), c_str name)]))))"

definition processList :: "proc_entry list option \<Rightarrow> (int \<times> string) list option" where
  "processList dir_proc = (case dir_proc of None \<Rightarrow> Some [] | Some dirs \<Rightarrow> processList_loop dirs [])"

text \<open>The loop over \<open>fgets\<close>: what each call reads is appended up to its first zero byte.\<close>

definition execCmd :: "string list option \<Rightarrow> string + string" where
  "execCmd pipe = (case pipe of None \<Rightarrow> Inl ''popen() failed!'' | Some chunks \<Rightarrow> Inr (concat (map c_str chunks)))"

section \<open>Usage of the processor\<close>

text \<open>
  The counters are 64 bits wide, and sums and differences wrap. \<open>percent n d\<close> stands for the
  floating-point value of 100 times \<open>n\<close> divided by \<open>d\<close>.
\<close>

record pstat =
  ps_utime :: u64
  ps_cutime :: u64
  ps_stime :: u64
  ps_cstime :: u64
  ps_vsize :: u64
  ps_rss :: u64
  ps_cpu_total :: u64

definition calc_cpu_usage_pct :: "(u64 \<Rightarrow> u64 \<Rightarrow> 'd) \<Rightarrow> pstat \<Rightarrow> pstat \<Rightarrow> 'd \<times> 'd" where
  "calc_cpu_usage_pct percent cur_usage last_usage =
     (let total_time_diff = ps_cpu_total cur_usage - ps_cpu_total last_usage
      in (percent ((ps_utime cur_usage + ps_cutime cur_usage) - (ps_utime last_usage + ps_cutime last_usage)) total_time_diff,
          percent ((ps_stime cur_usage + ps_cstime cur_usage) - (ps_stime last_usage + ps_cstime last_usage)) total_time_diff))"

text \<open>The \<open>static\<close> variables of \<open>resourceUsage\<close>, and what a call returns: -1 or the figures.\<close>

record usage_state =
  us_inited :: bool
  us_processors :: int
  us_last :: pstat

definition no_usage :: usage_state where
  "no_usage = \<lparr>us_inited = False, us_processors = 0, us_last = \<lparr>ps_utime = 0, ps_cutime = 0, ps_stime = 0, ps_cstime = 0,
     ps_vsize = 0, ps_rss = 0, ps_cpu_total = 0\<rparr>\<rparr>"

text \<open>
  \<open>usage\<close> is what \<open>get_usage\<close> reads, or what is in the struct when it fails, and \<open>processors\<close> what
  \<open>sysconf\<close> answers; \<open>scale\<close> and \<open>add\<close> are the operations on doubles. The first call returns -1,
  whether it reads anything or not; the result of a later one is the memory, virtual and
  resident, and the load of system, user and both.
\<close>

definition resourceUsage ::
  "(u64 \<Rightarrow> u64 \<Rightarrow> 'd) \<Rightarrow> (int \<Rightarrow> 'd \<Rightarrow> 'd) \<Rightarrow> ('d \<Rightarrow> 'd \<Rightarrow> 'd) \<Rightarrow> int \<Rightarrow> pstat + pstat \<Rightarrow> usage_state \<Rightarrow>
     (u64 \<times> u64 \<times> 'd \<times> 'd \<times> 'd) option \<times> usage_state" where
  "resourceUsage percent scale add processors usage st =
     (if \<not> us_inited st then
        (None, \<lparr>us_inited = True, us_processors = processors, us_last = (case usage of Inl partial \<Rightarrow> partial | Inr u \<Rightarrow> u)\<rparr>)
      else
        (case usage of
           Inl _ \<Rightarrow> (None, st)
         | Inr cur_usage \<Rightarrow>
             (case calc_cpu_usage_pct percent cur_usage (us_last st) of
                (ucpu, scpu) \<Rightarrow>
                  (Some (ps_vsize cur_usage, ps_rss cur_usage, scale (us_processors st) scpu, scale (us_processors st) ucpu,
                     scale (us_processors st) (add ucpu scpu)),
                   st\<lparr>us_last := cur_usage\<rparr>))))"

section \<open>What the helpers do\<close>

lemma listdir_loop_eq: "listdir_loop entries res = res @ filter (\<lambda>n. n \<noteq> ''.'' \<and> n \<noteq> ''..'') entries"
  by (induction entries arbitrary: res) auto

theorem base64_length:
  assumes "\<And>s. length (encode s) = (8 * length s + 5) div 6"
  shows "length (to_base64 encode s) = 4 * ((length s + 2) div 3)"
proof -
  define q r where "q = length s div 3" and "r = length s mod 3"
  then have n: "length s = 3 * q + r" and "r < 3" by simp_all
  have "(8 * (3 * q + r) + 5) div 6 = 4 * q + (8 * r + 5) div 6" "(3 * q + r + 2) div 3 = q + (r + 2) div 3"
    using div_mult_self2 [of 6 "8 * r + 5" "4 * q"] div_mult_self2 [of 3 "r + 2" q] by (simp_all add: algebra_simps)
  moreover from \<open>r < 3\<close> consider "r = 0" | "r = 1" | "r = 2" by linarith
  then have "(8 * r + 5) div 6 + (3 - r) mod 3 = 4 * ((r + 2) div 3)" by cases simp_all
  ultimately show ?thesis using \<open>r < 3\<close> by (simp add: to_base64_def assms n)
qed

lemma run_calls_prefix:
  "run_calls succeeds steps = (calls, r) \<Longrightarrow>
     prefix calls (map fst steps) \<and> (r = Inr () \<longrightarrow> calls = map fst steps \<and> list_all succeeds calls) \<and>
     list_all succeeds (if r = Inr () then calls else butlast calls)"
  by (induction steps arbitrary: calls) (auto split: if_splits prod.splits)

text \<open>
  The server runs only with a certificate file named, and with the option run_as only
  after initgroups, setgid, setegid, setuid and seteuid have all succeeded, in this order.
\<close>

theorem server_runs_dropped:
  assumes "server_main (change_process_privileges getpwnam succeeds errno) listens (Some opt) = (ec, Some calls)"
  shows "o_sert opt \<noteq> [] \<and> listens \<and>
    (o_run_as opt \<noteq> [] \<longrightarrow> (\<exists>uid gid. getpwnam (o_run_as opt) = Some (uid, gid) \<and>
       calls = [Initgroups (o_run_as opt) gid, Setgid gid, Setegid gid, Setuid uid, Seteuid uid] \<and> list_all succeeds calls))"
  using assms
  by (auto simp: server_main_def drop_privileges_def change_process_privileges_def check_sert_def
      split: if_splits prod.splits sum.splits option.splits)

theorem server_main_code: "server_main change listens opt = (ec, None) \<Longrightarrow> ec \<in> {-1, 0}"
  by (auto simp: server_main_def split: if_splits prod.splits sum.splits option.splits)

text \<open>Every failure after the options are checked ends with the exit code 0.\<close>

theorem failed_start_exit_zero:
  "\<not> o_help opt \<Longrightarrow> o_sert opt \<noteq> [] \<Longrightarrow> server_main change False (Some opt) = (0, None)"
  by (simp add: server_main_def check_sert_def)

lemma server_runs_dropped_witness:
  "\<exists>calls. server_main (change_process_privileges (\<lambda>u. Some (33, 44)) (\<lambda>_. True) []) True
      (Some \<lparr>o_help = False, o_sert = ''server.pem'', o_run_as = ''chat''\<rparr>) = (0, Some calls) \<and>
    calls = [Initgroups ''chat'' 44, Setgid 44, Setegid 44, Setuid 33, Seteuid 33]"
proof -
  let ?o = "\<lparr>o_help = False, o_sert = ''server.pem'', o_run_as = ''chat''\<rparr>" and ?get = "\<lambda>u :: string. Some (33 :: nat, 44 :: nat)"
  obtain calls where run: "server_main (change_process_privileges ?get (\<lambda>_. True) []) True (Some ?o) = (0, Some calls)"
    by (simp add: server_main_def drop_privileges_def change_process_privileges_def check_sert_def)
  from server_runs_dropped [OF run] run show ?thesis by auto
qed

text \<open>
  The name of a process. A kernel thread has an empty command line; then, and when the file
  cannot be opened, the result is the path of the file. A command line that is shorter than
  the path and has no zero byte is continued by the end of the path.
\<close>

lemma c_read_overwrite: "NUL \<notin> set s \<Longrightarrow> c_read (s @ NUL # rest) = Some s"
  by (simp add: c_read_def c_str_def takeWhile_append)

lemma cmdline_path_no_NUL: "NUL \<notin> set (cmdline_path pid)"
proof -
  have "\<not> isdigit NUL" by code_simp
  then have "NUL \<notin> set (show_nat n)" for n using show_nat_digits by blast
  then have "NUL \<notin> set (show_int pid)" by (simp add: show_int_def NUL_Char)
  then show ?thesis by (simp add: cmdline_path_def NUL_Char)
qed

theorem process_name_of_kernel_thread:
  "opened (cmdline_path pid) \<in> {None, Some []} \<Longrightarrow> process_name_by_pid garbage opened pid = Some (cmdline_path pid)"
  using c_read_overwrite [OF cmdline_path_no_NUL]
  by (auto simp: process_name_by_pid_def overwrite_def Let_def)

theorem process_name_continued:
  assumes "opened (cmdline_path pid) = Some content" "0 < length content" "length content \<le> length (cmdline_path pid)"
    "NUL \<notin> set content" "last content \<noteq> CHR 0x0A" "length (cmdline_path pid) < 1024"
  shows "process_name_by_pid garbage opened pid = Some (content @ drop (length content) (cmdline_path pid))"
proof -
  let ?p = "cmdline_path pid" and ?n = "length content"
  have "overwrite content (overwrite (?p @ [NUL]) garbage) =
      (content @ drop ?n ?p) @ NUL # drop (Suc (length ?p)) garbage"
    using assms(3) by (simp add: overwrite_def)
  moreover have "NUL \<notin> set (content @ drop ?n ?p)"
    using assms(4) cmdline_path_no_NUL [of pid] by (auto dest: in_set_dropD)
  moreover have "(content @ drop ?n ?p @ NUL # drop (Suc (length ?p)) garbage) ! (?n - 1) = last content"
    using assms(2) by (simp add: nth_append last_conv_nth)
  moreover have "take 1024 content = content" using assms(3,6) by simp
  ultimately show ?thesis
    using assms c_read_overwrite [of "content @ drop ?n ?p"]
    by (simp add: process_name_by_pid_def Let_def)
qed

theorem process_list_overflow:
  "pe_dir e \<Longrightarrow> contains_only_numbers (pe_name e) \<Longrightarrow> pe_cmdline e = Some f \<Longrightarrow> 1024 \<le> length (scan_word f) \<Longrightarrow>
     processList (Some (e # es)) = None"
  by (auto simp: processList_def Let_def)

end
