(* ===== verification/Proc_Usage.thy ===== *)
theory Proc_Usage
  imports Sys_Utils
begin

text \<open>
  \<open>get_usage\<close> of \<open>common/sysutils.cpp\<close>: \<open>fscanf\<close> with its two formats, the struct it fills, and
  what it reads from the lines that the kernel prints.
\<close>

section \<open>Formatted input\<close>

text \<open>
  The directives of the formats: blanks, \<open>%*d\<close> and \<open>%*u\<close>, \<open>%*s\<close>, \<open>%*c\<close>, \<open>%lu\<close> and \<open>%ld\<close>. The
  numbers are in the range of their type. A conversion fails at the end of the input (\<open>Inl True\<close>) or at
  a character that does not fit (\<open>Inl False\<close>).
\<close>

datatype directive = Blank | Skip_int | Skip_word | Skip_char | Read_int

definition scan_int :: "string \<Rightarrow> bool + (int \<times> string)" where
  "scan_int s =
     (let r = dropWhile isspace s
      in if r = [] then Inl True
         else (case sign_split r of (neg, t) \<Rightarrow>
                 let ds = takeWhile isdigit t; v = int (digits_val 0 ds)
                 in if ds = [] then Inl False else Inr (if neg then - v else v, dropWhile isdigit t)))"

text \<open>The values assigned, and whether the end of the input stopped it.\<close>

fun fscanf :: "directive list \<Rightarrow> string \<Rightarrow> int list \<times> bool" where
  "fscanf [] s = ([], False)"
| "fscanf (Blank # ds) s = fscanf ds (dropWhile isspace s)"
| "fscanf (Skip_char # ds) s = (case s of [] \<Rightarrow> ([], True) | _ # t \<Rightarrow> fscanf ds t)"
| "fscanf (Skip_word # ds) s =
     (let r = dropWhile isspace s in if r = [] then ([], True) else fscanf ds (dropWhile (\<lambda>c. \<not> isspace c) r))"
| "fscanf (Skip_int # ds) s = (case scan_int s of Inl eof \<Rightarrow> ([], eof) | Inr (_, t) \<Rightarrow> fscanf ds t)"
| "fscanf (Read_int # ds) s =
     (case scan_int s of Inl eof \<Rightarrow> ([], eof) | Inr (v, t) \<Rightarrow> (case fscanf ds t of (vs, eof) \<Rightarrow> (v # vs, eof)))"

text \<open>The result \<open>EOF\<close>: the input ended before a value was assigned.\<close>

definition at_eof :: "int list \<times> bool \<Rightarrow> bool" where
  "at_eof r \<longleftrightarrow> r = ([], True)"

section \<open>The usage of a process\<close>

definition stat_numbers :: "directive list" where
  "stat_numbers =
     [Blank, Skip_int, Blank, Skip_int, Blank, Skip_int, Blank, Skip_int, Blank, Skip_int,
      Blank, Skip_int, Blank, Skip_int, Blank, Skip_int, Blank, Skip_int, Blank, Skip_int,
      Blank, Read_int, Read_int, Blank, Read_int, Blank, Read_int,
      Blank, Skip_int, Blank, Skip_int, Blank, Skip_int, Blank, Skip_int, Blank, Skip_int, Blank, Read_int, Blank, Read_int]"

definition stat_format :: "directive list" where
  "stat_format = [Skip_int, Blank, Skip_word, Blank, Skip_char] @ stat_numbers"

definition cpu_format :: "directive list" where
  "cpu_format = Skip_word # concat (replicate 10 [Blank, Read_int])"

text \<open>A variable of 64 bits that is zero, or the value assigned.\<close>

definition scanned :: "int list \<Rightarrow> nat \<Rightarrow> u64" where
  "scanned vs i = (if i < length vs then word_of_int (vs ! i) else 0)"

text \<open>
  \<open>opened\<close> gives the content of a file that can be opened; \<open>garbage\<close> is in the variable
  \<open>rss\<close> before it is assigned. \<open>Inl\<close>: the result is -1, with what the struct holds.
\<close>

definition get_usage :: "u64 \<Rightarrow> u64 \<Rightarrow> (string \<Rightarrow> string option) \<Rightarrow> int \<Rightarrow> pstat \<Rightarrow> pstat + pstat" where
  "get_usage garbage pagesize opened pid result =
     (case opened (''/proc/'' @ show_int pid @ ''/stat'') of
        None \<Rightarrow> Inl result
      | Some fpstat \<Rightarrow>
          let r = fscanf stat_format fpstat; vs = fst r;
              rss = if 5 < length vs then scanned vs 5 else garbage;
              result = \<lparr>ps_utime = scanned vs 0, ps_cutime = scanned vs 2, ps_stime = scanned vs 1, ps_cstime = scanned vs 3,
                ps_vsize = scanned vs 4, ps_rss = 0, ps_cpu_total = 0\<rparr>
          in if at_eof r then Inl result
             else
               let result = result\<lparr>ps_rss := rss * pagesize\<rparr>
               in (case opened ''/proc/stat'' of
                     None \<Rightarrow> Inl result
                   | Some fstat \<Rightarrow>
                       let r = fscanf cpu_format fstat; cpu_time = scanned (fst r)
                       in if at_eof r then Inl result
                          else Inr (fold (\<lambda>i result. result\<lparr>ps_cpu_total := ps_cpu_total result + cpu_time i\<rparr>) [0..<10] result)))"

section \<open>What it reads\<close>

text \<open>The numbers of a line as the kernel prints them, and the ones that a format assigns.\<close>

definition blank_numbers :: "int list \<Rightarrow> string" where
  "blank_numbers vs = concat (map (\<lambda>v. CHR '' '' # show_int v) vs)"

fun picked :: "directive list \<Rightarrow> int list \<Rightarrow> int list" where
  "picked (Skip_int # ds) (v # vs) = picked ds vs"
| "picked (Read_int # ds) (v # vs) = v # picked ds vs"
| "picked (Blank # ds) vs = picked ds vs"
| "picked _ _ = []"

definition numeric :: "directive \<Rightarrow> bool" where
  "numeric d \<longleftrightarrow> d \<in> {Skip_int, Read_int}"

definition no_digit_next :: "string \<Rightarrow> bool" where
  "no_digit_next s \<longleftrightarrow> (case s of [] \<Rightarrow> True | c # _ \<Rightarrow> \<not> isdigit c)"

lemma digits_then:
  assumes "no_digit_next rest"
  shows "takeWhile isdigit (show_nat n @ rest) = show_nat n" "dropWhile isdigit (show_nat n @ rest) = rest"
  using assms show_nat_digits [of n] by (auto simp: no_digit_next_def takeWhile_append dropWhile_append split: list.splits)

lemma scan_shown:
  assumes "no_digit_next rest"
  shows "scan_int (show_int v @ rest) = Inr (v, rest)"
proof (cases "v < 0")
  case True
  have "\<not> isspace (CHR ''-'')" by (simp add: isspace_def)
  with True show ?thesis
    by (simp add: scan_int_def show_int_def sign_split_def Let_def digits_then [OF assms] digits_val_show_nat)
next
  case False
  then show ?thesis
    by (simp add: scan_int_def show_int_def Let_def show_nat_no_sign show_nat_no_space digits_then [OF assms] digits_val_show_nat)
qed

lemma scan_int_blank: "dropWhile isspace s = dropWhile isspace t \<Longrightarrow> scan_int s = scan_int t"
  by (simp add: scan_int_def)

lemma blank_numbers_next: "no_digit_next rest \<Longrightarrow> no_digit_next (blank_numbers vs @ rest)"
  by (cases vs) (auto simp: blank_numbers_def no_digit_next_def isdigit_def)

text \<open>A format of numbers reads the numbers of a line, whether or not the first blank is left.\<close>

lemma fscanf_numbers:
  assumes "set ds \<subseteq> {Blank, Skip_int, Read_int}" "length (filter numeric ds) \<le> length vs" "no_digit_next rest"
    "dropWhile isspace s = dropWhile isspace (blank_numbers vs @ rest)"
  shows "fscanf ds s = (picked ds vs, False)"
  using assms(1,2,4)
proof (induction ds arbitrary: vs s)
  case (Cons d ds)
  show ?case
  proof (cases "d = Blank")
    case True
    then show ?thesis using Cons.IH [of vs "dropWhile isspace s"] Cons.prems by (simp add: numeric_def)
  next
    case False
    then have num: "numeric d" using Cons.prems(1) by (auto simp: numeric_def)
    then obtain v us where vs: "vs = v # us" using Cons.prems(2) by (cases vs) auto
    have "isspace (CHR '' '')" by (simp add: isspace_def)
    then have "scan_int s = scan_int (show_int v @ blank_numbers us @ rest)"
      using Cons.prems(3) by (intro scan_int_blank) (simp add: vs blank_numbers_def)
    then have "scan_int s = Inr (v, blank_numbers us @ rest)"
      using scan_shown [OF blank_numbers_next [OF assms(3)]] by simp
    moreover have "fscanf ds (blank_numbers us @ rest) = (picked ds us, False)"
      using Cons num vs by simp
    ultimately show ?thesis using num by (auto simp: numeric_def vs)
  qed
qed (simp add: numeric_def)

text \<open>The line of a process in \<open>/proc/pid/stat\<close>, and the first line of \<open>/proc/stat\<close>.\<close>

definition stat_line :: "int \<Rightarrow> string \<Rightarrow> char \<Rightarrow> int list \<Rightarrow> string" where
  "stat_line pid comm state vs = show_int pid @ '' ('' @ comm @ '') '' @ [state] @ blank_numbers vs @ [CHR 0x0A]"

definition cpu_line :: "int list \<Rightarrow> string \<Rightarrow> string" where
  "cpu_line tms rest = ''cpu '' @ blank_numbers tms @ [CHR 0x0A] @ rest"

lemma word_then_blank:
  "\<forall>c \<in> set w. \<not> isspace c \<Longrightarrow> isspace b \<Longrightarrow> dropWhile (\<lambda>c. \<not> isspace c) (w @ b # rest) = b # rest"
  by (simp add: dropWhile_append)

lemma spaces: "isspace (CHR '' '')" "isspace (CHR 0x0A)" "\<not> isspace (CHR ''('')" "\<not> isspace (CHR '')'')" "\<not> isspace (CHR ''c'')"
  "\<not> isspace (CHR ''p'')" "\<not> isspace (CHR ''u'')" "\<not> isdigit (CHR 0x0A)" "\<not> isdigit (CHR '' '')"
  by (simp_all add: isspace_def isdigit_def)

lemma fscanf_name:
  assumes "\<forall>c \<in> set w. \<not> isspace c" "isspace b"
  shows "fscanf (Skip_int # Blank # Skip_word # Blank # ds) (show_int pid @ '' ('' @ w @ b # rest) = fscanf ds (dropWhile isspace rest)"
proof -
  have "no_digit_next ('' ('' @ w @ b # rest)" by (simp add: no_digit_next_def spaces)
  moreover have "dropWhile (\<lambda>c. \<not> isspace c) (''('' @ w @ b # rest) = b # rest"
    using word_then_blank [of "''('' @ w" b rest] assms by (simp add: spaces)
  ultimately show ?thesis using assms(2) by (simp add: scan_shown spaces)
qed

lemma fscanf_stat_line:
  assumes "\<forall>c \<in> set comm. \<not> isspace c" "\<not> isspace state" "21 \<le> length vs"
  shows "fscanf stat_format (stat_line pid comm state vs) = (picked stat_numbers vs, False)"
proof -
  have "fscanf stat_numbers (blank_numbers vs @ [CHR 0x0A]) = (picked stat_numbers vs, False)"
    by (rule fscanf_numbers [where rest = "[CHR 0x0A]"]) (use assms(3) in \<open>simp_all add: stat_numbers_def numeric_def no_digit_next_def spaces\<close>)
  then show ?thesis
    using assms fscanf_name [of "comm @ '')''" "CHR '' ''" "Skip_char # stat_numbers" pid "state # blank_numbers vs @ [CHR 0x0A]"]
    by (simp add: stat_format_def stat_line_def ball_Un spaces)
qed

lemma fscanf_cpu_line: 
  assumes "10 \<le> length tms"
  shows "fscanf cpu_format (cpu_line tms rest) = (take 10 tms, False)"
proof -
  let ?ds = "concat (replicate 10 [Blank, Read_int])"
  have "picked ?ds tms = take 10 tms"
    using assms by (simp add: numeral_eq_Suc Suc_le_length_iff) (elim exE conjE, simp)
  moreover have "fscanf ?ds ('' '' @ blank_numbers tms @ CHR 0x0A # rest) = (picked ?ds tms, False)"
    by (rule fscanf_numbers [where rest = "CHR 0x0A # rest"]) (use assms in \<open>simp_all add: numeral_eq_Suc numeric_def no_digit_next_def spaces\<close>)
  ultimately show ?thesis by (simp add: cpu_format_def cpu_line_def spaces)
qed

text \<open>
  From the lines that the kernel prints, \<open>get_usage\<close> takes the user and system times of the
  process and of its children, the memory, and the sum of the first ten times of the machine.
\<close>

lemma picked_drop:
  assumes "k < length vs"
  shows "picked (Skip_int # ds) (drop k vs) = picked ds (drop (Suc k) vs)"
    "picked (Read_int # ds) (drop k vs) = vs ! k # picked ds (drop (Suc k) vs)"
  by (simp_all add: Cons_nth_drop_Suc [OF assms, symmetric])

lemma picked_stat:
  assumes "21 \<le> length vs"
  shows "picked stat_numbers vs = [vs ! 10, vs ! 11, vs ! 12, vs ! 13, vs ! 19, vs ! 20]"
proof -
  have "vs \<noteq> []" using assms by auto
  then have "picked stat_numbers (drop 0 vs) = [vs ! 10, vs ! 11, vs ! 12, vs ! 13, vs ! 19, vs ! 20]"
    unfolding stat_numbers_def using assms by (simp add: picked_drop numeral_eq_Suc del: drop0)
  then show ?thesis by simp
qed

lemma fold_total:
  "fold (\<lambda>i r. r\<lparr>ps_cpu_total := ps_cpu_total r + f i\<rparr>) is r = r\<lparr>ps_cpu_total := ps_cpu_total r + sum_list (map f is)\<rparr>"
  by (induction "is" arbitrary: r) (simp_all add: add.assoc)

lemma sum_scanned: "sum_list (map (scanned us) [0..<length us]) = word_of_int (sum_list us)"
proof -
  have "map (scanned us) [0..<length us] = map word_of_int us"
    by (rule nth_equalityI) (simp_all add: scanned_def)
  moreover have "sum_list (map word_of_int us) = (word_of_int (sum_list us) :: u64)"
    by (induction us) simp_all
  ultimately show ?thesis by simp
qed

text \<open>
  (C40) From the lines the kernel prints for a process whose name has no blank and for the
  machine, get_usage takes the user and system times of the process and of its children, its
  memory, virtual and resident, and the sum of the first ten times of the machine.
\<close>

theorem usage_read:
  assumes "opened (''/proc/'' @ show_int pid @ ''/stat'') = Some (stat_line pid comm state vs)"
    "opened ''/proc/stat'' = Some (cpu_line tms rest)"
    "\<forall>c \<in> set comm. \<not> isspace c" "\<not> isspace state" "21 \<le> length vs" "10 \<le> length tms"
  shows "get_usage garbage pagesize opened pid result = Inr \<lparr>ps_utime = word_of_int (vs ! 10), ps_cutime = word_of_int (vs ! 12),
    ps_stime = word_of_int (vs ! 11), ps_cstime = word_of_int (vs ! 13), ps_vsize = word_of_int (vs ! 19),
    ps_rss = word_of_int (vs ! 20) * pagesize, ps_cpu_total = word_of_int (sum_list (take 10 tms))\<rparr>"
proof -
  have "length (take 10 tms) = 10" using assms(6) by simp
  with sum_scanned [of "take 10 tms"] have "sum_list (map (scanned (take 10 tms)) [0..<10]) = word_of_int (sum_list (take 10 tms))"
    by simp
  then show ?thesis
    using assms(1,2) fscanf_stat_line [OF assms(3-5), of pid] fscanf_cpu_line [OF assms(6), of rest] picked_stat [OF assms(5)]
    by (simp add: get_usage_def at_eof_def fold_total scanned_def [of "[_, _, _, _, _, _]"] Let_def)
qed

text \<open>
  A process whose name has a blank in it: the conversion of the numbers stops at the rest of the
  name. That is not the end of the file, so the result is a success with the times at zero and
  the memory computed from a variable that was never assigned.
\<close>

theorem usage_of_spaced_name:
  assumes "opened (''/proc/'' @ show_int pid @ ''/stat'') = Some (show_int pid @ '' ('' @ w @ '' '' @ [c, d] @ tail)"
    "opened ''/proc/stat'' = Some (cpu_line tms rest)" "10 \<le> length tms"
    "\<forall>c \<in> set w. \<not> isspace c" "\<not> isspace c" "\<not> isspace d" "\<not> isdigit d" "d \<noteq> CHR ''-''" "d \<noteq> CHR ''+''"
  shows "\<exists>u. get_usage garbage pagesize opened pid result = Inr u \<and> ps_utime u = 0 \<and> ps_stime u = 0 \<and> ps_cutime u = 0 \<and>
    ps_cstime u = 0 \<and> ps_vsize u = 0 \<and> ps_rss u = garbage * pagesize"
proof -
  have "scan_int (d # tail) = Inl False"
    using assms(6-9) by (simp add: scan_int_def sign_split_def)
  then have "fscanf stat_numbers (d # tail) = ([], False)"
    using assms(6) by (simp add: stat_numbers_def)
  then have "fscanf stat_format (show_int pid @ '' ('' @ w @ '' '' @ [c, d] @ tail) = ([], False)"
    using fscanf_name [OF assms(4), of "CHR '' ''" "Skip_char # stat_numbers" pid "c # d # tail"] assms(5)
    by (simp add: stat_format_def spaces)
  then show ?thesis
    using assms(1,2) fscanf_cpu_line [OF assms(3), of rest]
    by (simp add: get_usage_def at_eof_def fold_total scanned_def Let_def)
qed

lemma usage_read_witness:
  "get_usage 7 4096 [''/proc/12/stat'' \<mapsto> stat_line 12 ''sh'' (CHR ''S'') [1, 12, 12, 0, -1, 0, 0, 0, 0, 0, 50, 20, 3, 4, 20, 0, 1, 0, 99, 8192, 2],
      ''/proc/stat'' \<mapsto> cpu_line [1, 2, 3, 4, 5, 6, 7, 8, 9, 10] []] 12 (us_last no_usage) =
    Inr \<lparr>ps_utime = 50, ps_cutime = 3, ps_stime = 20, ps_cstime = 4, ps_vsize = 8192, ps_rss = 8192, ps_cpu_total = 55\<rparr>"
proof -
  have pid: "show_int 12 = ''12''" by code_simp
  let ?vs = "[1, 12, 12, 0, -1, 0, 0, 0, 0, 0, 50, 20, 3, 4, 20, 0, 1, 0, 99, 8192, 2] :: int list"
  let ?opened = "[''/proc/12/stat'' \<mapsto> stat_line 12 ''sh'' (CHR ''S'') ?vs, ''/proc/stat'' \<mapsto> cpu_line [1, 2, 3, 4, 5, 6, 7, 8, 9, 10] []]"
  show ?thesis
    using usage_read [of ?opened 12 "''sh''" "CHR ''S''" ?vs "[1, 2, 3, 4, 5, 6, 7, 8, 9, 10]" "[]" 7 4096 "us_last no_usage"]
    by (simp add: pid isspace_def)
qed

end
