(* ===== verification/Spec2Isabelle.thy ===== *)
theory Spec2Isabelle
  imports Chat_Demo Parallel_Demo Cli_Lifecycle Proc_Usage
begin

text \<open>
  o2chat is a chat server and its console client in C++. This development models both programs
  as HOL functions translated from \<open>src/\<close>, and proves what they do alone and together.

  \<^bold>\<open>The program.\<close> A console client (\<open>client/src\<close>) reads lines, turns commands into JSON bodies in HTTP
  requests, and holds two connections: one for commands, one for the long poll that brings new
  messages. The server (\<open>server/src\<close>) accepts connections; an \<open>ApiClient\<close> per connection parses
  requests, routes them and puts tasks into a queue; worker threads take tasks, work on an
  in-memory database and call the \<open>ApiClient\<close> back, which writes the answer and reads the next
  request. A request for the long poll starts a timer that queues a task every 200 ms. Both
  programs share the HTTP connection (\<open>net/\<close>), the queue and the utilities (\<open>common/\<close>), and the
  vendored RapidJSON.

  \<^bold>\<open>The theories\<close>, each with the code it models.
  \<^item> \<open>Prelude\<close>: word types and generic lemmas. \<open>Cxx_Std\<close>: what the source uses of the C++
    library (\<open>std::stoi\<close>, \<open>std::to_string\<close>, \<open>std::string::find\<close>, \<open>isspace\<close>).
  \<^item> \<open>Str_Utils\<close>: \<open>common/utils.cpp\<close>. \<open>Lock_Queue\<close>: \<open>common/lock_queue.hpp\<close>.
  \<^item> \<open>Json\<close>, \<open>Json_Reader\<close>: RapidJSON's writer, its reader with the default flags, and the
    lookups the program makes in a document.
  \<^item> \<open>Database\<close>, \<open>Database_Inv\<close>: \<open>server/src/database.hpp\<close> and \<open>inmemory_dbconn.cpp\<close>, the
    interface \<open>Connection\<close> as a record of operations, and the invariant of the storage;
    \<open>Connection\<close>: the laws of that interface as locales, interpreted on the in-memory database.
  \<^item> \<open>Api\<close>: commands, parameters, bodies and \<open>parse_meta\<close> of the server
    (\<open>apiclient_utils.cpp\<close>, \<open>apiclient.cpp\<close>, \<open>request.hpp\<close>, \<open>common.hpp\<close>). \<open>Cli_Api\<close>: the bodies
    and parsers of the client (\<open>client/src/apiclient_utils.cpp\<close>) and that each side reads what the
    other writes.
  \<^item> \<open>Db_Worker\<close>: \<open>server/src/database_worker.cpp\<close>, one function per command, the queue and the
    loop of a worker. \<open>Server_Spec\<close>: what the commands do, against abstract specifications: the
    accounts as a map, the messages as an append-only log. \<open>Answers\<close>: the types of the answers.
  \<^item> \<open>Http\<close>, \<open>Http_Messages\<close>: the parser of \<open>AsyncHttpClient\<close> in \<open>net/client.cpp\<close> as a state
    machine over the bytes received, and the messages it accepts in any segments.
  \<^item> \<open>Api_Client\<close>: \<open>ApiClient\<close> of \<open>server/src/apiclient.cpp\<close>: the state is its members, a handler
    returns the new state and the effects it starts. \<open>Session\<close>: one connection driven by events.
    \<open>System\<close>: the server, with any interleaving of its connections and rounds of a worker.
  \<^item> \<open>Parallel\<close>: the tasks of \<open>database_worker.cpp\<close> as trees of the calls that lock the storage,
    and any number of workers whose steps interleave: what a task relies on and guarantees, that
    no request is lost or answered twice, that all are answered. \<open>Parallel_Late\<close>: messages saved
    in the other order than their times. \<open>Parallel_System\<close>: the server
    with these workers; the rounds of \<open>System\<close> are some of its schedules.
  \<^item> \<open>Wire\<close>: requests from their bytes to the bytes of the answer.
  \<^item> \<open>Cli_Input\<close>: the command lines of the client. \<open>Cli_Client\<close>: \<open>Client\<close> of
    \<open>client/src/client.cpp\<close> with the console (\<open>ui.cpp\<close>) and the queue of events
    (\<open>event_worker.cpp\<close>). \<open>Cli_Overlap\<close>: commands typed before the answer to the previous one.
    \<open>Chat\<close>: two consoles with the server between them.
  \<^item> \<open>Net_Connect\<close>: \<open>net/async_connect.hpp\<close>, \<open>net/sync_connect.hpp\<close>, \<open>resolve\<close>, \<open>asyncConnect\<close> and
    \<open>write\<close> of \<open>net/client.cpp\<close>. \<open>Net_Read\<close>: its blocking \<open>read\<close> and \<open>read_until\<close>, with the race
    between the handlers of the read and of the timer. \<open>Net_Client\<close>: the match conditions of
    \<open>asyncRead\<close>, the members of a \<open>TcpClient\<close> and its connects, \<open>gzipInflate\<close>.
  \<^item> \<open>Lifecycle\<close>: \<open>Server::run\<close> and \<open>handleStop\<close> (\<open>server/src/server.cpp\<close>) with \<open>common/io_thread.hpp\<close>
    and the threads of the workers, as a step relation of threads that start, stop and are joined.
    \<open>Cli_Lifecycle\<close>: the same for \<open>main\<close> and \<open>Client::run\<close> of the client, with its timer.
  \<^item> \<open>Start_Up\<close>: options, the choice of io threads, session identifiers, clocks. \<open>Sys_Utils\<close>:
    \<open>main\<close> of the server (\<open>server/src/main.cpp\<close>), the files, owners and base64 of
    \<open>common/utils.cpp\<close>, and \<open>common/sysutils.cpp\<close>, over what the system answers. \<open>Proc_Usage\<close>: its
    \<open>get_usage\<close>, with \<open>fscanf\<close> for the two formats.
  \<^item> \<open>Demo\<close>, \<open>Wire_Demo\<close>, \<open>Chat_Demo\<close>, \<open>Parallel_Demo\<close>: a small database and the properties applied to it.

  \<^bold>\<open>Conventions.\<close> Integers of 32 and 64 bits are words. A result \<open>None\<close> of a function of the server
  or the client is a failed \<open>RAPIDJSON_ASSERT\<close>, which aborts the process. Exceptions are sums, an
  error that is answered is an action. The mutexes of the queue and of the database make each
  of their methods one step. Arguments stand for code that is not in the repository: \<open>crc\<close>
  (\<open>boost::crc_32_type\<close>), \<open>inflate\<close> (zlib), \<open>now\<close> (the clock), \<open>srt\<close> (the order \<open>std::sort\<close> gives
  equal elements; its one hypothesis is \<open>sorts_newest_first\<close>), what the network, the files and
  the system calls answer, the results of \<open>rand\<close>, and the option \<open>pass_len\<close>; \<open>env\<close> collects
  those of the server.

  \<^bold>\<open>Bounds and fuel.\<close> The JSON reader recurses with the length of the text as fuel, and
  \<open>json_parser_ends\<close> shows that it never runs out. The loop of \<open>split\<close> may not end
  (\<open>split_empty_delimiter\<close>), so it is a partial function; for other delimiters it returns. So is
  the loop of \<open>gzipInflate\<close>, which ends for every inflater that makes progress when it says so
  and always has room in its buffer (\<open>gzip_never_fails\<close>). The parser of HTTP stops when no handler can run on the bytes received, as each run consumes
  some. Storage invariants need fewer than \<open>2 ^ 64 - 2\<close> events, as ids are counters of 64 bits.
  Bodies are shorter than \<open>2 ^ 64\<close> bytes, the range of \<open>size_t\<close>; \<open>small_storage\<close> gives sizes that
  ensure it for the answers to a poll.

  \<^bold>\<open>What is shown.\<close> From console to console: a typed line is displayed at the receiver, a login
  starts the long poll. Over the wire: registration, delivery of requests, answers and chunks
  in any segments, one operation in flight per connection. On the storage: the invariant in
  every reachable state, with the steps of all workers interleaved, answers to all requests
  under a fair scheduler, the refinement of accounts and log, history, polls, privacy of polls,
  rejection without a password, answers in order. On the formats: round trips of JSON, of the
  protocol in both directions, of command lines, and the equivalence of the regular expression
  with a scanner. On the network: the blocking reads against readers of the whole stream, match
  conditions in any segments, the end of every wait. On the process: a stop signal ends every
  thread, and the server drops its privileges before it runs. Some theorems show what goes wrong:
  a body that aborts the server, the command no worker answers, a message saved too late for the
  polls, a poll whose password is wrong, messages a poll never returns, limits that are cut or
  wrap, the usage of a process with a blank in its name, a console that takes one answer for another, a stop signal that comes too early, a client
  that cannot be stopped, bytes
  after a timeout.

  \<^bold>\<open>Not modelled.\<close> TLS, sockets, timers and the scheduler of boost::asio beyond the order of their
  events; the listening socket and \<open>handleHUP\<close>, which only registers itself again; logging (o2logger)
  and the parsing of options (libproperty), which are vendored; \<open>is_dir\<close>, which is one call of Boost, and the rounding of doubles; the
  values of floating-point numbers in JSON, which are kept as text; the MySQL connection, which
  is a stub in the source.
\<close>

section \<open>JSON\<close>

lemma writable_parsable:
  "writable v \<Longrightarrow> parsable v" "writable_members ms \<Longrightarrow> parsable_members ms"
  "writable_elements vs \<Longrightarrow> parsable_elements vs"
  by (induction v and ms and vs rule: writable_writable_members_writable_elements.induct) auto

text \<open>
  (C28) Printing a value with the JSON writer succeeds, and parsing the text with the JSON
  reader gives the value back, for all nested objects, arrays, zero-free strings and unsigned
  64-bit numbers.
\<close>

theorem json_roundtrip:
  assumes "writable v"
  shows "\<exists>t. document (emit v) = Some t \<and> Parse t = Inr v"
  using document_emit [OF assms] Parse_serialize [OF writable_parsable(1) [OF assms]] by simp

lemma json_roundtrip_witness:
  "\<exists>t. document (emit (JObject [(''user'', JString ''bob''), (''count'', JArray [JInt 3])])) = Some t \<and>
    Parse t = Inr (JObject [(''user'', JString ''bob''), (''count'', JArray [JInt 3])])"
  using json_roundtrip [of "JObject [(''user'', JString ''bob''), (''count'', JArray [JInt 3])]"] by simp

text \<open>
  (C29) The JSON parser ends on every input: the fuel that stands for its recursion depth
  never runs out.
\<close>

theorem json_parser_ends: "Parse str \<noteq> Inl OutOfFuel"
  by (rule Parse_no_OutOfFuel)

section \<open>The protocol\<close>

text \<open>
  (C26) Protocol, requests: for each of the nine commands that the client sends (USER_LOGIN,
  USER_CREATE, USER_HISTORY, USER_STATUS, MESSAGE_SEND, IDLE, CHAT_CREATE, CHAT_ADDUSER,
  MESSAGE_SEND_CHAT) the body that the client builds is parsed by the server into the
  parameters the client put in, strings up to a zero byte and not empty, user id below 2^32. A
  count of 2^32 or more, and a time of 0 or of 2^32 or more, is not taken over and leaves the
  parameter as it was; a password that is too weak is an error for USER_CREATE alone.
\<close>

theorem client_requests_read:
  assumes "uid < 2 ^ 32" "c_str user \<noteq> []" "c_str pass \<noteq> []" "c_str msg \<noteq> []" "c_str grp \<noteq> []"
  shows "Option.bind (build_user_pass_body user pass) (\<lambda>b. parse_meta n p b USER_LOGIN) =
      Some (p\<lparr>p_password := c_str pass, p_user := c_str user\<rparr>, [])
    \<and> Option.bind (build_user_pass_body user pass) (\<lambda>b. parse_meta n p b USER_CREATE) =
      Some (p\<lparr>p_password := c_str pass, p_user := c_str user\<rparr>,
        if password_check (c_str pass) (if n < 0 then 8 else nat n) then [] else ''weak password'')
    \<and> Option.bind (build_user_history_msg_body uid user cnt pass) (\<lambda>b. parse_meta n p b USER_STATUS) =
      Some (p\<lparr>p_password := c_str pass, p_uid := uid, p_user := c_str user,
        p_count := if cnt < 2 ^ 32 then cnt else p_count p\<rparr>, [])
    \<and> Option.bind (build_user_history_msg_body uid user cnt pass) (\<lambda>b. parse_meta n p b USER_HISTORY) =
      Some (p\<lparr>p_password := c_str pass, p_uid := uid, p_user := c_str user,
        p_count := if cnt < 2 ^ 32 then cnt else p_count p\<rparr>, [])
    \<and> Option.bind (build_user_send_msg_body uid t user msg pass) (\<lambda>b. parse_meta n p b MESSAGE_SEND) =
      Some (p\<lparr>p_password := c_str pass, p_uid := uid, p_message := c_str msg, p_to_user := c_str user\<rparr>, [])
    \<and> Option.bind (build_user_send_msg_body uid t [] [] pass) (\<lambda>b. parse_meta n p b IDLE) =
      Some (p\<lparr>p_password := c_str pass, p_uid := uid,
        p_ts := if t \<noteq> 0 \<and> t < 2 ^ 32 then t else p_ts p\<rparr>, [])
    \<and> Option.bind (build_groups_msg_body uid grp [] [] pass) (\<lambda>b. parse_meta n p b CHAT_CREATE) =
      Some (p\<lparr>p_password := c_str pass, p_uid := uid, p_chat_name := c_str grp\<rparr>, [])
    \<and> Option.bind (build_groups_msg_body uid grp user [] pass) (\<lambda>b. parse_meta n p b CHAT_ADDUSER) =
      Some (p\<lparr>p_password := c_str pass, p_uid := uid, p_chat_name := c_str grp,
        p_chat_adduser := c_str user\<rparr>, [])
    \<and> Option.bind (build_groups_msg_body uid grp [] msg pass) (\<lambda>b. parse_meta n p b MESSAGE_SEND_CHAT) =
      Some (p\<lparr>p_password := c_str pass, p_uid := uid, p_message := c_str msg,
        p_chat_name := c_str grp\<rparr>, [])"
  using assms login_request_read register_request_read history_request_read [of uid user pass USER_HISTORY]
    history_request_read [of uid user pass USER_STATUS] send_request_read idle_request_read chat_request_read
  by simp

lemma client_requests_read_witness:
  "Option.bind (build_user_send_msg_body 5 0 ''bob'' ''hi'' ''secret12'') (\<lambda>b. parse_meta (-1) no_params b MESSAGE_SEND) =
    Some (no_params\<lparr>p_password := ''secret12'', p_uid := 5, p_message := ''hi'', p_to_user := ''bob''\<rparr>, [])"
proof -
  have s: "c_str ''bob'' = ''bob''" "c_str ''secret12'' = ''secret12''" "c_str ''hi'' = ''hi''" "c_str ''team'' = ''team''"
    by (simp_all add: c_str_def NUL_Char)
  show ?thesis
    using client_requests_read [of 5 "''bob''" "''secret12''" "''hi''" "''team''" "-1" no_params 10 0] s by simp
qed

text \<open>
  (C27) Protocol, answers: the bodies the server builds for a user, a chat and a list of
  messages are read back by the client into the same ids, times and messages.
\<close>

theorem server_answers_read:
  "Option.bind (ok_body_user now u) (\<lambda>b. parse_response_aswer b r) =
      Some (\<lparr>r_uid = user_id u, r_chatid = self_chat_id u, r_heartbit = heartbit u, r_server_ts = now\<rparr>, [])
   \<and> Option.bind (ok_body_chat now c) (\<lambda>b. parse_response_aswer b r) =
      Some (r\<lparr>r_chatid := chat_id c, r_server_ts := now\<rparr>, [])
   \<and> Option.bind (ok_body_msgs now msgs) (\<lambda>b. parse_msg_response b rs) =
      Some (rs @ map c_message msgs, [])"
  by (simp only: user_answer_read chat_answer_read msgs_answer_read simp_thms)

end
